(* ===== verification/Prelude.thy ===== *)
theory Prelude
  imports
    Main
    "HOL-Library.Word"
    "HOL-Library.Sublist"
    "HOL-Library.Multiset"
    "HOL-Library.List_Lexorder"
    "HOL-Library.Char_ord"
    "HOL-Library.Mapping"
    "HOL-Library.Extended_Nat"
begin

text \<open>
  What every component shares: the result type of a fallible Go function, 64-bit signed
  arithmetic, three-way comparison in the style of Go's package cmp, the contract of
  slices.SortFunc as a locale, and generic lemmas on lists.

  A Go string is a sequence of bytes, so it is an Isabelle \<^typ>\<open>string\<close> (a list of 8-bit
  characters); a rune is a \<^typ>\<open>nat\<close>; a uint32 is a \<^typ>\<open>32 word\<close>; an int64 is an
  \<^typ>\<open>int\<close> whose operations wrap explicitly (\<open>i64\<close>) where the code's result can leave
  the range.
\<close>

named_theorems go_simps \<open>evaluation rules of the Go library models\<close>
named_theorems wf_intros \<open>well-formedness facts of the components\<close>

type_synonym bytes = string
type_synonym rune = nat
type_synonym u32 = "32 word"

text \<open>The run-time panics of Go that the modelled code can raise.\<close>

datatype panic =
    IndexOutOfRange
  | SliceOutOfRange
  | SendOnClosedChannel
  | CloseOfClosedChannel
  | NilDereference

section \<open>Signed 64-bit arithmetic\<close>

definition i64 :: "int \<Rightarrow> int" where
  "i64 x = (x + 2 ^ 63) mod 2 ^ 64 - 2 ^ 63"

definition max_int64 :: int where
  "max_int64 = 2 ^ 63 - 1"

definition min_int64 :: int where
  "min_int64 = - (2 ^ 63)"

definition in_i64 :: "int \<Rightarrow> bool" where
  "in_i64 x \<longleftrightarrow> min_int64 \<le> x \<and> x \<le> max_int64"

lemma i64_in_range [simp]: "in_i64 x \<Longrightarrow> i64 x = x"
  by (simp add: i64_def in_i64_def min_int64_def max_int64_def)

lemma in_i64_i64: "in_i64 (i64 x)"
proof -
  have "0 \<le> (x + 2 ^ 63) mod 2 ^ 64" and "(x + 2 ^ 63) mod 2 ^ 64 < (2 ^ 64 :: int)"
    by simp_all
  then show ?thesis
    unfolding i64_def in_i64_def min_int64_def max_int64_def by simp
qed

lemma in_i64_between: "in_i64 a \<Longrightarrow> in_i64 b \<Longrightarrow> a \<le> x \<Longrightarrow> x \<le> b \<Longrightarrow> in_i64 x"
  by (simp add: in_i64_def)

section \<open>Three-way comparison\<close>

text \<open>Go's cmp.Compare on an ordered type.\<close>

definition cmp :: "'a::linorder \<Rightarrow> 'a \<Rightarrow> int" where
  "cmp a b = (if a < b then -1 else if b < a then 1 else 0)"

lemma cmp_simps [simp]:
  "cmp a b < 0 \<longleftrightarrow> a < b" "0 < cmp a b \<longleftrightarrow> b < a" "cmp a b = 0 \<longleftrightarrow> a = b"
  "cmp a a = 0" "cmp a b \<le> 0 \<longleftrightarrow> a \<le> b" "0 \<le> cmp a b \<longleftrightarrow> b \<le> a"
  by (auto simp: cmp_def)

lemma cmp_neg: "cmp b a = - cmp a b"
  by (auto simp: cmp_def)

text \<open>
  The documentation of slices.SortFunc: \<^emph>\<open>SortFunc requires that cmp is a strict weak
  ordering\<close>. \<open>swo_on A c\<close> is that requirement on the elements of \<open>A\<close>.
\<close>

definition swo_on :: "'a set \<Rightarrow> ('a \<Rightarrow> 'a \<Rightarrow> int) \<Rightarrow> bool" where
  "swo_on A c \<longleftrightarrow>
     (\<forall>x\<in>A. \<not> c x x < 0) \<and>
     (\<forall>x\<in>A. \<forall>y\<in>A. \<forall>z\<in>A. c x y < 0 \<longrightarrow> c y z < 0 \<longrightarrow> c x z < 0) \<and>
     (\<forall>x\<in>A. \<forall>y\<in>A. \<forall>z\<in>A. \<not> c x y < 0 \<longrightarrow> \<not> c y z < 0 \<longrightarrow> \<not> c x z < 0)"

text \<open>Sorted with respect to \<open>c\<close>: no element is smaller than one before it.\<close>

definition sorted_cmp :: "('a \<Rightarrow> 'a \<Rightarrow> int) \<Rightarrow> 'a list \<Rightarrow> bool" where
  "sorted_cmp c xs = sorted_wrt (\<lambda>x y. \<not> c y x < 0) xs"

text \<open>A comparison that is a three-way comparison of a key is a strict weak ordering.\<close>

lemma swo_on_key: "(\<And>x y. x \<in> A \<Longrightarrow> y \<in> A \<Longrightarrow> c x y < 0 \<longleftrightarrow> key x < (key y :: 'k::linorder)) \<Longrightarrow> swo_on A c"
  unfolding swo_on_def by (intro conjI ballI impI) (auto simp: not_less)

lemma swo_on_subset: "swo_on A c \<Longrightarrow> B \<subseteq> A \<Longrightarrow> swo_on B c"
  unfolding swo_on_def by blast

text \<open>
  slices.SortFunc reorders its slice in place, is not stable, and promises nothing about
  the order when \<open>cmp\<close> is not a strict weak ordering. A definition that sorts takes the
  sorting routine as an argument; the locale is its contract.
\<close>

locale sort_contract =
  fixes sortf :: "('a \<Rightarrow> 'a \<Rightarrow> int) \<Rightarrow> 'a list \<Rightarrow> 'a list"
  assumes sortf_mset: "mset (sortf c xs) = mset xs"
    and sortf_sorted: "swo_on (set xs) c \<Longrightarrow> sorted_cmp c (sortf c xs)"
begin

lemma sortf_set [simp]: "set (sortf c xs) = set xs"
  by (metis sortf_mset set_mset_mset)

lemma sortf_length [simp]: "length (sortf c xs) = length xs"
  by (metis sortf_mset size_mset)

lemma sortf_distinct [simp]: "distinct (sortf c xs) = distinct xs"
  by (metis sortf_mset mset_eq_imp_distinct_iff)

lemma sortf_Nil_iff [simp]: "sortf c xs = [] \<longleftrightarrow> xs = []"
  by (metis sortf_length length_0_conv)

end

text \<open>
  Go's SortFunc is an insertion sort on slices of at most twelve elements. It meets the
  contract, and the witnesses of the development run it.
\<close>

fun insert_cmp :: "('a \<Rightarrow> 'a \<Rightarrow> int) \<Rightarrow> 'a \<Rightarrow> 'a list \<Rightarrow> 'a list" where
  "insert_cmp c x [] = [x]"
| "insert_cmp c x (y # ys) = (if c x y < 0 then x # y # ys else y # insert_cmp c x ys)"

definition insertion_sort :: "('a \<Rightarrow> 'a \<Rightarrow> int) \<Rightarrow> 'a list \<Rightarrow> 'a list" where
  "insertion_sort c xs = fold (insert_cmp c) xs []"

lemma mset_insert_cmp [simp]: "mset (insert_cmp c x ys) = add_mset x (mset ys)"
  by (induction ys) auto

lemma set_insert_cmp [simp]: "set (insert_cmp c x ys) = insert x (set ys)"
  by (induction ys) auto

lemma sorted_insert_cmp:
  assumes "swo_on (insert x (set ys)) c" and "sorted_cmp c ys"
  shows "sorted_cmp c (insert_cmp c x ys)"
  using assms
proof (induction ys)
  case Nil
  then show ?case by (simp add: sorted_cmp_def)
next
  case (Cons y ys)
  have IH: "sorted_cmp c (insert_cmp c x ys)"
    using Cons.IH Cons.prems swo_on_subset [OF Cons.prems(1), of "insert x (set ys)"]
    by (auto simp: sorted_cmp_def)
  show ?case
  proof (cases "c x y < 0")
    case True
    have "\<not> c z x < 0" if "z \<in> set ys" for z
    proof -
      have "\<not> c z y < 0" using Cons.prems(2) that by (simp add: sorted_cmp_def)
      moreover have "\<not> c y x < 0" using Cons.prems(1) True unfolding swo_on_def by (metis insertCI list.set_intros(1))
      ultimately show ?thesis using Cons.prems(1) that unfolding swo_on_def
        by (metis insertCI list.set_intros)
    qed
    moreover have "\<not> c y x < 0"
      using Cons.prems(1) True unfolding swo_on_def by (metis insertCI list.set_intros(1))
    ultimately show ?thesis using Cons.prems(2) True by (simp add: sorted_cmp_def)
  next
    case False
    then show ?thesis using IH Cons.prems(2) by (auto simp: sorted_cmp_def)
  qed
qed

lemma fold_insert_cmp:
  "swo_on (set xs \<union> set acc) c \<Longrightarrow> sorted_cmp c acc \<Longrightarrow>
   sorted_cmp c (fold (insert_cmp c) xs acc)"
proof (induction xs arbitrary: acc)
  case Nil
  then show ?case by simp
next
  case (Cons x xs)
  have "sorted_cmp c (insert_cmp c x acc)"
    using Cons.prems by (intro sorted_insert_cmp) (auto intro: swo_on_subset)
  moreover have "swo_on (set xs \<union> set (insert_cmp c x acc)) c"
    using Cons.prems(1) by simp
  ultimately show ?case using Cons.IH by simp
qed

lemma mset_fold_insert_cmp: "mset (fold (insert_cmp c) xs acc) = mset xs + mset acc"
  by (induction xs arbitrary: acc) auto

interpretation ins_sort: sort_contract insertion_sort
  by unfold_locales
    (auto simp: insertion_sort_def mset_fold_insert_cmp sorted_cmp_def
          intro!: fold_insert_cmp [unfolded sorted_cmp_def])

section \<open>Generic list lemmas\<close>

text \<open>Two sorted arrangements of the same elements under an antisymmetric order agree.\<close>

lemma sorted_wrt_mset_unique:
  assumes anti: "\<And>x y. x \<in> set xs \<Longrightarrow> y \<in> set xs \<Longrightarrow> P x y \<Longrightarrow> P y x \<Longrightarrow> x = y"
    and "sorted_wrt P xs" and "sorted_wrt P ys" and "mset xs = mset ys"
  shows "xs = ys"
  using assms
proof (induction xs arbitrary: ys)
  case Nil
  then show ?case by simp
next
  case (Cons x xs)
  from Cons.prems(4) have set_eq: "set (x # xs) = set ys" by (metis set_mset_mset)
  obtain y zs where ys: "ys = y # zs"
    using Cons.prems(4) by (cases ys) auto
  have "x = y"
  proof (rule ccontr)
    assume ne: "x \<noteq> y"
    have "x \<in> set zs" and "y \<in> set xs"
      using set_eq ne ys by auto
    then have "P x y" and "P y x" using Cons.prems(2,3) ys by simp_all
    then show False using Cons.prems(1) [of x y] ne \<open>y \<in> set xs\<close> by simp
  qed
  moreover have "xs = zs"
    using Cons.prems ys \<open>x = y\<close> by (intro Cons.IH) auto
  ultimately show ?case using ys by simp
qed

lemma map_of_zip_index: "distinct ks \<Longrightarrow> i < length ks \<Longrightarrow> length ks = length vs \<Longrightarrow>
    map_of (zip ks vs) (ks ! i) = Some (vs ! i)"
  by (simp add: map_of_zip_nth)

lemma dropWhile_idem [simp]: "dropWhile P (dropWhile P xs) = dropWhile P xs"
  by (induction xs) auto

lemma length_dropWhile_less [termination_simp]: "length (dropWhile P xs) < Suc (length xs)"
  by (simp add: length_dropWhile_le le_imp_less_Suc)

lemma set_takeWhile_imp: "x \<in> set (takeWhile P xs) \<Longrightarrow> P x"
  by (meson set_takeWhileD)

end
