(* ===== verification/GoText.thy ===== *)
theory GoText
  imports Prelude
begin

text \<open>
  The parts of Go's standard library for text that the program uses, on byte strings:
  UTF-8 decoding as the range loop and utf8.DecodeRune do it (an invalid byte is the rune
  U+FFFD of width one), encoding, the functions of package strings, and the Unicode
  predicates of package unicode. The tables of the Unicode character database above
  U+00FF, and the NFKD normalisation of golang.org/x/text, are the fields of the record
  \<open>ucd\<close>: a parameter of every definition that uses them.
\<close>

section \<open>UTF-8\<close>

abbreviation byte :: "char \<Rightarrow> nat" where
  "byte c \<equiv> of_char c"

definition rune_error :: rune where
  "rune_error = 0xFFFD"

definition valid_rune :: "rune \<Rightarrow> bool" where
  "valid_rune r \<longleftrightarrow> r < 0xD800 \<or> 0xDFFF < r \<and> r \<le> 0x10FFFF"

definition in_range :: "nat \<Rightarrow> nat \<Rightarrow> char \<Rightarrow> bool" where
  "in_range lo hi c \<longleftrightarrow> lo \<le> byte c \<and> byte c \<le> hi"

text \<open>
  The rune at the head of a non-empty string, and how many further bytes it takes. The
  accepted ranges of the second byte are those of the table in unicode/utf8.
\<close>

fun decode2 :: "nat \<Rightarrow> string \<Rightarrow> rune \<times> nat" where
  "decode2 b (c1 # s) =
     (if in_range 0x80 0xBF c1 then ((b - 0xC0) * 64 + (byte c1 - 0x80), 1) else (rune_error, 0))"
| "decode2 b [] = (rune_error, 0)"

fun decode3 :: "nat \<Rightarrow> string \<Rightarrow> rune \<times> nat" where
  "decode3 b (c1 # c2 # s) =
     (if in_range (if b = 0xE0 then 0xA0 else 0x80) (if b = 0xED then 0x9F else 0xBF) c1
         \<and> in_range 0x80 0xBF c2
      then ((b - 0xE0) * 4096 + (byte c1 - 0x80) * 64 + (byte c2 - 0x80), 2)
      else (rune_error, 0))"
| "decode3 b s = (rune_error, 0)"

fun decode4 :: "nat \<Rightarrow> string \<Rightarrow> rune \<times> nat" where
  "decode4 b (c1 # c2 # c3 # s) =
     (if in_range (if b = 0xF0 then 0x90 else 0x80) (if b = 0xF4 then 0x8F else 0xBF) c1
         \<and> in_range 0x80 0xBF c2 \<and> in_range 0x80 0xBF c3
      then ((b - 0xF0) * 262144 + (byte c1 - 0x80) * 4096 + (byte c2 - 0x80) * 64
              + (byte c3 - 0x80), 3)
      else (rune_error, 0))"
| "decode4 b s = (rune_error, 0)"

definition decode_rune :: "char \<Rightarrow> string \<Rightarrow> rune \<times> nat" where
  "decode_rune c s =
     (let b = byte c in
      if b < 0x80 then (b, 0)
      else if b < 0xC2 then (rune_error, 0)
      else if b < 0xE0 then decode2 b s
      else if b < 0xF0 then decode3 b s
      else if b < 0xF5 then decode4 b s
      else (rune_error, 0))"

text \<open>The runes of a string, each with the bytes it was decoded from.\<close>

fun chunks :: "string \<Rightarrow> (rune \<times> string) list" where
  "chunks [] = []"
| "chunks (c # s) =
     (let k = snd (decode_rune c s)
      in (fst (decode_rune c s), c # take k s) # chunks (drop k s))"

definition runes :: "string \<Rightarrow> rune list" where
  "runes s = map fst (chunks s)"

text \<open>utf8.AppendRune: an invalid rune is written as U+FFFD.\<close>

definition encode_rune :: "rune \<Rightarrow> string" where
  "encode_rune r =
     (if r < 0x80 then [char_of r]
      else if r < 0x800 then [char_of (0xC0 + r div 64), char_of (0x80 + r mod 64)]
      else if \<not> valid_rune r then [char_of (0xEF::nat), char_of (0xBF::nat), char_of (0xBD::nat)]
      else if r < 0x10000 then
        [char_of (0xE0 + r div 4096), char_of (0x80 + r div 64 mod 64), char_of (0x80 + r mod 64)]
      else
        [char_of (0xF0 + r div 262144), char_of (0x80 + r div 4096 mod 64),
         char_of (0x80 + r div 64 mod 64), char_of (0x80 + r mod 64)])"

text \<open>Go's conversion string(runes).\<close>

definition string_of_runes :: "rune list \<Rightarrow> string" where
  "string_of_runes rs = concat (map encode_rune rs)"

lemma byte_char_of [simp]: "n < 256 \<Longrightarrow> byte (char_of n) = n"
  by simp

lemma concat_chunks: "concat (map snd (chunks s)) = s"
  by (induction s rule: chunks.induct) (auto simp: Let_def)

lemma runes_Nil [simp]: "runes [] = []"
  by (simp add: runes_def)

lemma runes_Cons: "runes (c # s) = fst (decode_rune c s) # runes (drop (snd (decode_rune c s)) s)"
  by (simp add: runes_def Let_def)

lemma runes_ascii_Cons [simp]: "byte c < 0x80 \<Longrightarrow> runes (c # s) = byte c # runes s"
  by (simp add: runes_Cons decode_rune_def)

lemma runes_encode2:
  assumes "0x80 \<le> r" "r < 0x800"
  shows "runes (encode_rune r @ s) = r # runes s"
proof -
  have b: "0xC0 + r div 64 < 256" "0xC2 \<le> 0xC0 + r div 64" "0xC0 + r div 64 < 0xE0"
    "0x80 + r mod 64 < 256" "0x80 + r mod 64 \<le> 0xBF"
    using assms by linarith+
  show ?thesis using assms b
    by (simp add: encode_rune_def runes_Cons decode_rune_def in_range_def)
qed

text \<open>The base-64 digits of a rune, which the continuation bytes carry.\<close>

lemma base64_step: "n div 64 * (64 * k) + n mod 64 * k = n * (k::nat)"
proof -
  have "n div 64 * (64 * k) + n mod 64 * k = (n div 64 * 64 + n mod 64) * k"
    by (simp only: distrib_right mult.assoc)
  then show ?thesis by simp
qed

lemma base64_3: "r div 4096 * 4096 + r div 64 mod 64 * 64 + r mod 64 = (r::nat)"
  using base64_step [of "r div 64" 64] div_mult2_eq [of r 64 64] div_mult_mod_eq [of r 64]
  by simp

lemma base64_4:
  "r div 262144 * 262144 + r div 4096 mod 64 * 4096 + r div 64 mod 64 * 64 + r mod 64 = (r::nat)"
  using base64_step [of "r div 4096" 4096] div_mult2_eq [of r 4096 64] base64_3 [of r]
  by simp

lemma runes_digits3:
  "a < 16 \<Longrightarrow> b < 64 \<Longrightarrow> c < 64 \<Longrightarrow> (a = 0 \<Longrightarrow> 32 \<le> b) \<Longrightarrow> (a = 13 \<Longrightarrow> b < 32) \<Longrightarrow>
   runes ([char_of (0xE0 + a), char_of (0x80 + b), char_of (0x80 + c)] @ s) =
     (a * 4096 + b * 64 + c) # runes s"
  by (auto simp: runes_Cons decode_rune_def in_range_def)

lemma runes_digits4:
  "a < 5 \<Longrightarrow> b < 64 \<Longrightarrow> c < 64 \<Longrightarrow> d < 64 \<Longrightarrow> (a = 0 \<Longrightarrow> 16 \<le> b) \<Longrightarrow> (a = 4 \<Longrightarrow> b < 16) \<Longrightarrow>
   runes ([char_of (0xF0 + a), char_of (0x80 + b), char_of (0x80 + c), char_of (0x80 + d)] @ s) =
     (a * 262144 + b * 4096 + c * 64 + d) # runes s"
  by (auto simp: runes_Cons decode_rune_def in_range_def)

lemma runes_encode3:
  assumes "0x800 \<le> r" "r < 0x10000" "valid_rune r"
  shows "runes (encode_rune r @ s) = r # runes s"
proof -
  let ?a = "r div 4096" and ?b = "r div 64 mod 64" and ?c = "r mod 64"
  have sum: "?a * 4096 + ?b * 64 + ?c = r" by (rule base64_3)
  have b: "?a < 16" "?b < 64" "?c < 64" using assms(2) by linarith+
  have lo: "32 \<le> ?b" if "?a = 0" using that assms(1) sum b by linarith
  have hi: "?b < 32" if "?a = 13"
    using that assms(2,3) sum b unfolding valid_rune_def by (cases "r < 0xD800") linarith+
  have "encode_rune r = [char_of (0xE0 + ?a), char_of (0x80 + ?b), char_of (0x80 + ?c)]"
    using assms by (simp add: encode_rune_def)
  then show ?thesis using runes_digits3 [OF b lo hi, of s] sum by simp
qed

lemma runes_encode4:
  assumes "0x10000 \<le> r" "valid_rune r"
  shows "runes (encode_rune r @ s) = r # runes s"
proof -
  let ?a = "r div 262144" and ?b = "r div 4096 mod 64" and ?c = "r div 64 mod 64" and ?d = "r mod 64"
  have r: "r \<le> 0x10FFFF" using assms by (auto simp: valid_rune_def)
  have sum: "?a * 262144 + ?b * 4096 + ?c * 64 + ?d = r" by (rule base64_4)
  have b: "?a < 5" "?b < 64" "?c < 64" "?d < 64" using r by linarith+
  have lo: "16 \<le> ?b" if "?a = 0" using that assms(1) sum b by linarith
  have hi: "?b < 16" if "?a = 4" using that r sum b by linarith
  have "encode_rune r =
      [char_of (0xF0 + ?a), char_of (0x80 + ?b), char_of (0x80 + ?c), char_of (0x80 + ?d)]"
    using assms by (simp add: encode_rune_def)
  then show ?thesis using runes_digits4 [OF b lo hi, of s] sum by simp
qed

lemma runes_encode_rune: "valid_rune r \<Longrightarrow> runes (encode_rune r @ s) = r # runes s"
  using runes_encode2 [of r s] runes_encode3 [of r s] runes_encode4 [of r s]
  by (cases "r < 0x80"; cases "r < 0x800"; cases "r < 0x10000")
    (auto simp: encode_rune_def runes_Cons decode_rune_def)

text \<open>Encoding then decoding valid runes is the identity.\<close>

lemma runes_string_of_runes:
  "list_all valid_rune rs \<Longrightarrow> runes (string_of_runes rs) = rs"
  by (induction rs) (auto simp: string_of_runes_def runes_encode_rune)

lemma string_of_runes_inj:
  assumes "list_all valid_rune xs" "list_all valid_rune ys"
    and "string_of_runes xs = string_of_runes ys"
  shows "xs = ys"
  using assms by (metis runes_string_of_runes)

section \<open>ASCII text\<close>

definition is_ascii :: "string \<Rightarrow> bool" where
  "is_ascii s \<longleftrightarrow> list_all (\<lambda>c. byte c < 0x80) s"

lemma is_ascii_simps [simp]:
  "is_ascii []" "is_ascii (c # s) \<longleftrightarrow> byte c < 0x80 \<and> is_ascii s"
  "is_ascii (s @ t) \<longleftrightarrow> is_ascii s \<and> is_ascii t"
  by (auto simp: is_ascii_def)

lemma runes_ascii: "is_ascii s \<Longrightarrow> runes s = map byte s"
  by (induction s) auto

lemma string_of_runes_ascii: "is_ascii s \<Longrightarrow> string_of_runes (map byte s) = s"
  by (induction s) (auto simp: string_of_runes_def encode_rune_def)

section \<open>Package unicode\<close>

text \<open>
  The fields are unicode.IsLetter above U+00FF, unicode.ToLower above U+007F, and
  norm.NFKD.String.
\<close>

record ucd =
  letter_tbl :: "rune \<Rightarrow> bool"
  lower_tbl :: "rune \<Rightarrow> rune"
  nfkd :: "string \<Rightarrow> string"

definition is_space :: "rune \<Rightarrow> bool" where
  "is_space r \<longleftrightarrow> 0x09 \<le> r \<and> r \<le> 0x0D \<or> r = 0x20 \<or> r = 0x85 \<or> r = 0xA0 \<or> r = 0x1680
     \<or> 0x2000 \<le> r \<and> r \<le> 0x200A \<or> r = 0x2028 \<or> r = 0x2029 \<or> r = 0x202F \<or> r = 0x205F
     \<or> r = 0x3000"

definition is_letter :: "ucd \<Rightarrow> rune \<Rightarrow> bool" where
  "is_letter U r =
     (if r \<le> 0xFF then
        0x41 \<le> r \<and> r \<le> 0x5A \<or> 0x61 \<le> r \<and> r \<le> 0x7A \<or> r = 0xAA \<or> r = 0xB5 \<or> r = 0xBA
        \<or> 0xC0 \<le> r \<and> r \<le> 0xD6 \<or> 0xD8 \<le> r \<and> r \<le> 0xF6 \<or> 0xF8 \<le> r
      else letter_tbl U r)"

definition lower_rune :: "ucd \<Rightarrow> rune \<Rightarrow> rune" where
  "lower_rune U r =
     (if r < 0x80 then if 0x41 \<le> r \<and> r \<le> 0x5A then r + 32 else r else lower_tbl U r)"

text \<open>strings.ToLower.\<close>

definition to_lower :: "ucd \<Rightarrow> string \<Rightarrow> string" where
  "to_lower U s = string_of_runes (map (lower_rune U) (runes s))"

text \<open>A table with no letter and no case pair above ASCII: for ASCII text it is exact.\<close>

definition ascii_ucd :: ucd where
  "ascii_ucd = \<lparr>letter_tbl = (\<lambda>_. False), lower_tbl = (\<lambda>r. r), nfkd = (\<lambda>s. s)\<rparr>"

lemma lower_rune_ascii: "r < 0x80 \<Longrightarrow> lower_rune U r < 0x80"
  by (auto simp: lower_rune_def)

definition lower_char :: "char \<Rightarrow> char" where
  "lower_char c = (if 0x41 \<le> byte c \<and> byte c \<le> 0x5A then char_of (byte c + 32) else c)"

lemma encode_lower_ascii: "byte c < 0x80 \<Longrightarrow> encode_rune (lower_rune U (byte c)) = [lower_char c]"
  by (auto simp: encode_rune_def lower_rune_def lower_char_def)

lemma to_lower_ascii: "is_ascii s \<Longrightarrow> to_lower U s = map lower_char s"
  by (induction s)
    (auto simp: to_lower_def string_of_runes_def encode_lower_ascii simp del: encode_rune_def)

lemma lower_char_ascii [simp]: "byte c < 0x80 \<Longrightarrow> byte (lower_char c) < 0x80"
  by (auto simp: lower_char_def)

lemma is_ascii_to_lower [simp]: "is_ascii s \<Longrightarrow> is_ascii (to_lower U s)"
  by (simp add: to_lower_ascii) (induction s; simp)

lemma lower_char_idem [simp]: "byte c < 0x80 \<Longrightarrow> lower_char (lower_char c) = lower_char c"
  by (auto simp: lower_char_def)

lemma to_lower_idem_ascii: "is_ascii s \<Longrightarrow> to_lower U (to_lower U s) = to_lower U s"
  by (simp add: to_lower_ascii [of "to_lower U s"]) (simp add: to_lower_ascii is_ascii_def list_all_iff)

text \<open>
  Lower-casing never produces an ASCII byte other than a lower-case letter from a rune
  above ASCII. The Unicode tables have this property (the Kelvin sign is one such rune).
\<close>

definition sane_ucd :: "ucd \<Rightarrow> bool" where
  "sane_ucd U \<longleftrightarrow> (\<forall>r\<ge>0x80. 0x80 \<le> lower_tbl U r \<or> 97 \<le> lower_tbl U r \<and> lower_tbl U r \<le> 122)"

lemma sane_ascii_ucd [simp]: "sane_ucd ascii_ucd"
  by (simp add: sane_ucd_def ascii_ucd_def)

lemma decode_rune_small:
  assumes "fst (decode_rune c s) < 0x80"
  shows "fst (decode_rune c s) = byte c"
proof (rule ccontr)
  assume ne: "\<not> ?thesis"
  then have b: "0xC2 \<le> byte c" using assms
    by (auto simp: decode_rune_def rune_error_def Let_def split: if_splits)
  have "0x80 \<le> fst (decode2 (byte c) s)" using b
    by (cases s) (auto simp: rune_error_def)
  moreover have "0x80 \<le> fst (decode3 (byte c) s)" if "0xE0 \<le> byte c"
    using that by (cases "(byte c, s)" rule: decode3.cases) (auto simp: rune_error_def in_range_def)
  moreover have "0x80 \<le> fst (decode4 (byte c) s)" if "0xF0 \<le> byte c"
    using that by (cases "(byte c, s)" rule: decode4.cases) (auto simp: rune_error_def in_range_def)
  ultimately show False using assms b
    by (auto simp: decode_rune_def rune_error_def Let_def split: if_splits)
qed

lemma runes_small: "r \<in> set (runes s) \<Longrightarrow> r < 0x80 \<Longrightarrow> \<exists>c\<in>set s. byte c = r"
proof (induction s rule: chunks.induct)
  case 1
  then show ?case by simp
next
  case (2 c s)
  show ?case
  proof (cases "r = fst (decode_rune c s)")
    case True
    then show ?thesis using decode_rune_small [of c s] "2.prems"(2) by auto
  next
    case False
    then have "r \<in> set (runes (drop (snd (decode_rune c s)) s))" using "2.prems"(1) by (simp add: runes_Cons)
    then show ?thesis using "2.IH" "2.prems"(2) by (meson in_set_dropD list.set_intros(2))
  qed
qed

lemma encode_rune_small: "c \<in> set (encode_rune r) \<Longrightarrow> byte c < 0x80 \<Longrightarrow> byte c = r"
proof -
  have m: "r div 64 < 64" if "r < 0x800" using that by linarith
  have a: "r div 4096 < 16" if "r < 0x10000" using that by linarith
  have b: "r div 262144 < 5" if "valid_rune r" using that unfolding valid_rune_def by linarith
  assume "c \<in> set (encode_rune r)" "byte c < 0x80"
  then show ?thesis
    using m a b by (auto simp: encode_rune_def split: if_splits)
qed

text \<open>Every ASCII byte of a lower-cased string is the lower case of some rune of it.\<close>

lemma to_lower_small:
  "c \<in> set (to_lower U s) \<Longrightarrow> byte c < 0x80 \<Longrightarrow> \<exists>r\<in>set (runes s). byte c = lower_rune U r"
  by (auto simp: to_lower_def string_of_runes_def dest: encode_rune_small)

lemma to_lower_no_upper:
  assumes "sane_ucd U" "c \<in> set (to_lower U s)"
  shows "\<not> (65 \<le> byte c \<and> byte c \<le> 90)"
proof
  assume u: "65 \<le> byte c \<and> byte c \<le> 90"
  then obtain r where "byte c = lower_rune U r" using to_lower_small [OF assms(2)] by auto
  then show False using u assms(1) by (auto simp: lower_rune_def sane_ucd_def not_less split: if_splits)
qed

text \<open>A byte that is no letter is in the lower-cased string only if it was there.\<close>

lemma to_lower_other:
  assumes "sane_ucd U" "c \<in> set (to_lower U s)" "byte c < 65"
  shows "c \<in> set s"
proof -
  obtain r where r: "r \<in> set (runes s)" "byte c = lower_rune U r"
    using to_lower_small [OF assms(2)] assms(3) by auto
  then have "r = byte c"
    using assms(1,3) by (auto simp: lower_rune_def sane_ucd_def not_less split: if_splits)
  then have "\<exists>d\<in>set s. byte d = byte c" using runes_small r assms(3) by force
  then show ?thesis by (metis char_of_char)
qed

lemma to_lower_ascii_Cons: "byte c < 0x80 \<Longrightarrow> to_lower U (c # s) = lower_char c # to_lower U s"
  by (simp add: to_lower_def string_of_runes_def encode_lower_ascii)

section \<open>Package strings\<close>

definition trim_prefix :: "string \<Rightarrow> string \<Rightarrow> string" where
  "trim_prefix s p = (if prefix p s then drop (length p) s else s)"

definition trim_suffix :: "string \<Rightarrow> string \<Rightarrow> string" where
  "trim_suffix s p = (if suffix p s then take (length s - length p) s else s)"

text \<open>strings.TrimSpace: the white space runes at both ends.\<close>

definition trim_space :: "string \<Rightarrow> string" where
  "trim_space s =
     (let sp = (\<lambda>x. is_space (fst x))
      in concat (map snd (rev (dropWhile sp (rev (dropWhile sp (chunks s)))))))"

text \<open>strings.Split with a one-byte separator.\<close>

fun split_on :: "char \<Rightarrow> string \<Rightarrow> string list" where
  "split_on d [] = [[]]"
| "split_on d (c # s) =
     (if c = d then [] # split_on d s
      else case split_on d s of [] \<Rightarrow> [[c]] | w # ws \<Rightarrow> (c # w) # ws)"

fun join_with :: "string \<Rightarrow> string list \<Rightarrow> string" where
  "join_with d [] = []"
| "join_with d [w] = w"
| "join_with d (w # v # ws) = w @ d @ join_with d (v # ws)"

text \<open>strings.Cut, second component: what follows the first separator.\<close>

fun cut_after :: "char \<Rightarrow> string \<Rightarrow> string" where
  "cut_after d [] = []"
| "cut_after d (c # s) = (if c = d then s else cut_after d s)"

lemma trim_prefix_append [simp]: "trim_prefix (p @ s) p = s"
  by (simp add: trim_prefix_def)

lemma trim_suffix_append [simp]: "trim_suffix (s @ p) p = s"
  by (simp add: trim_suffix_def suffix_def)

lemma split_on_ne [simp]: "split_on d s \<noteq> []"
  by (induction s) (auto split: list.splits)

lemma join_split [simp]: "join_with [d] (split_on d s) = s"
proof (induction s)
  case Nil
  then show ?case by simp
next
  case (Cons c s)
  then show ?case
    by (cases "split_on d s"; cases "tl (split_on d s)") (auto simp: neq_Nil_conv)
qed

lemma split_on_no_sep: "w \<in> set (split_on d s) \<Longrightarrow> d \<notin> set w"
  by (induction s arbitrary: w) (auto split: list.splits if_splits)

lemma split_on_append_sep: "d \<notin> set w \<Longrightarrow> split_on d (w @ d # s) = w # split_on d s"
  by (induction w) auto

lemma split_on_single: "d \<notin> set w \<Longrightarrow> split_on d w = [w]"
  by (induction w) auto

lemma split_join:
  "ws \<noteq> [] \<Longrightarrow> list_all (\<lambda>w. d \<notin> set w) ws \<Longrightarrow> split_on d (join_with [d] ws) = ws"
  by (induction "[d]" ws rule: join_with.induct) (auto simp: split_on_append_sep split_on_single)

end
