(* ===== verification/GoPath.thy ===== *)
theory GoPath
  imports GoText
begin

text \<open>
  Packages path and strconv of Go's standard library: Clean, Base, Ext, Dir and Join on
  slash-separated paths, and decimal conversion of 64-bit integers. The lemmas show that
  Clean is idempotent, that what it returns has only proper components, and that parsing
  a formatted integer gives it back.
\<close>

abbreviation slash :: char where
  "slash \<equiv> CHR ''/''"

section \<open>Package path\<close>

text \<open>
  The component loop of path.Clean, with the output components as a stack (last first):
  empty and dot elements vanish, a dot-dot removes the element before it, and a dot-dot
  at the root of a rooted path vanishes.
\<close>

fun clean_comps :: "bool \<Rightarrow> string list \<Rightarrow> string list \<Rightarrow> string list" where
  "clean_comps rooted st [] = rev st"
| "clean_comps rooted st (w # ws) =
     (if w = [] \<or> w = ''.'' then clean_comps rooted st ws
      else if w = ''..'' then
        (case st of
           [] \<Rightarrow> clean_comps rooted (if rooted then [] else [''..'']) ws
         | t # st' \<Rightarrow> clean_comps rooted (if t = ''..'' then ''..'' # st else st') ws)
      else clean_comps rooted (w # st) ws)"

definition is_rooted :: "string \<Rightarrow> bool" where
  "is_rooted p \<longleftrightarrow> (case p of [] \<Rightarrow> False | c # _ \<Rightarrow> c = slash)"

definition path_clean :: "string \<Rightarrow> string" where
  "path_clean p =
     (let out = (if is_rooted p then ''/'' else []) @
                join_with ''/'' (clean_comps (is_rooted p) [] (split_on slash p))
      in if out = [] then ''.'' else out)"

definition trim_slashes :: "string \<Rightarrow> string" where
  "trim_slashes p = rev (dropWhile (\<lambda>c. c = slash) (rev p))"

definition last_elem :: "string \<Rightarrow> string" where
  "last_elem p = rev (takeWhile (\<lambda>c. c \<noteq> slash) (rev p))"

definition path_base :: "string \<Rightarrow> string" where
  "path_base p =
     (if p = [] then ''.''
      else if last_elem (trim_slashes p) = [] then ''/''
      else last_elem (trim_slashes p))"

definition path_ext :: "string \<Rightarrow> string" where
  "path_ext p =
     (let e = last_elem p
      in if CHR ''.'' \<in> set e then CHR ''.'' # rev (takeWhile (\<lambda>c. c \<noteq> CHR ''.'') (rev e))
         else [])"

definition path_join :: "string list \<Rightarrow> string" where
  "path_join ps =
     (let qs = filter (\<lambda>p. p \<noteq> []) ps
      in if qs = [] then [] else path_clean (join_with ''/'' qs))"

definition path_dir :: "string \<Rightarrow> string" where
  "path_dir p = path_clean (take (length p - length (last_elem p)) p)"

subsection \<open>Clean\<close>

definition proper_elem :: "string \<Rightarrow> bool" where
  "proper_elem w \<longleftrightarrow> w \<noteq> [] \<and> w \<noteq> ''.'' \<and> w \<noteq> ''..'' \<and> slash \<notin> set w"

text \<open>Proper elements, after a block of dot-dots that a rooted path does not have.\<close>

definition normal_comps :: "bool \<Rightarrow> string list \<Rightarrow> bool" where
  "normal_comps rooted cs \<longleftrightarrow>
     (\<exists>n us. cs = replicate n ''..'' @ us \<and> list_all proper_elem us \<and> (rooted \<longrightarrow> n = 0))"

lemma dotdot_not_proper [simp]: "\<not> proper_elem ''..''"
  by (simp add: proper_elem_def)

lemma normal_comps_Nil [simp]: "normal_comps rooted []"
  by (auto simp: normal_comps_def intro: exI [of _ 0])

lemma normal_comps_snoc:
  assumes "normal_comps rooted cs" "proper_elem w"
  shows "normal_comps rooted (cs @ [w])"
proof -
  obtain n us where "cs = replicate n ''..'' @ us" "list_all proper_elem us" "rooted \<longrightarrow> n = 0"
    using assms(1) unfolding normal_comps_def by blast
  then show ?thesis unfolding normal_comps_def
    by (intro exI [of _ n] exI [of _ "us @ [w]"]) (simp add: assms(2))
qed

lemma normal_comps_snocE:
  assumes "normal_comps rooted (cs @ [w])"
  obtains (dots) n where "\<not> rooted" "cs = replicate n ''..''" "w = ''..''"
    | (proper) "normal_comps rooted cs" "proper_elem w"
proof -
  obtain n us where eq: "cs @ [w] = replicate n ''..'' @ us" and us: "list_all proper_elem us"
    and r: "rooted \<longrightarrow> n = 0"
    using assms unfolding normal_comps_def by blast
  show thesis
  proof (cases us rule: rev_cases)
    case Nil
    then obtain m where m: "n = Suc m" using eq by (cases n) auto
    have "cs @ [w] = replicate m ''..'' @ [''..'']" using eq Nil m by (simp add: replicate_append_same)
    then show thesis using dots [of m] r m by simp
  next
    case (snoc vs v)
    then have "cs = replicate n ''..'' @ vs" "w = v" using eq by auto
    then show thesis using proper us snoc r unfolding normal_comps_def by auto
  qed
qed

lemma normal_comps_dots: "normal_comps False (replicate n ''..'')"
  unfolding normal_comps_def by (intro exI [of _ n] exI [of _ "[]"]) simp

lemma normal_comps_elem: "normal_comps rooted cs \<Longrightarrow> w \<in> set cs \<Longrightarrow> w = ''..'' \<or> proper_elem w"
  by (auto simp: normal_comps_def list_all_iff)

lemma clean_comps_normal:
  "normal_comps rooted (rev st) \<Longrightarrow> list_all (\<lambda>w. slash \<notin> set w) ws \<Longrightarrow>
   normal_comps rooted (clean_comps rooted st ws)"
proof (induction ws arbitrary: st)
  case Nil
  then show ?case by simp
next
  case (Cons w ws)
  have ws: "list_all (\<lambda>w. slash \<notin> set w) ws" using Cons.prems(2) by simp
  consider "w = [] \<or> w = ''.''" | (dd) "w = ''..''" | (pr) "proper_elem w" "w \<noteq> ''..''"
    using Cons.prems(2) by (auto simp: proper_elem_def)
  then show ?case
  proof cases
    case 1
    then show ?thesis using Cons.IH [OF Cons.prems(1) ws] by auto
  next
    case dd
    show ?thesis
    proof (cases st)
      case Nil
      then show ?thesis using dd Cons.IH [OF _ ws, of "[]"] Cons.IH [OF _ ws, of "[''..'']"]
          normal_comps_dots [of 1] by (cases rooted) simp_all
    next
      case (Cons t st')
      then have "normal_comps rooted (rev st' @ [t])" using Cons.prems(1) by simp
      then have "normal_comps rooted (rev (if t = ''..'' then ''..'' # st else st'))"
      proof (cases rule: normal_comps_snocE)
        case (dots n)
        then have "rev (''..'' # st) = replicate (Suc (Suc n)) ''..''"
          using Cons by (simp add: replicate_append_same)
        then show ?thesis using dots normal_comps_dots [of "Suc (Suc n)"] by simp
      next
        case proper
        then show ?thesis using dotdot_not_proper by metis
      qed
      then show ?thesis
        using Cons.IH [OF _ ws, of "if t = ''..'' then ''..'' # st else st'"] dd \<open>st = t # st'\<close>
        by (simp split: if_splits)
    qed
  next
    case pr
    have "normal_comps rooted (rev (w # st))"
      using normal_comps_snoc [OF Cons.prems(1) pr(1)] by simp
    then show ?thesis using pr Cons.IH [OF _ ws, of "w # st"] by (simp add: proper_elem_def)
  qed
qed

lemma clean_comps_proper:
  "list_all proper_elem ws \<Longrightarrow> clean_comps rooted st ws = rev st @ ws"
  by (induction ws arbitrary: st) (auto simp: proper_elem_def)

lemma clean_comps_dots:
  "clean_comps False (replicate m ''..'') (replicate n ''..'' @ ws) =
   clean_comps False (replicate (m + n) ''..'') ws"
proof (induction n arbitrary: m)
  case 0
  then show ?case by simp
next
  case (Suc n)
  show ?case using Suc.IH [of "Suc m"] by (cases m) simp_all
qed

lemma clean_comps_id:
  assumes "normal_comps rooted ws"
  shows "clean_comps rooted [] ws = ws"
proof -
  obtain n us where ws: "ws = replicate n ''..'' @ us" "list_all proper_elem us" "rooted \<longrightarrow> n = 0"
    using assms unfolding normal_comps_def by blast
  show ?thesis
  proof (cases rooted)
    case True
    then show ?thesis using ws clean_comps_proper [of us rooted "[]"] by simp
  next
    case False
    then show ?thesis
      using ws clean_comps_dots [of 0 n us] clean_comps_proper [of us False "replicate n ''..''"]
      by simp
  qed
qed

lemma normal_comps_no_slash: "normal_comps rooted cs \<Longrightarrow> list_all (\<lambda>w. slash \<notin> set w) cs"
  by (auto simp: list_all_iff proper_elem_def dest!: normal_comps_elem)

lemma normal_comps_ne: "normal_comps rooted cs \<Longrightarrow> [] \<notin> set cs"
  by (auto simp: proper_elem_def dest: normal_comps_elem)

lemma join_with_eq_Nil: "[] \<notin> set ws \<Longrightarrow> join_with d ws = [] \<longleftrightarrow> ws = []"
  by (induction d ws rule: join_with.induct) auto

lemma is_rooted_join:
  assumes "[] \<notin> set ws" and "list_all (\<lambda>w. slash \<notin> set w) ws"
  shows "\<not> is_rooted (join_with d ws)"
proof (cases ws)
  case Nil
  then show ?thesis by (simp add: is_rooted_def)
next
  case (Cons w vs)
  then obtain c u where w: "w = c # u" "c \<noteq> slash" using assms by (cases w) auto
  then show ?thesis using Cons by (cases vs) (simp_all add: is_rooted_def)
qed

text \<open>The components of a cleaned path.\<close>

definition path_comps :: "string \<Rightarrow> string list" where
  "path_comps p = clean_comps (is_rooted p) [] (split_on slash p)"

lemma path_comps_normal: "normal_comps (is_rooted p) (path_comps p)"
  unfolding path_comps_def
  by (rule clean_comps_normal) (auto simp: list_all_iff dest: split_on_no_sep)

lemma path_clean_comps:
  "path_clean p =
     (if is_rooted p then slash # join_with ''/'' (path_comps p)
      else if path_comps p = [] then ''.'' else join_with ''/'' (path_comps p))"
  using normal_comps_ne [OF path_comps_normal, of p]
  by (auto simp: path_clean_def path_comps_def [symmetric] Let_def join_with_eq_Nil)

lemma path_comps_build:
  assumes n: "normal_comps r cs"
  shows "path_comps ((if r then ''/'' else []) @ join_with ''/'' cs) = cs" (is "path_comps ?p = cs")
proof (cases "cs = []")
  case True
  then show ?thesis by (cases r) (simp_all add: path_comps_def is_rooted_def)
next
  case False
  have ns: "split_on slash (join_with ''/'' cs) = cs"
    using False normal_comps_no_slash [OF n] by (rule split_join)
  have rt: "is_rooted ?p = r"
    using is_rooted_join [OF normal_comps_ne [OF n] normal_comps_no_slash [OF n], of "''/''"]
    by (cases r) (simp_all add: is_rooted_def)
  have "clean_comps r [] (split_on slash ?p) = cs"
    using ns clean_comps_id [OF n] by (cases r) simp_all
  then show ?thesis using rt by (simp add: path_comps_def)
qed

lemma is_rooted_path_clean: "is_rooted (path_clean p) = is_rooted p"
proof (cases "is_rooted p")
  case True
  then show ?thesis by (simp add: path_clean_comps) (simp add: is_rooted_def)
next
  case False
  have "\<not> is_rooted (join_with ''/'' (path_comps p))"
    by (rule is_rooted_join) (use path_comps_normal [of p] in
        \<open>auto simp: normal_comps_ne normal_comps_no_slash\<close>)
  moreover have "\<not> is_rooted ''.''" by (simp add: is_rooted_def)
  ultimately show ?thesis using False by (simp add: path_clean_comps)
qed

lemma path_comps_path_clean: "path_comps (path_clean p) = path_comps p"
proof -
  have "path_comps ''.'' = []" by (simp add: path_comps_def is_rooted_def)
  moreover have "path_comps ((if is_rooted p then ''/'' else []) @ join_with ''/'' (path_comps p)) = path_comps p"
    by (rule path_comps_build) (rule path_comps_normal)
  ultimately show ?thesis by (cases "is_rooted p") (auto simp: path_clean_comps)
qed

lemma path_clean_idem: "path_clean (path_clean p) = path_clean p"
  by (simp add: path_clean_comps [of "path_clean p"] is_rooted_path_clean path_comps_path_clean)
    (simp add: path_clean_comps)

lemma path_clean_ne [simp]: "path_clean p \<noteq> []"
  by (simp add: path_clean_def Let_def)

lemma path_clean_rooted: "is_rooted p \<Longrightarrow> path_clean p = slash # join_with ''/'' (path_comps p)"
  by (simp add: path_clean_comps)

subsection \<open>Base and Ext\<close>

lemma last_elem_no_slash: "slash \<notin> set (last_elem p)"
  by (auto simp: last_elem_def dest: set_takeWhileD)

lemma suffix_last_elem: "suffix (last_elem p) p"
  unfolding last_elem_def suffix_to_prefix by (simp add: takeWhile_is_prefix)

lemma last_elem_append_slash: "slash \<notin> set w \<Longrightarrow> last_elem (p @ slash # w) = w"
  by (simp add: last_elem_def takeWhile_append)

lemma last_elem_id: "slash \<notin> set w \<Longrightarrow> last_elem w = w"
proof -
  assume "slash \<notin> set w"
  then have "takeWhile (\<lambda>c. c \<noteq> slash) (rev w) = rev w" by (auto simp: takeWhile_eq_all_conv)
  then show ?thesis by (simp only: last_elem_def rev_rev_ident)
qed

lemma path_ext_append:
  assumes "slash \<notin> set e" "CHR ''.'' \<notin> set e"
  shows "path_ext (p @ CHR ''.'' # e) = CHR ''.'' # e"
proof -
  have "last_elem (p @ CHR ''.'' # e) = last_elem p @ CHR ''.'' # e"
    using assms by (simp add: last_elem_def takeWhile_append)
  then show ?thesis using assms by (simp add: path_ext_def takeWhile_append)
qed

lemma path_ext_shape:
  assumes "path_ext p \<noteq> []"
  obtains q e where "p = q @ CHR ''.'' # e" "path_ext p = CHR ''.'' # e"
    "slash \<notin> set e" "CHR ''.'' \<notin> set e"
proof -
  let ?e = "last_elem p" and ?t = "rev (takeWhile (\<lambda>c. c \<noteq> CHR ''.'') (rev (last_elem p)))"
  have dot: "CHR ''.'' \<in> set ?e" and ext: "path_ext p = CHR ''.'' # ?t"
    using assms by (auto simp: path_ext_def Let_def split: if_splits)
  obtain q where q: "p = q @ ?e" using suffix_last_elem [of p] by (auto simp: suffix_def)
  have "dropWhile (\<lambda>c. c \<noteq> CHR ''.'') (rev ?e) \<noteq> []" using dot by (auto simp: dropWhile_eq_Nil_conv)
  then obtain z zs where z: "dropWhile (\<lambda>c. c \<noteq> CHR ''.'') (rev ?e) = z # zs" by (cases "dropWhile (\<lambda>c. c \<noteq> CHR ''.'') (rev ?e)") auto
  then have "z = CHR ''.''" using hd_dropWhile [of "\<lambda>c. c \<noteq> CHR ''.''" "rev ?e"] by auto
  then have "rev ?e = takeWhile (\<lambda>c. c \<noteq> CHR ''.'') (rev ?e) @ CHR ''.'' # zs"
    using z takeWhile_dropWhile_id [of "\<lambda>c. c \<noteq> CHR ''.''" "rev ?e"] by simp
  then have e: "?e = rev zs @ CHR ''.'' # ?t"
    by (metis rev_append rev.simps(2) rev_rev_ident append_assoc append_Cons append_Nil)
  have "slash \<notin> set ?t" using last_elem_no_slash [of p] by (metis Un_iff e list.set_intros(2) set_append)
  moreover have "CHR ''.'' \<notin> set ?t" by (auto dest: set_takeWhileD)
  ultimately show ?thesis using that [of "q @ rev zs" ?t] q e ext by simp
qed

section \<open>Package strconv\<close>

datatype num_error = ErrSyntax | ErrRange

definition digit_char :: "nat \<Rightarrow> char" where
  "digit_char n = char_of (48 + n)"

definition is_digit :: "char \<Rightarrow> bool" where
  "is_digit c \<longleftrightarrow> 48 \<le> byte c \<and> byte c \<le> 57"

fun format_nat :: "nat \<Rightarrow> string" where
  "format_nat n =
     (if n < 10 then [digit_char n] else format_nat (n div 10) @ [digit_char (n mod 10)])"

declare format_nat.simps [simp del]

text \<open>strconv.FormatInt with base 10, and strconv.Itoa.\<close>

definition format_int :: "int \<Rightarrow> string" where
  "format_int i = (if i < 0 then CHR ''-'' # format_nat (nat (- i)) else format_nat (nat i))"

definition digits_value :: "string \<Rightarrow> nat" where
  "digits_value s = foldl (\<lambda>a c. a * 10 + (byte c - 48)) 0 s"

definition split_sign :: "string \<Rightarrow> bool \<times> string" where
  "split_sign s =
     (case s of [] \<Rightarrow> (False, [])
      | c # t \<Rightarrow> if c = CHR ''+'' then (False, t) else if c = CHR ''-'' then (True, t) else (False, s))"

text \<open>
  strconv.ParseInt(s, 10, 64) and strconv.Atoi: the error, if any, and the value that is
  returned beside it (0 on a syntax error, the nearest bound on a range error).
\<close>

definition parse_int_result :: "string \<Rightarrow> num_error option \<times> int" where
  "parse_int_result s =
     (let (neg, ds) = split_sign s; v = int (digits_value ds) in
      if ds = [] \<or> \<not> list_all is_digit ds then (Some ErrSyntax, 0)
      else if \<not> neg \<and> max_int64 < v then (Some ErrRange, max_int64)
      else if neg \<and> - min_int64 < v then (Some ErrRange, min_int64)
      else (None, if neg then - v else v))"

definition parse_int :: "string \<Rightarrow> num_error + int" where
  "parse_int s = (case parse_int_result s of (Some e, _) \<Rightarrow> Inl e | (None, v) \<Rightarrow> Inr v)"

lemma is_digit_digit_char [simp]: "n < 10 \<Longrightarrow> is_digit (digit_char n)"
  by (simp add: is_digit_def digit_char_def)

lemma byte_digit_char [simp]: "n < 10 \<Longrightarrow> byte (digit_char n) = 48 + n"
  by (simp add: digit_char_def)

lemma format_nat_digits: "list_all is_digit (format_nat n)"
proof (induction n rule: format_nat.induct)
  case (1 n)
  then show ?case by (subst format_nat.simps) auto
qed

lemma format_nat_ne [simp]: "format_nat n \<noteq> []"
  by (subst format_nat.simps) simp

lemma digits_value_snoc: "digits_value (s @ [c]) = digits_value s * 10 + (byte c - 48)"
  by (simp add: digits_value_def)

lemma digits_value_format: "digits_value (format_nat n) = n"
proof (induction n rule: format_nat.induct)
  case (1 n)
  show ?case
  proof (cases "n < 10")
    case True
    then show ?thesis by (subst format_nat.simps) (simp add: digits_value_def)
  next
    case False
    then show ?thesis using 1 by (subst format_nat.simps) (simp add: digits_value_snoc)
  qed
qed

lemma split_sign_digits: "list_all is_digit s \<Longrightarrow> split_sign s = (False, s)"
  by (cases s) (auto simp: split_sign_def is_digit_def)

lemma parse_format_int: "in_i64 i \<Longrightarrow> parse_int (format_int i) = Inr i"
proof (cases "i < 0")
  case True
  then show "in_i64 i \<Longrightarrow> ?thesis"
    by (simp add: format_int_def parse_int_def parse_int_result_def split_sign_def
        format_nat_digits digits_value_format in_i64_def)
next
  case False
  then show "in_i64 i \<Longrightarrow> ?thesis"
    by (simp add: format_int_def parse_int_def parse_int_result_def split_sign_digits
        format_nat_digits digits_value_format in_i64_def)
qed

lemma parse_int_range: "parse_int s = Inr i \<Longrightarrow> in_i64 i"
  by (auto simp: parse_int_def parse_int_result_def in_i64_def min_int64_def max_int64_def
      Let_def split: prod.splits if_splits option.splits)

end
