(* ===== verification/GoUrl.thy ===== *)
theory GoUrl
  imports GoPath
begin

text \<open>
  Package net/url as the program uses it: percent-encoding of path segments, paths and
  query components, decoding, JoinPath, and the string form of a URL that has only a path
  and a query. The lemmas show that decoding inverts encoding and that JoinPath appends
  encoded proper segments unchanged.
\<close>

section \<open>Percent-encoding\<close>

datatype enc_mode = EncPath | EncPathSegment | EncQuery

definition is_alnum :: "char \<Rightarrow> bool" where
  "is_alnum c \<longleftrightarrow> 48 \<le> byte c \<and> byte c \<le> 57 \<or> 65 \<le> byte c \<and> byte c \<le> 90 \<or> 97 \<le> byte c \<and> byte c \<le> 122"

definition should_escape :: "enc_mode \<Rightarrow> char \<Rightarrow> bool" where
  "should_escape m c =
     (if is_alnum c \<or> c \<in> set ''-_.~'' then False
      else if c \<in> set ''$&+,/:;=?@'' then
        (case m of
           EncPath \<Rightarrow> c = CHR ''?''
         | EncPathSegment \<Rightarrow> c \<in> set ''/;,?''
         | EncQuery \<Rightarrow> True)
      else True)"

definition hex_digit :: "nat \<Rightarrow> char" where
  "hex_digit n = (if n < 10 then char_of (48 + n) else char_of (55 + n))"

definition hex_value :: "char \<Rightarrow> nat option" where
  "hex_value c =
     (let b = byte c in
      if 48 \<le> b \<and> b \<le> 57 then Some (b - 48)
      else if 97 \<le> b \<and> b \<le> 102 then Some (b - 87)
      else if 65 \<le> b \<and> b \<le> 70 then Some (b - 55)
      else None)"

definition escape_char :: "enc_mode \<Rightarrow> char \<Rightarrow> string" where
  "escape_char m c =
     (if c = CHR '' '' \<and> m = EncQuery then ''+''
      else if should_escape m c then [CHR ''%'', hex_digit (byte c div 16), hex_digit (byte c mod 16)]
      else [c])"

definition url_escape :: "enc_mode \<Rightarrow> string \<Rightarrow> string" where
  "url_escape m s = concat (map (escape_char m) s)"

text \<open>Decoding fails on a percent sign that two hexadecimal digits do not follow.\<close>

fun url_unescape :: "enc_mode \<Rightarrow> string \<Rightarrow> string option" where
  "url_unescape m [] = Some []"
| "url_unescape m (c # s) =
     (if c = CHR ''%'' then
        (case s of
           h # l # t \<Rightarrow>
             (case (hex_value h, hex_value l) of
                (Some a, Some b) \<Rightarrow> map_option ((#) (char_of (a * 16 + b))) (url_unescape m t)
              | _ \<Rightarrow> None)
         | _ \<Rightarrow> None)
      else map_option ((#) (if c = CHR ''+'' \<and> m = EncQuery then CHR '' '' else c))
             (url_unescape m s))"

lemma hex_value_digit [simp]: "n < 16 \<Longrightarrow> hex_value (hex_digit n) = Some n"
  by (auto simp: hex_value_def hex_digit_def)

lemma unescape_escape_char:
  "url_unescape m (escape_char m c @ s) = map_option ((#) c) (url_unescape m s)"
proof -
  have "byte c div 16 < 16" "byte c mod 16 < 16" by (simp_all add: less_mult_imp_div_less)
  then show ?thesis
    by (auto simp: escape_char_def should_escape_def is_alnum_def split: enc_mode.splits)
qed

lemma unescape_escape_append:
  "url_unescape m (url_escape m s @ t) = map_option ((@) s) (url_unescape m t)"
proof (induction s)
  case Nil
  then show ?case by (simp add: url_escape_def option.map_ident)
next
  case (Cons c s)
  then show ?case
    by (simp add: url_escape_def unescape_escape_char option.map_comp comp_def)
qed

lemma unescape_escape [simp]: "url_unescape m (url_escape m s) = Some s"
  using unescape_escape_append [of m s "[]"] by simp

lemma url_escape_inject: "url_escape m v = url_escape m w \<Longrightarrow> v = w"
  by (metis option.inject unescape_escape)

text \<open>A path segment decodes the same way in path mode, where only encoding differs.\<close>

lemma unescape_path_segment: "url_unescape EncPath s = url_unescape EncPathSegment s"
  by (induction EncPath s rule: url_unescape.induct) (auto split: list.splits option.splits)

section \<open>URLs\<close>

record url =
  u_path :: string
  u_raw_path :: string
  u_raw_query :: string

definition set_path :: "url \<Rightarrow> string \<Rightarrow> url option" where
  "set_path u p =
     (case url_unescape EncPath p of
        None \<Rightarrow> None
      | Some d \<Rightarrow> Some (u\<lparr>u_path := d, u_raw_path := (if url_escape EncPath d = p then [] else p)\<rparr>))"

definition valid_encoded_char :: "char \<Rightarrow> bool" where
  "valid_encoded_char c \<longleftrightarrow> c \<in> set ''!$&()*+,;=:@[]%'' \<or> c = CHR 0x27 \<or> \<not> should_escape EncPath c"

definition escaped_path :: "url \<Rightarrow> string" where
  "escaped_path u =
     (if u_raw_path u \<noteq> [] \<and> list_all valid_encoded_char (u_raw_path u)
         \<and> url_unescape EncPath (u_raw_path u) = Some (u_path u)
      then u_raw_path u
      else if u_path u = ''*'' then ''*''
      else url_escape EncPath (u_path u))"

text \<open>
  JoinPath drops the error of setPath: when the joined path does not decode, the result
  is the receiver unchanged.
\<close>

definition join_path :: "url \<Rightarrow> string list \<Rightarrow> url" where
  "join_path u elems =
     (let base = escaped_path u;
          p0 = (if is_rooted base then path_join (base # elems)
                else tl (path_join ((slash # base) # elems)));
          lst = last (base # elems);
          p = (if suffix ''/'' lst \<and> \<not> suffix ''/'' p0 then p0 @ ''/'' else p0)
      in case set_path u p of Some v \<Rightarrow> v | None \<Rightarrow> u)"

definition url_string :: "url \<Rightarrow> string" where
  "url_string u = escaped_path u @ (if u_raw_query u = [] then [] else CHR ''?'' # u_raw_query u)"

text \<open>url.Parse of an absolute path with no query: what the code calls mustParseURL on.\<close>

definition parse_path_url :: "string \<Rightarrow> url" where
  "parse_path_url p = \<lparr>u_path = p, u_raw_path = [], u_raw_query = []\<rparr>"

subsection \<open>Joining encoded segments\<close>

definition rooted_join :: "string list \<Rightarrow> string" where
  "rooted_join ws = concat (map (\<lambda>w. slash # w) ws)"

lemma rooted_join_simps [simp]:
  "rooted_join [] = []" "rooted_join (w # ws) = slash # w @ rooted_join ws"
  "rooted_join (ws @ vs) = rooted_join ws @ rooted_join vs"
  by (simp_all add: rooted_join_def)

lemma rooted_join_join: "ws \<noteq> [] \<Longrightarrow> rooted_join ws = slash # join_with ''/'' ws"
  by (induction "''/''" ws rule: join_with.induct) auto

lemma path_clean_rooted_join:
  assumes "ws \<noteq> []" "list_all proper_elem ws"
  shows "path_clean (rooted_join ws) = rooted_join ws"
proof -
  have n: "normal_comps True ws"
    unfolding normal_comps_def using assms(2) by (intro exI [of _ 0] exI [of _ ws]) simp
  have "path_comps (slash # join_with ''/'' ws) = ws"
    using path_comps_build [OF n] by simp
  then show ?thesis
    using assms(1) by (simp add: rooted_join_join path_clean_comps) (simp add: is_rooted_def)
qed

lemma split_on_rooted_join:
  "list_all (\<lambda>w. slash \<notin> set w) ws \<Longrightarrow> split_on slash (rooted_join ws) = [] # ws"
proof (cases "ws = []")
  case True
  then show ?thesis by simp
next
  case False
  assume "list_all (\<lambda>w. slash \<notin> set w) ws"
  then show ?thesis using split_join [OF False] False by (simp add: rooted_join_join)
qed

lemma path_clean_join_rooted:
  assumes "bs \<noteq> []" "list_all proper_elem (bs @ ws)"
  shows "path_join [rooted_join bs, rooted_join ws] = rooted_join (bs @ ws)"
proof -
  have bne: "rooted_join bs \<noteq> []" using assms(1) by (cases bs) auto
  show ?thesis
  proof (cases "ws = []")
    case True
    then show ?thesis using assms bne by (simp add: path_join_def path_clean_rooted_join)
  next
    case False
    let ?p = "rooted_join bs @ slash # rooted_join ws"
    have r: "is_rooted ?p" using assms(1) by (cases bs) (auto simp: is_rooted_def)
    obtain b bs' where bs: "bs = b # bs'" using assms(1) by (cases bs) auto
    have ns: "list_all (\<lambda>w. slash \<notin> set w) (bs @ ws)"
      using assms(2) by (auto simp: list_all_iff proper_elem_def)
    have "?p = rooted_join (bs @ [] # ws)" by simp
    then have "split_on slash ?p = [] # bs @ [] # ws"
      using ns split_on_rooted_join [of "bs @ [] # ws"] by simp
    moreover have "clean_comps True [] (bs @ [] # ws) = bs @ ws"
    proof -
      have "clean_comps True st (xs @ [] # ws) = clean_comps True st (xs @ ws)"
        if "list_all proper_elem xs" for st xs
        using that by (induction xs arbitrary: st) (auto simp: proper_elem_def)
      then show ?thesis using assms(2) clean_comps_proper [of "bs @ ws" True "[]"] by simp
    qed
    ultimately have "path_comps ?p = bs @ ws" using r by (simp add: path_comps_def)
    then have "path_clean ?p = rooted_join (bs @ ws)"
      using r assms(1) rooted_join_join [of "bs @ ws"] by (simp add: path_clean_comps)
    moreover have "rooted_join ws \<noteq> []" using False by (cases ws) auto
    ultimately show ?thesis using bne by (simp add: path_join_def)
  qed
qed

lemma escape_segment_chars:
  "c \<in> set (url_escape EncPathSegment w) \<Longrightarrow> valid_encoded_char c \<and> c \<noteq> slash \<and> c \<noteq> CHR ''?''"
proof -
  assume "c \<in> set (url_escape EncPathSegment w)"
  then obtain d where d: "c \<in> set (escape_char EncPathSegment d)" by (auto simp: url_escape_def)
  have h: "is_alnum (hex_digit n)" if "n < 16" for n
    using that by (auto simp: is_alnum_def hex_digit_def)
  have q: "should_escape EncPathSegment slash" "should_escape EncPathSegment (CHR ''?'')"
    "\<not> is_alnum slash" "\<not> is_alnum (CHR ''?'')"
    by (simp_all add: should_escape_def is_alnum_def)
  have n: "byte d div 16 < 16" "byte d mod 16 < 16" by (simp_all add: less_mult_imp_div_less)
  show ?thesis
  proof (cases "should_escape EncPathSegment d")
    case True
    then have "c = CHR ''%'' \<or> is_alnum c" using d h n by (auto simp: escape_char_def)
    then show ?thesis using q by (auto simp: valid_encoded_char_def should_escape_def)
  next
    case False
    then have "c = d" "\<not> should_escape EncPathSegment c" using d by (auto simp: escape_char_def)
    then have "\<not> should_escape EncPath c" by (auto simp: should_escape_def split: if_splits)
    then show ?thesis using q \<open>\<not> should_escape EncPathSegment c\<close>
      by (auto simp: valid_encoded_char_def)
  qed
qed

lemma proper_escape_segment:
  assumes "proper_elem w"
  shows "proper_elem (url_escape EncPathSegment w)"
proof -
  let ?e = "url_escape EncPathSegment w"
  have id: "url_escape EncPathSegment [] = []" "url_escape EncPathSegment ''.'' = ''.''"
    "url_escape EncPathSegment ''..'' = ''..''"
    by (simp_all add: url_escape_def escape_char_def should_escape_def)
  have "?e \<noteq> []" "?e \<noteq> ''.''" "?e \<noteq> ''..''"
    using assms id url_escape_inject [of EncPathSegment w] unfolding proper_elem_def by metis+
  then show ?thesis using escape_segment_chars [of slash w] by (auto simp: proper_elem_def)
qed

lemma unescape_rooted_join:
  "url_unescape EncPath (rooted_join (map (url_escape EncPathSegment) ws)) = Some (rooted_join ws)"
  by (induction ws) (simp_all add: unescape_path_segment unescape_escape_append)

text \<open>
  Appending encoded proper segments to a plain base path: the string form is the base
  followed by the segments, and its decoded path is the base followed by the names.
\<close>

lemma join_path_segments:
  assumes b: "bs \<noteq> []" "list_all proper_elem bs" "list_all (list_all is_alnum) bs"
    and w: "ws \<noteq> []" "list_all proper_elem ws"
  defines "u \<equiv> join_path (parse_path_url (rooted_join bs)) [rooted_join (map (url_escape EncPathSegment) ws)]"
  shows "u_path u = rooted_join (bs @ ws)"
    and "escaped_path u = rooted_join (bs @ map (url_escape EncPathSegment) ws)"
    and "u_raw_query u = []"
proof -
  let ?es = "map (url_escape EncPathSegment) ws"
  let ?b = "parse_path_url (rooted_join bs)"
  let ?p = "rooted_join (bs @ ?es)"
  have esc_id: "url_escape EncPathSegment v = v" "url_escape EncPath v = v" if "list_all is_alnum v" for v
    using that by (induction v) (auto simp: url_escape_def escape_char_def should_escape_def)
  have bs_seg: "map (url_escape EncPathSegment) bs = bs"
    using b(3) esc_id by (induction bs) auto
  have base_str: "url_escape EncPath (rooted_join bs) = rooted_join bs"
  proof -
    have "url_escape EncPath (slash # v) = slash # v" if "list_all is_alnum v" for v
      using that esc_id by (simp add: url_escape_def escape_char_def should_escape_def)
    then show ?thesis using b(3) by (induction bs) (auto simp: rooted_join_def url_escape_def)
  qed
  have star: "rooted_join bs \<noteq> ''*''" using b(1) by (cases bs) auto
  have base: "escaped_path ?b = rooted_join bs"
    using base_str star by (simp add: escaped_path_def parse_path_url_def)
  have root: "is_rooted (rooted_join bs)" using b(1) by (cases bs) (auto simp: is_rooted_def)
  have pe: "list_all proper_elem (bs @ ?es)"
    using b(2) w(2) proper_escape_segment by (auto simp: list_all_iff)
  have join: "path_join [rooted_join bs, rooted_join ?es] = ?p"
    by (rule path_clean_join_rooted [OF b(1) pe])
  have nosuf: "\<not> suffix ''/'' (rooted_join ?es)"
  proof -
    obtain vs v where v: "?es = vs @ [v]" using w(1) by (cases ?es rule: rev_cases) auto
    then have "proper_elem v" using pe by simp
    then have "v \<noteq> []" "last v \<noteq> slash" unfolding proper_elem_def by (simp, metis last_in_set)
    then show ?thesis using v by (auto simp: suffix_def) (metis append_butlast_last_id append_is_Nil_conv last_snoc last_appendR list.distinct(1) last_ConsR)
  qed
  have un: "url_unescape EncPath ?p = Some (rooted_join (bs @ ws))"
    using unescape_rooted_join [of "bs @ ws"] bs_seg by simp
  have u: "u = ?b\<lparr>u_path := rooted_join (bs @ ws),
      u_raw_path := (if url_escape EncPath (rooted_join (bs @ ws)) = ?p then [] else ?p)\<rparr>"
    unfolding u_def join_path_def using base root join nosuf un
    by (simp add: set_path_def Let_def)
  show "u_path u = rooted_join (bs @ ws)" using u by simp
  show "u_raw_query u = []" using u by (simp add: parse_path_url_def)
  have valid: "list_all valid_encoded_char ?p"
  proof -
    have alnum_ok: "valid_encoded_char c" if "is_alnum c" for c
      using that by (simp add: valid_encoded_char_def should_escape_def)
    have "valid_encoded_char slash" by (simp add: valid_encoded_char_def should_escape_def)
    then show ?thesis using b(3) alnum_ok escape_segment_chars
      by (auto simp: rooted_join_def list_all_iff)
  qed
  have ne: "?p \<noteq> []" "rooted_join (bs @ ws) \<noteq> ''*''" using b(1) by (cases bs; auto)+
  show "escaped_path u = ?p"
    using u valid un ne by (auto simp: escaped_path_def parse_path_url_def)
qed

end
