(* ===== verification/FileId.thy ===== *)
theory FileId
  imports GoUrl
begin

text \<open>
  rview/file_id.go: the identifier of a file, its constructor (which cleans the path and
  derives the name) and its accessors. Every identifier the program builds comes from
  \<open>new_file_id\<close>, so \<open>wf_file_id\<close> is the invariant the other components rely on.
\<close>

record file_id =
  fid_path :: string
  fid_name :: string
  fid_mod_time :: int
  fid_size :: int

definition new_file_id :: "string \<Rightarrow> int \<Rightarrow> int \<Rightarrow> file_id" where
  "new_file_id filepath modTime sz =
     (let p = path_clean filepath
      in \<lparr>fid_path = p, fid_name = path_base p, fid_mod_time = modTime, fid_size = sz\<rparr>)"

definition get_escaped_path :: "file_id \<Rightarrow> string" where
  "get_escaped_path fid =
     concat (map (\<lambda>part. slash # url_escape EncPathSegment part)
       (filter (\<lambda>part. part \<noteq> []) (split_on slash (fid_path fid))))"

definition get_file_ext :: "ucd \<Rightarrow> string \<Rightarrow> string" where
  "get_file_ext U filepath = to_lower U (path_ext filepath)"

definition get_ext :: "ucd \<Rightarrow> file_id \<Rightarrow> string" where
  "get_ext U fid = get_file_ext U (fid_name fid)"

definition file_id_string :: "file_id \<Rightarrow> string" where
  "file_id_string fid =
     ''t'' @ format_int (fid_mod_time fid) @ ''_s'' @ format_int (fid_size fid) @ ''_'' @ fid_path fid"

definition wf_file_id :: "file_id \<Rightarrow> bool" where
  "wf_file_id fid \<longleftrightarrow> path_clean (fid_path fid) = fid_path fid \<and> fid_name fid = path_base (fid_path fid)"

lemma new_file_id_sel [simp]:
  "fid_path (new_file_id p m s) = path_clean p" "fid_mod_time (new_file_id p m s) = m"
  "fid_size (new_file_id p m s) = s" "fid_name (new_file_id p m s) = path_base (path_clean p)"
  by (simp_all add: new_file_id_def Let_def)

lemma wf_new_file_id [simp, wf_intros]: "wf_file_id (new_file_id p m s)"
  by (simp add: wf_file_id_def path_clean_idem)

lemma wf_file_id_new: "wf_file_id fid \<Longrightarrow> new_file_id (fid_path fid) (fid_mod_time fid) (fid_size fid) = fid"
  by (cases fid) (simp add: wf_file_id_def new_file_id_def Let_def)

text \<open>Two well-formed identifiers are equal when path, time and size agree.\<close>

lemma wf_file_id_eq:
  "wf_file_id a \<Longrightarrow> wf_file_id b \<Longrightarrow>
   a = b \<longleftrightarrow> fid_path a = fid_path b \<and> fid_mod_time a = fid_mod_time b \<and> fid_size a = fid_size b"
  by (metis wf_file_id_new)

lemma rooted_clean_comps:
  assumes "is_rooted p" "path_clean p = p"
  shows "p = (if path_comps p = [] then ''/'' else rooted_join (path_comps p))"
    and "list_all proper_elem (path_comps p)"
proof -
  have n: "normal_comps True (path_comps p)" using path_comps_normal [of p] assms(1) by simp
  then show "list_all proper_elem (path_comps p)"
    unfolding normal_comps_def by (metis append_Nil replicate_0)
  have "p = slash # join_with ''/'' (path_comps p)"
    using path_clean_rooted [OF assms(1)] assms(2) by simp
  then show "p = (if path_comps p = [] then ''/'' else rooted_join (path_comps p))"
    using rooted_join_join [of "path_comps p"] by auto
qed

text \<open>For a rooted identifier the escaped path is its components, each encoded.\<close>

lemma get_escaped_path_rooted:
  assumes "wf_file_id fid" "is_rooted (fid_path fid)"
  shows "get_escaped_path fid =
    rooted_join (map (url_escape EncPathSegment) (path_comps (fid_path fid)))"
proof -
  let ?p = "fid_path fid" and ?ws = "path_comps (fid_path fid)"
  have c: "path_clean ?p = ?p" using assms(1) by (simp add: wf_file_id_def)
  note sh = rooted_clean_comps [OF assms(2) c]
  have ns: "list_all (\<lambda>w. slash \<notin> set w) ?ws" using sh(2) by (auto simp: list_all_iff proper_elem_def)
  have "filter (\<lambda>part. part \<noteq> []) (split_on slash ?p) = ?ws"
  proof (cases "?ws = []")
    case True
    then have "?p = ''/''" using sh(1) by simp
    then show ?thesis using True by (simp only: split_on.simps) simp
  next
    case False
    then have "split_on slash ?p = [] # ?ws"
      using sh(1) split_on_rooted_join [OF ns] by simp
    moreover have "filter (\<lambda>part. part \<noteq> []) ?ws = ?ws"
      using sh(2) by (intro filter_True) (auto simp: list_all_iff proper_elem_def)
    ultimately show ?thesis by simp
  qed
  then show ?thesis by (simp add: get_escaped_path_def rooted_join_def comp_def)
qed

end
