(* ===== verification/FileTypes.thy ===== *)
theory FileTypes
  imports FileId
begin

text \<open>
  rview/file_types.go: the table from file extensions to file types, and GetFileType. The
  table has the source's keys in the source's order; a key missing from a Go map reads as
  the zero value, FileTypeUnknown.
\<close>

datatype file_type = FTUnknown | FTImage | FTRawImage | FTAudio | FTVideo | FTText

text \<open>The string constants behind the type.\<close>

fun file_type_string :: "file_type \<Rightarrow> string" where
  "file_type_string FTUnknown = []"
| "file_type_string FTImage = ''image''"
| "file_type_string FTRawImage = ''raw_image''"
| "file_type_string FTAudio = ''audio''"
| "file_type_string FTVideo = ''video''"
| "file_type_string FTText = ''text''"

definition media_exts :: "(string \<times> file_type) list" where
  "media_exts =
    [(''.bmp'', FTImage), (''.gif'', FTImage), (''.ico'', FTImage), (''.jpg'', FTImage),
     (''.png'', FTImage), (''.jpeg'', FTImage), (''.webp'', FTImage), (''.heic'', FTImage),
     (''.avif'', FTImage), (''.arw'', FTRawImage), (''.rw2'', FTRawImage), (''.cr3'', FTRawImage),
     (''.nef'', FTRawImage), (''.flac'', FTAudio), (''.aif'', FTAudio), (''.mpa'', FTAudio),
     (''.wma'', FTAudio), (''.wpl'', FTAudio), (''.ogg'', FTAudio), (''.wav'', FTAudio),
     (''.mp3'', FTAudio), (''.avi'', FTVideo), (''.mkv'', FTVideo), (''.mov'', FTVideo),
     (''.mpg'', FTVideo), (''.mpeg'', FTVideo), (''.mp4'', FTVideo), (''.webm'', FTVideo)]"

definition text_exts_1 :: "string list" where
  "text_exts_1 =
    [''.cfg'', ''.m'', ''.pic'', ''.pb'', ''.mm'', ''.asn'', ''.d'', ''.self'', ''.marko'',
     ''.lean'', ''.nl'', ''.conllu'', ''.reb'', ''.robot'', ''.xpm'', ''.properties'', ''.pas'',
     ''.brs'', ''.owl'', ''.q'', ''.cshtml'', ''.e'', ''.befunge'', ''.raml'', ''.opa'', ''.ex'',
     ''.ur'', ''.mq4'', ''.mq5'', ''.agda'', ''.thrift'', ''.xm'', ''.srt'', ''.jinja'', ''.sass'',
     ''.pbt'', ''.edn'', ''.sublime-build'', ''.blade'', ''.pp'', ''.cr'', ''.bison'', ''.druby'',
     ''.gn'', ''.ebuild'', ''.j'', ''.bdf'', ''.ftl'', ''.f90'', ''.swift'', ''.phtml'',
     ''.ipynb'', ''.tpl'', ''.cp'', ''.cob'', ''.go'', ''.ring'', ''.php'', ''.csd'', ''.bsl'',
     ''.i3'', ''.http'', ''.ms'', ''.raw'', ''.mak'', ''.bb'', ''.ml'', ''.textile'', ''.m4'',
     ''.sed'', ''.v'', ''.do'', ''.gitignore'', ''.red'', ''.ahk'', ''.yar'', ''.d-objdump'',
     ''.xpl'', ''.xsp-config'', ''.volt'', ''.as'', ''.lsl'', ''.jade'', ''.rs'', ''.minid'',
     ''.t'', ''.coffee'', ''.html'', ''.awk'', ''.dot'', ''.org'', ''.idr'', ''.pcss'', ''.pgsql'',
     ''.agc'', ''.mod'', ''.c'', ''.myt'', ''.hlsl'', ''.p4'', ''.thy'', ''.eex'', ''.scaml'',
     ''.clw'', ''.sh-session'', ''.pod'', ''.graphql'', ''.lhs'', ''.erb'', ''.au3'', ''.gs'',
     ''.moo'', ''.hcl'', ''.chs'', ''.jsp'']"

definition text_exts_2 :: "string list" where
  "text_exts_2 =
    [''.sp'', ''.cmake'', ''.clj'', ''.shen'', ''.wdl'', ''.hxml'', ''.yml'', ''.tcl'', ''.nf'',
     ''.ini'', ''.xtend'', ''.pytb'', ''.epj'', ''.glsl'', ''.uc'', ''.eb'', ''.jq'', ''.vhdl'',
     ''.pyx'', ''.sv'', ''.objdump'', ''.smt2'', ''.regexp'', ''.gitconfig'', ''.json5'',
     ''.yasnippet'', ''.anim'', ''.b'', ''.rexx'', ''.lfe'', ''.oxygene'', ''.asm'', ''.flex'',
     ''.cs'', ''.pde'', ''.fx'', ''.webidl'', ''.json'', ''.asc'', ''.matlab'', ''.ls'', ''.stan'',
     ''.mtml'', ''.pl'', ''.jsx'', ''.proto'', ''.ch'', ''.xml'', ''.svg'', ''.mathematica'',
     ''.lol'', ''.ooc'', ''.xslt'', ''.rmd'', ''.afm'', ''.mask'', ''.sch'', ''.em'', ''.lvproj'',
     ''.n'', ''.cu'', ''.krl'', ''.vim'', ''.pony'', ''.sci'', ''.1'', ''.rpy'', ''.sparql'',
     ''.applescript'', ''.txt'', ''.sage'', ''.ck'', ''.g4'', ''.fs'', ''.fy'', ''.fst'', ''.pir'',
     ''.st'', ''.ice'', ''.monkey'', ''.pogo'', ''.el'', ''.js'', ''.pro'', ''.abap'', ''.pasm'',
     ''.cw'', ''.sl'', ''.l'', ''.spec'', ''.erl'', ''.mms'', ''.dae'', ''.scm'', ''.nut'',
     ''.py'', ''.nanorc'', ''.latte'', ''.ne'', ''.iss'', ''.ebnf'', ''.ipf'', ''.chpl'', ''.coq'',
     ''.dylan'', ''.lagda'', ''.gradle'', ''.clp'', ''.axs.erb'', ''.eclass'', ''.xbm'', ''.als'',
     ''.groovy'', ''.w'', ''.ol'']"

definition text_exts_3 :: "string list" where
  "text_exts_3 =
    [''.pls'', ''.purs'', ''.jl'', ''.bf'', ''.hs'', ''.ncl'', ''.vb'', ''.io'', ''.rg'',
     ''.haml'', ''.djs'', ''.ps1'', ''.ts'', ''.dart'', ''.edc'', ''.vcl'', ''.zig'', ''.ceylon'',
     ''.fr'', ''.g'', ''.aj'', ''.sh'', ''.orc'', ''.tcsh'', ''.prg'', ''.elm'', ''.jison'',
     ''.x'', ''.desktop'', ''.sc'', ''.nginxconf'', ''.re'', ''.yang'', ''.com'', ''.sas'',
     ''.ninja'', ''.grace'', ''.cl'', ''.creole'', ''.kt'', ''.opal'', ''.8xp'', ''.ML'', ''.cfc'',
     ''.bat'', ''.oz'', ''.ox'', ''.gsp'', ''.roff'', ''.rl'', ''.handlebars'', ''.less'',
     ''.zone'', ''.pd'', ''.ecr'', ''.kicad_pcb'', ''.ld'', ''.f'', ''.apl'', ''.hh'', ''.toc'',
     ''.numpy'', ''.sqf'', ''.glf'', ''.fea'', ''.cy'', ''.java'', ''.scala'', ''.scad'',
     ''.apacheconf'', ''.asy'', ''.mediawiki'', ''.vue'', ''.gd'', ''.gbr'', ''.capnp'',
     ''.factor'', ''.reg'', ''.darcspatch'', ''.fth'', ''.hy'', ''.ec'', ''.scss'', ''.cls'',
     ''.rb'', ''.ly'', ''.zimpl'', ''.kid'', ''.golo'', ''.cson'', ''.sql'', ''.metal'', ''.gml'',
     ''.md'', ''.ni'', ''.lgt'', ''.mo'', ''.boo'', ''.csv'', ''.eq'', ''.mtl'', ''.css'',
     ''.uno'', ''.ttl'', ''.c-objdump'', ''.rdoc'', ''.abnf'', ''.ampl'', ''.cfm'', ''.cirru'',
     ''.rst'', ''.hb'', ''.y'', ''.xojo_code'', ''.bmx'']"

definition text_exts_4 :: "string list" where
  "text_exts_4 =
    [''.pig'', ''.tl'', ''.lasso'', ''.mako'', ''.gms'', ''.icl'', ''.arc'', ''.wast'', ''.spin'',
     ''.po'', ''.rsc'', ''.x10'', ''.ston'', ''.muf'', ''.dats'', ''.adb'', ''.nc'', ''.rhtml'',
     ''.nu'', ''.flf'', ''.asp'', ''.nsi'', ''.vala'', ''.ecl'', ''.bsv'', ''.axs'', ''.6pl'',
     ''.qml'', ''.eml'', ''.sls'', ''.brd'', ''.fish'', ''.fan'', ''.pike'', ''.s'', ''.xc'',
     ''.ijs'', ''.asciidoc'', ''.for'', ''.tex'', ''.pep'', ''.tla'', ''.r'', ''.lua'', ''.xs'',
     ''.smali'', ''.bal'', ''.upc'', ''.ps'', ''.tea'', ''.feature'', ''.styl'', ''.wisp'',
     ''.gdb'', ''.apib'', ''.diff'', ''.cppobjdump'', ''.twig'', ''.zep'', ''.click'', ''.obj'',
     ''.dm'', ''.ik'', ''.gp'', ''.jsonld'', ''.dwl'', ''.p'', ''.hx'', ''.sfd'', ''.mu'',
     ''.soy'', ''.pan'', ''.lookml'', ''.txl'', ''.liquid'', ''.nim'', ''.dockerfile'',
     ''.maxpat'', ''.lisp'', ''.kit'', ''.nix'', ''.sss'', ''.toml'', ''.xquery'', ''.nit'',
     ''.pov'', ''.ll'', ''.E'', ''.parrot'', ''.gf'', ''.mumps'', ''.psc'', ''.cpp'', ''.rnh'',
     ''.mss'', ''.cwl'', ''.shader'', ''.pkl'', ''.sco'', ''.rbbas'', ''.ejs'', ''.moon'',
     ''.pwn'', ''.jisonlex'', ''.aug'', ''.slim'', ''.irclog'', ''.bro'', ''.omgrofl'', ''.rkt'',
     ''.nlogo'', ''.litcoffee'']"

definition file_types_by_extension :: "(string \<times> file_type) list" where
  "file_types_by_extension =
     media_exts @ map (\<lambda>e. (e, FTText)) (text_exts_1 @ text_exts_2 @ text_exts_3 @ text_exts_4)"

definition get_file_type :: "string \<Rightarrow> file_type" where
  "get_file_type ext =
     (case map_of file_types_by_extension ext of Some t \<Rightarrow> t | None \<Rightarrow> FTUnknown)"

section \<open>Which entries an extension can reach\<close>

text \<open>
  GetExt lower-cases, and path.Ext takes what follows the last dot. So an entry can be
  found only if it is its own lower-cased extension.
\<close>

definition reachable_ext :: "ucd \<Rightarrow> string \<Rightarrow> bool" where
  "reachable_ext U e \<longleftrightarrow> (\<exists>f. get_file_ext U f = e)"

text \<open>Entries that no lower-cased last extension equals.\<close>

definition dead_exts :: "string list" where
  "dead_exts = [CHR ''.'' # ''ML'', ''.E'', ''.axs.erb'']"

definition stable_ext :: "string \<Rightarrow> bool" where
  "stable_ext e \<longleftrightarrow> is_ascii e \<and> map lower_char (path_ext e) = e"

lemma stable_ext_reachable: "stable_ext e \<Longrightarrow> reachable_ext U e"
proof -
  assume s: "stable_ext e"
  have "set (path_ext e) \<subseteq> set e"
    by (cases "path_ext e = []") (auto elim!: path_ext_shape)
  then have "is_ascii (path_ext e)" using s by (auto simp: stable_ext_def is_ascii_def list_all_iff)
  then have "get_file_ext U e = e" using s by (simp add: get_file_ext_def to_lower_ascii stable_ext_def)
  then show ?thesis unfolding reachable_ext_def by blast
qed

text \<open>A syntactic condition that is quick to check on the table.\<close>

definition ext_char :: "char \<Rightarrow> bool" where
  "ext_char c \<longleftrightarrow>
     (let b = byte c in b = 45 \<or> 48 \<le> b \<and> b \<le> 57 \<or> b = 95 \<or> 97 \<le> b \<and> b \<le> 122)"

fun plain_ext :: "string \<Rightarrow> bool" where
  "plain_ext [] = False"
| "plain_ext (c # w) = (c = CHR ''.'' \<and> list_all ext_char w)"

lemma plain_ext_stable: "plain_ext e \<Longrightarrow> stable_ext e"
proof -
  assume "plain_ext e"
  then obtain w where e: "e = CHR ''.'' # w" and w: "list_all ext_char w" by (cases e) auto
  have ns: "slash \<notin> set w" "CHR ''.'' \<notin> set w"
    using w by (auto simp: list_all_iff ext_char_def Let_def)
  have "path_ext e = e" using path_ext_append [OF ns, of "[]"] e by simp
  moreover have "map lower_char e = e"
    using w e by (auto simp: list_all_iff ext_char_def lower_char_def Let_def intro!: map_idI)
  moreover have "is_ascii e" using w e by (auto simp: is_ascii_def list_all_iff ext_char_def Let_def)
  ultimately show ?thesis by (simp add: stable_ext_def)
qed

lemma table_plain:
  "list_all plain_ext (map fst media_exts)"
  "list_all (\<lambda>e. plain_ext e \<or> e \<in> set dead_exts) text_exts_1"
  "list_all (\<lambda>e. plain_ext e \<or> e \<in> set dead_exts) text_exts_2"
  "list_all (\<lambda>e. plain_ext e \<or> e \<in> set dead_exts) text_exts_3"
  "list_all (\<lambda>e. plain_ext e \<or> e \<in> set dead_exts) text_exts_4"
  by (simp add: media_exts_def ext_char_def)
    (simp_all add: text_exts_1_def text_exts_2_def text_exts_3_def text_exts_4_def ext_char_def
      dead_exts_def)

lemma table_keys:
  "e \<in> fst ` set file_types_by_extension \<Longrightarrow> plain_ext e \<or> e \<in> set dead_exts"
  using table_plain
  by (auto simp: file_types_by_extension_def list_all_iff image_Un image_image)

text \<open>A dead entry has an upper-case letter or a second dot.\<close>

lemma dead_ext_unreachable:
  assumes "sane_ucd U" "e \<in> set dead_exts"
  shows "\<not> reachable_ext U e"
proof
  assume "reachable_ext U e"
  then obtain f where f: "to_lower U (path_ext f) = e" by (auto simp: reachable_ext_def get_file_ext_def)
  show False
  proof (cases "e = ''.axs.erb''")
    case True
    then have "path_ext f \<noteq> []" using f by (auto simp: to_lower_def string_of_runes_def)
    then obtain q t where t: "path_ext f = CHR ''.'' # t" "CHR ''.'' \<notin> set t"
      by (auto elim: path_ext_shape)
    then have "to_lower U t = ''axs.erb''"
      using f True by (simp add: to_lower_ascii_Cons lower_char_def)
    then have "CHR ''.'' \<in> set t" using to_lower_other [OF assms(1), of "CHR ''.''" t] by simp
    then show False using t by simp
  next
    case False
    then have "CHR ''M'' \<in> set e \<or> CHR ''E'' \<in> set e" using assms(2) by (auto simp: dead_exts_def)
    then show False
      using to_lower_no_upper [OF assms(1), of "CHR ''M''" "path_ext f"]
        to_lower_no_upper [OF assms(1), of "CHR ''E''" "path_ext f"] f by auto
  qed
qed

lemma dead_exts_keys: "set dead_exts \<subseteq> fst ` set file_types_by_extension"
proof -
  have "set dead_exts \<subseteq> set (text_exts_1 @ text_exts_2 @ text_exts_3 @ text_exts_4)"
    by (simp add: text_exts_1_def text_exts_2_def text_exts_3_def text_exts_4_def dead_exts_def)
  then show ?thesis by (auto simp: file_types_by_extension_def image_Un image_image)
qed

text \<open>
  The table is closed under what GetExt returns: exactly the three dead entries can never
  be looked up.
\<close>

lemma file_type_entries_reachable:
  assumes "sane_ucd U" "e \<in> fst ` set file_types_by_extension"
  shows "reachable_ext U e \<longleftrightarrow> e \<notin> set dead_exts"
  using dead_ext_unreachable [OF assms(1)] table_keys [OF assms(2)]
    stable_ext_reachable [OF plain_ext_stable] by blast

section \<open>The properties\<close>

text \<open>
  An entry of the extension table is found for some file name exactly when it is not one
  of the three dead entries .ML, .E and .axs.erb: GetExt lower-cases the text after the last dot.
\<close>

theorem file_type_entry_reachable_iff:
  assumes "sane_ucd U" "e \<in> fst ` set file_types_by_extension"
  shows "(\<exists>f. get_file_ext U f = e) \<longleftrightarrow> e \<notin> set dead_exts"
  using file_type_entries_reachable [OF assms] by (simp add: reachable_ext_def)

lemma file_type_entry_reachable_iff_witness:
  "(\<exists>f. get_file_ext ascii_ucd f = ''.jpg'') \<longleftrightarrow> ''.jpg'' \<notin> set dead_exts"
  by (rule file_type_entry_reachable_iff)
    (simp_all add: file_types_by_extension_def media_exts_def)

end
