(* ===== verification/Icons.thy ===== *)
theory Icons
  imports FileTypes
begin

text \<open>
  static/static.go: the choice of a file icon. The table from icons to extensions is a Go
  map that init iterates in an unspecified order to build the table from extensions to
  icons; the lemmas show that the order does not matter because no extension belongs to
  two icons, and that every icon that can be chosen is a file of static/icons/material-icons.
\<close>

definition default_file_icon :: string where
  "default_file_icon = ''file''"

definition default_folder_icon :: string where
  "default_folder_icon = ''folder''"

definition file_icons_by_file_type :: "(file_type \<times> string) list" where
  "file_icons_by_file_type =
    [(FTImage, ''image''), (FTRawImage, ''image''), (FTAudio, ''audio''), (FTVideo, ''video''),
     (FTText, ''document'')]"

definition extensions_by_file_icons :: "(string \<times> string list) list" where
  "extensions_by_file_icons =
    [(''console'', [''.sh'', ''.zsh'', ''.bash'', ''.bat'', ''.cmd'']),
     (''disc'', [''.iso'']),
     (''exe'', [''.exe'', ''.msi'']),
     (''json'', [''.json'', ''.jsonc'', ''.json5'']),
     (''pdf'', [''.pdf'']),
     (''powerpoint'', [''.odp'', ''.potm'', ''.potx'', ''.ppa'', ''.ppam'', ''.pps'', ''.ppsm'',
       ''.ppsx'', ''.ppt'', ''.pptm'', ''.pptx'']),
     (''table'', [''.csv'', ''.ods'', ''.psv'', ''.tsv'', ''.xls'', ''.xlsm'', ''.xlsx'']),
     (''word'', [''.doc'', ''.docx'', ''.odt'', ''.rtf'']),
     (''xml'', [''.xml'']),
     (''yaml'', [''.yml'', ''.yaml'']),
     (''zip'', [''.7z'', ''.gz'', ''.gzip'', ''.rar'', ''.tar'', ''.tgz'', ''.tz'', ''.zip''])]"

text \<open>The nested loops of init: a later assignment to the same extension wins.\<close>

definition build_icons :: "(string \<times> string list) list \<Rightarrow> string \<Rightarrow> string option" where
  "build_icons tbl =
     fold (\<lambda>(icon, exts) m. fold (\<lambda>e m. m(e \<mapsto> icon)) exts m) tbl Map.empty"

definition file_icons_by_extension :: "string \<Rightarrow> string option" where
  "file_icons_by_extension = build_icons extensions_by_file_icons"

definition get_file_icon :: "ucd \<Rightarrow> string \<Rightarrow> bool \<Rightarrow> string" where
  "get_file_icon U filename isDir =
     (if isDir then default_folder_icon
      else
        let ext = get_file_ext U filename in
        case file_icons_by_extension ext of
          Some icon \<Rightarrow> icon
        | None \<Rightarrow>
            (case map_of file_icons_by_file_type (get_file_type ext) of
               Some icon \<Rightarrow> icon
             | None \<Rightarrow> default_file_icon))"

section \<open>The iteration order of init does not matter\<close>

lemma fold_exts: "fold (\<lambda>e m. m(e \<mapsto> icon)) exts m x = (if x \<in> set exts then Some icon else m x)"
  by (induction exts arbitrary: m) auto

lemma build_icons_gen:
  "fold (\<lambda>(icon, exts) m. fold (\<lambda>e m. m(e \<mapsto> icon)) exts m) tbl m x =
     (case filter (\<lambda>r. x \<in> set (snd r)) (rev tbl) of [] \<Rightarrow> m x | r # _ \<Rightarrow> Some (fst r))"
proof (induction tbl rule: rev_induct)
  case Nil
  then show ?case by simp
next
  case (snoc r tbl)
  then show ?case by (cases r) (simp add: fold_exts del: fun_upd_apply)
qed

definition icons_disjoint :: "(string \<times> string list) list \<Rightarrow> bool" where
  "icons_disjoint tbl \<longleftrightarrow>
     (\<forall>r\<in>set tbl. \<forall>s\<in>set tbl. \<forall>e\<in>set (snd r). e \<in> set (snd s) \<longrightarrow> fst r = fst s)"

lemma build_icons_iff:
  assumes "icons_disjoint tbl"
  shows "build_icons tbl e = Some icon \<longleftrightarrow> (\<exists>exts. (icon, exts) \<in> set tbl \<and> e \<in> set exts)"
proof -
  let ?f = "filter (\<lambda>r. e \<in> set (snd r)) (rev tbl)"
  have mem: "r \<in> set ?f \<longleftrightarrow> r \<in> set tbl \<and> e \<in> set (snd r)" for r by auto
  show ?thesis
  proof (cases ?f)
    case Nil
    then have "\<not> (r \<in> set tbl \<and> e \<in> set (snd r))" for r using mem [of r] by simp
    then show ?thesis using Nil by (force simp: build_icons_def build_icons_gen)
  next
    case (Cons r rs)
    then have r: "r \<in> set tbl" "e \<in> set (snd r)" using mem [of r] by auto
    have u: "fst s = fst r" if "s \<in> set tbl" "e \<in> set (snd s)" for s
      using assms r that unfolding icons_disjoint_def by blast
    have "build_icons tbl e = Some (fst r)" using Cons by (simp add: build_icons_def build_icons_gen)
    moreover have "(fst r, snd r) \<in> set tbl" using r by simp
    ultimately show ?thesis using u r(2) by (metis fst_conv option.inject snd_conv)
  qed
qed

lemma build_icons_order:
  assumes "icons_disjoint tbl" "set tbl' = set tbl"
  shows "build_icons tbl' = build_icons tbl"
proof
  fix e
  have d: "icons_disjoint tbl'" using assms unfolding icons_disjoint_def by simp
  have "build_icons tbl' e = Some icon \<longleftrightarrow> build_icons tbl e = Some icon" for icon
    using build_icons_iff [OF assms(1)] build_icons_iff [OF d] assms(2) by simp
  then show "build_icons tbl' e = build_icons tbl e"
    by (metis option.exhaust)
qed

lemma extensions_disjoint: "icons_disjoint extensions_by_file_icons"
  by (simp add: icons_disjoint_def extensions_by_file_icons_def)

section \<open>Every chosen icon exists\<close>

text \<open>The names of the files of static/icons/material-icons, without the suffix .svg.\<close>

definition material_icons :: "string list" where
  "material_icons =
    [''audio'', ''console'', ''disc'', ''document'', ''exe'', ''file'', ''folder'', ''image'',
     ''json'', ''pdf'', ''powerpoint'', ''table'', ''video'', ''word'', ''xml'', ''yaml'', ''zip'']"

lemma icon_of_extension: "file_icons_by_extension e = Some icon \<Longrightarrow> icon \<in> set material_icons"
proof -
  assume "file_icons_by_extension e = Some icon"
  then have "icon \<in> fst ` set extensions_by_file_icons"
    using build_icons_iff [OF extensions_disjoint] unfolding file_icons_by_extension_def by force
  then show ?thesis by (auto simp: extensions_by_file_icons_def material_icons_def)
qed

lemma icon_of_type: "map_of file_icons_by_file_type t = Some icon \<Longrightarrow> icon \<in> set material_icons"
  by (cases t) (auto simp: file_icons_by_file_type_def material_icons_def)

lemma get_file_icon_exists: "get_file_icon U filename isDir \<in> set material_icons"
  using icon_of_extension icon_of_type
  by (auto simp: get_file_icon_def Let_def default_file_icon_def default_folder_icon_def
      material_icons_def split: option.splits)

text \<open>Icons by extension have priority over icons by type.\<close>

lemma get_file_icon_priority:
  "file_icons_by_extension (get_file_ext U f) = Some icon \<Longrightarrow> get_file_icon U f False = icon"
  by (simp add: get_file_icon_def)

section \<open>The properties\<close>

text \<open>
  The map of icons does not depend on the order in which init iterates over its table, and
  GetFileIcon always names an icon that exists.
\<close>

theorem file_icons_sound:
  assumes "set tbl = set extensions_by_file_icons"
  shows "build_icons tbl = file_icons_by_extension \<and> get_file_icon U filename isDir \<in> set material_icons"
  using build_icons_order [OF extensions_disjoint assms] get_file_icon_exists
  by (simp add: file_icons_by_extension_def)

lemma file_icons_sound_witness:
  "build_icons (rev extensions_by_file_icons) = file_icons_by_extension
     \<and> get_file_icon ascii_ucd ''a.pdf'' False \<in> set material_icons"
  by (rule file_icons_sound) simp

end
