(* ===== verification/Misc.thy ===== *)
theory Misc
  imports GoPath
begin

text \<open>
  pkg/misc/misc.go: EnsurePrefix, EnsureSuffix and FormatFileSize. FormatFileSize works on
  a float64: the conversion of the int64 rounds to 53 significant bits, the divisions by
  1024 are exact, and \<open>%.2f\<close> rounds the exact value half to even, so integer arithmetic
  gives the same text. Its array of suffixes has six entries; an index beyond it panics.
\<close>

definition ensure_prefix :: "string \<Rightarrow> string \<Rightarrow> string" where
  "ensure_prefix s p = (if prefix p s then s else p @ s)"

definition ensure_suffix :: "string \<Rightarrow> string \<Rightarrow> string" where
  "ensure_suffix s p = (if suffix p s then s else s @ p)"

lemma ensure_prefix_has [simp]: "prefix p (ensure_prefix s p)"
  by (simp add: ensure_prefix_def)

lemma ensure_prefix_idem [simp]: "ensure_prefix (ensure_prefix s p) p = ensure_prefix s p"
  by (simp add: ensure_prefix_def)

lemma ensure_suffix_has [simp]: "suffix p (ensure_suffix s p)"
  by (simp add: ensure_suffix_def suffix_def)

lemma ensure_suffix_idem [simp]: "ensure_suffix (ensure_suffix s p) p = ensure_suffix s p"
  by (simp add: ensure_suffix_def suffix_def)

section \<open>float64\<close>

text \<open>How many low bits do not fit into a \<open>p\<close>-bit significand.\<close>

function excess_bits :: "nat \<Rightarrow> nat \<Rightarrow> nat" where
  "excess_bits p n = (if n < 2 ^ p then 0 else Suc (excess_bits p (n div 2)))"
  by pat_completeness auto
termination
proof (relation "measure snd")
  fix p n :: nat
  assume "\<not> n < 2 ^ p"
  then have "0 < n" by (cases n) auto
  then show "((p, n div 2), (p, n)) \<in> measure snd" by simp
qed simp

declare excess_bits.simps [simp del]

text \<open>The quotient rounded to the nearest integer, ties to even.\<close>

definition round_div :: "nat \<Rightarrow> nat \<Rightarrow> nat" where
  "round_div n d =
     (let q = n div d; r = n mod d
      in if d < 2 * r \<or> d = 2 * r \<and> odd q then q + 1 else q)"

text \<open>The conversion to a float with a \<open>p\<close>-bit significand: 53 for float64, 24 for float32.\<close>

definition float_of_nat :: "nat \<Rightarrow> nat \<Rightarrow> nat" where
  "float_of_nat p n = round_div n (2 ^ excess_bits p n) * 2 ^ excess_bits p n"

abbreviation float64_of_nat :: "nat \<Rightarrow> nat" where
  "float64_of_nat \<equiv> float_of_nat 53"

abbreviation float32_of_nat :: "nat \<Rightarrow> nat" where
  "float32_of_nat \<equiv> float_of_nat 24"

lemma round_div_1 [simp]: "round_div n 1 = n"
  by (simp add: round_div_def)

lemma float_exact [simp]: "n < 2 ^ p \<Longrightarrow> float_of_nat p n = n"
  by (simp add: float_of_nat_def excess_bits.simps [of p n] round_div_def)

lemma round_div_mono:
  assumes "m \<le> n" "0 < d"
  shows "round_div m d \<le> round_div n d"
proof -
  have q: "m div d \<le> n div d" using assms by (simp add: div_le_mono)
  show ?thesis
  proof (cases "m div d = n div d")
    case True
    then have "m mod d \<le> n mod d"
      using assms div_mult_mod_eq [of m d] div_mult_mod_eq [of n d] by (metis nat_add_left_cancel_le)
    then show ?thesis using True by (auto simp: round_div_def Let_def)
  next
    case False
    then have "m div d + 1 \<le> n div d" using q by simp
    then show ?thesis by (simp add: round_div_def Let_def)
  qed
qed

lemma round_div_multiple: "0 < d \<Longrightarrow> round_div (k * d) d = k"
  by (simp add: round_div_def)

section \<open>FormatFileSize\<close>

definition size_suffixes :: "string list" where
  "size_suffixes = [''B'', ''KiB'', ''MiB'', ''GiB'', ''TiB'', ''PiB'']"

text \<open>
  The loop \<open>for size/1024 > 1\<close>: \<open>n\<close> is the size as a float, \<open>k\<close> the number of divisions so
  far, so the current value is \<open>n / 1024 ^ k\<close>.
\<close>

function suffix_index :: "nat \<Rightarrow> nat \<Rightarrow> nat" where
  "suffix_index n k = (if 1024 ^ Suc k < n then suffix_index n (Suc k) else k)"
  by pat_completeness auto
termination
  by (relation "measure (\<lambda>(n, k). n - 1024 ^ k)") (auto intro: diff_less_mono2)

declare suffix_index.simps [simp del]

definition two_digits :: "nat \<Rightarrow> string" where
  "two_digits n = [digit_char (n div 10 mod 10), digit_char (n mod 10)]"

text \<open>The text of \<open>%.2f\<close> for \<open>n / d\<close>.\<close>

definition format_2f :: "nat \<Rightarrow> nat \<Rightarrow> string" where
  "format_2f n d =
     (let h = round_div (100 * n) d in format_nat (h div 100) @ ''.'' @ two_digits (h mod 100))"

text \<open>The loop that removes trailing zeros, and the point before them.\<close>

definition trim_zeros :: "string \<Rightarrow> string" where
  "trim_zeros s =
     (case dropWhile (\<lambda>c. c = CHR ''0'') (rev s) of
        [] \<Rightarrow> s
      | c # t \<Rightarrow> if c = CHR ''.'' then rev t else rev (c # t))"

definition format_file_size :: "int \<Rightarrow> panic + string" where
  "format_file_size bytes =
     (let n = float64_of_nat (nat \<bar>bytes\<bar>);
          k = (if bytes < 0 then 0 else suffix_index n 0);
          txt = (if bytes < 0 then ''-'' else []) @ format_2f n (1024 ^ k)
      in if k < length size_suffixes then Inr (trim_zeros txt @ '' '' @ size_suffixes ! k)
         else Inl IndexOutOfRange)"

lemma suffix_index_ge: "k \<le> suffix_index n k"
proof (induction n k rule: suffix_index.induct)
  case (1 n k)
  then show ?case by (subst suffix_index.simps) auto
qed

text \<open>The loop stops at the first unit in which the value is at most 1024.\<close>

lemma suffix_index_spec:
  "n \<le> 1024 ^ Suc (suffix_index n k) \<and> (k < suffix_index n k \<longrightarrow> 1024 ^ suffix_index n k < n)"
proof (induction n k rule: suffix_index.induct)
  case (1 n k)
  show ?case
  proof (cases "1024 ^ Suc k < n")
    case True
    have e: "suffix_index n k = suffix_index n (Suc k)" using True by (simp add: suffix_index.simps [of n k])
    show ?thesis
    proof (cases "suffix_index n (Suc k) = Suc k")
      case True
      then show ?thesis using 1 e \<open>1024 ^ Suc k < n\<close> by simp
    next
      case False
      then have "Suc k < suffix_index n (Suc k)" using suffix_index_ge [of "Suc k" n] by simp
      then show ?thesis using 1 e \<open>1024 ^ Suc k < n\<close> by simp
    qed
  next
    case False
    then show ?thesis by (simp add: suffix_index.simps [of n k])
  qed
qed

lemma suffix_index_less_iff: "suffix_index n 0 < m \<longleftrightarrow> n \<le> 1024 ^ m" if "0 < m"
proof
  assume "suffix_index n 0 < m"
  then have "(1024::nat) ^ Suc (suffix_index n 0) \<le> 1024 ^ m" by (intro power_increasing) auto
  then show "n \<le> 1024 ^ m" using suffix_index_spec [of n 0] by (auto intro: order_trans)
next
  assume n: "n \<le> 1024 ^ m"
  show "suffix_index n 0 < m"
  proof (rule ccontr)
    assume "\<not> ?thesis"
    then have "m \<le> suffix_index n 0" by simp
    then have "(1024::nat) ^ m \<le> 1024 ^ suffix_index n 0" by (intro power_increasing) auto
    moreover have "1024 ^ suffix_index n 0 < n"
      using suffix_index_spec [of n 0] \<open>m \<le> suffix_index n 0\<close> that by simp
    ultimately show False using n by linarith
  qed
qed

lemma format_file_size_panics_iff:
  "0 \<le> bytes \<Longrightarrow>
   format_file_size bytes = Inl IndexOutOfRange \<longleftrightarrow> 2 ^ 60 < float64_of_nat (nat bytes)"
proof -
  assume "0 \<le> bytes"
  moreover have "(1024::nat) ^ 6 = 2 ^ 60" by simp
  ultimately show ?thesis
    using suffix_index_less_iff [of 6 "float64_of_nat (nat bytes)"]
    by (auto simp: format_file_size_def size_suffixes_def Let_def not_less)
qed

text \<open>Rounding to float64 keeps the two sides of \<open>2 ^ 60\<close> apart.\<close>

lemma excess_bits_le: "n < 2 ^ (p + k) \<Longrightarrow> excess_bits p n \<le> k"
proof (induction k arbitrary: n)
  case 0
  then show ?case by (simp add: excess_bits.simps [of p n])
next
  case (Suc k)
  have "(2::nat) ^ (p + Suc k) = 2 * 2 ^ (p + k)" by (simp only: add_Suc_right power_Suc)
  then have "n div 2 < 2 ^ (p + k)" using Suc.prems by linarith
  then have "excess_bits p (n div 2) \<le> k" by (rule Suc.IH)
  then show ?case by (subst excess_bits.simps) simp
qed

lemma float64_le_pow:
  assumes "n \<le> 2 ^ 60"
  shows "float64_of_nat n \<le> 2 ^ 60"
proof -
  have e: "excess_bits 53 n \<le> 8" using assms by (intro excess_bits_le) simp
  let ?d = "(2::nat) ^ excess_bits 53 n"
  have p: "(2::nat) ^ 60 = 2 ^ (60 - excess_bits 53 n) * ?d"
    using e by (simp only: power_add [symmetric]) simp
  have "round_div n ?d \<le> round_div (2 ^ (60 - excess_bits 53 n) * ?d) ?d"
    using assms p by (intro round_div_mono) simp_all
  then have "round_div n ?d \<le> 2 ^ (60 - excess_bits 53 n)" by (simp add: round_div_multiple)
  then show ?thesis unfolding float_of_nat_def p by (rule mult_le_mono1)
qed

section \<open>The properties\<close>

text \<open>
  FormatFileSize panics for a size exactly when the size, rounded to a float64, is above
  1024 PiB: then the loop divides a sixth time and the index leaves the array of six suffixes.
\<close>

theorem format_file_size_panic:
  assumes "0 \<le> bytes"
  shows "(\<exists>p. format_file_size bytes = Inl p) \<longleftrightarrow> 2 ^ 60 < float64_of_nat (nat bytes)"
  using format_file_size_panics_iff [OF assms] by (auto simp: format_file_size_def Let_def split: if_splits)

lemma format_file_size_panic_witness:
  "(\<exists>p. format_file_size (2 ^ 60 + 2 ^ 50) = Inl p) \<longleftrightarrow> 2 ^ 60 < float64_of_nat (nat (2 ^ 60 + 2 ^ 50))"
  by (rule format_file_size_panic) simp

end
