(* ===== verification/NaturalOrder.thy ===== *)
theory NaturalOrder
  imports Misc "HOL-Library.Product_Lexorder"
begin

text \<open>
  The orders of rclone/rclone.go: compareStrings (a natural comparison of names),
  CompareDirEntryByName, compareDirEntryBySize and compareDirEntryByTime on the directory
  entries of that package.

  compareStrings is antisymmetric but not transitive in general; on names whose digit runs
  have no leading zeros and fit an int64 it is the lexicographic order of the token
  sequences, so there the three orders are strict weak orderings, as slices.SortFunc
  requires.
\<close>

section \<open>Natural comparison of strings\<close>

text \<open>extractNumber: the value strconv.Atoi returns (clamped on overflow) and the length.\<close>

definition extract_number :: "string \<Rightarrow> int \<times> nat" where
  "extract_number s =
     (let strN = takeWhile is_digit s in (snd (parse_int_result strN), length strN))"

function cmp_loop :: "string \<Rightarrow> string \<Rightarrow> string \<Rightarrow> string \<Rightarrow> int" where
  "cmp_loop a b (c # x) (d # y) =
     (if is_digit c \<and> is_digit d then
        let (m, xLen) = extract_number (c # x); (n, yLen) = extract_number (d # y);
            v = cmp m n
        in if v \<noteq> 0 then v else cmp_loop a b (drop xLen (c # x)) (drop yLen (d # y))
      else if c \<noteq> d then cmp a b
      else cmp_loop a b x y)"
| "cmp_loop a b [] y = cmp (length a) (length b)"
| "cmp_loop a b (c # x) [] = cmp (length a) (length b)"
  by pat_completeness auto
termination
  by (relation "measure (\<lambda>(a, b, x, y). length x)") (auto simp: extract_number_def)

declare cmp_loop.simps(1) [simp del]

definition compare_strings :: "ucd \<Rightarrow> string \<Rightarrow> string \<Rightarrow> int" where
  "compare_strings U a b = (let a = to_lower U a; b = to_lower U b in cmp_loop a b a b)"

subsection \<open>Antisymmetry\<close>

lemma cmp_loop_neg: "cmp_loop b a y x = - cmp_loop a b x y"
proof (induction a b x y rule: cmp_loop.induct)
  case (1 a b c x d y)
  then show ?case
    using cmp_neg [of "fst (extract_number (c # x))" "fst (extract_number (d # y))"] cmp_neg [of a b]
    by (auto simp: cmp_loop.simps(1) [of a b c x d y] cmp_loop.simps(1) [of b a d y c x] Let_def
        split: prod.splits)
next
  case (2 a b y)
  then show ?case by (cases y) (simp_all add: cmp_neg [of "length a"])
next
  case (3 a b c x)
  then show ?case by (simp add: cmp_neg [of "length a"])
qed

lemma compare_strings_neg: "compare_strings U b a = - compare_strings U a b"
  by (simp add: compare_strings_def Let_def cmp_loop_neg [of "to_lower U b"])

lemma compare_strings_refl [simp]: "compare_strings U a a = 0"
  using compare_strings_neg [of U a a] by simp

subsection \<open>The reference order: token sequences\<close>

text \<open>A name as a sequence of numbers and other bytes, and the order of tokens.\<close>

datatype token = TByte char | TNum nat

fun token_key :: "token \<Rightarrow> nat \<times> nat" where
  "token_key (TByte c) = (if byte c \<le> 57 then 0 else 2, byte c)"
| "token_key (TNum n) = (1, n)"

definition pair_less :: "nat \<times> nat \<Rightarrow> nat \<times> nat \<Rightarrow> bool" where
  "pair_less p q \<longleftrightarrow> fst p < fst q \<or> fst p = fst q \<and> snd p < snd q"

lemma token_key_inj: "token_key s = token_key t \<Longrightarrow> s = t"
  by (cases s; cases t) (auto split: if_splits dest: of_char_eq_iff [THEN iffD1])

instantiation token :: linorder
begin

definition less_token :: "token \<Rightarrow> token \<Rightarrow> bool" where
  "less_token s t \<longleftrightarrow> pair_less (token_key s) (token_key t)"

definition less_eq_token :: "token \<Rightarrow> token \<Rightarrow> bool" where
  "less_eq_token s t \<longleftrightarrow> s < t \<or> (s :: token) = t"

instance
proof
  fix s t u :: token
  show "s < t \<longleftrightarrow> s \<le> t \<and> \<not> t \<le> s"
    by (auto simp: less_eq_token_def less_token_def pair_less_def)
  show "s \<le> s" by (simp add: less_eq_token_def)
  show "s \<le> t \<Longrightarrow> t \<le> u \<Longrightarrow> s \<le> u"
    by (auto simp: less_eq_token_def less_token_def pair_less_def)
  show "s \<le> t \<Longrightarrow> t \<le> s \<Longrightarrow> s = t"
    by (auto simp: less_eq_token_def less_token_def pair_less_def)
  show "s \<le> t \<or> t \<le> s"
    using token_key_inj [of s t] unfolding less_eq_token_def less_token_def pair_less_def
    by (metis linorder_neqE_nat prod_eq_iff)
qed

end

fun tokens :: "string \<Rightarrow> token list" where
  "tokens [] = []"
| "tokens (c # s) =
     (if is_digit c
      then TNum (digits_value (c # takeWhile is_digit s)) # tokens (dropWhile is_digit s)
      else TByte c # tokens s)"

text \<open>Every digit run is the decimal form of a number that fits an int64.\<close>

fun canonical :: "string \<Rightarrow> bool" where
  "canonical [] = True"
| "canonical (c # s) =
     (if is_digit c
      then (c \<noteq> CHR ''0'' \<or> takeWhile is_digit s = []) \<and>
           int (digits_value (c # takeWhile is_digit s)) \<le> max_int64 \<and>
           canonical (dropWhile is_digit s)
      else canonical s)"

lemma cmp_Cons: "cmp (c # xs) (d # ys) = (if c = d then cmp xs ys else cmp c d)"
  by (auto simp: cmp_def)

lemma cmp_append [simp]: "cmp (p @ xs) (p @ ys) = cmp xs ys"
  by (induction p) (simp_all add: cmp_Cons)

lemma cmp_Nil [simp]: "cmp [] (c # xs) = -1" "cmp (c # xs) [] = 1"
  by (simp_all add: cmp_def)

lemma extract_number_digits:
  assumes "is_digit c" "int (digits_value (c # takeWhile is_digit s)) \<le> max_int64"
  shows "extract_number (c # s) =
    (int (digits_value (c # takeWhile is_digit s)), Suc (length (takeWhile is_digit s)))"
proof -
  let ?ds = "c # takeWhile is_digit s"
  have "list_all is_digit ?ds" using assms(1) by (auto simp: list_all_iff dest: set_takeWhileD)
  then show ?thesis using assms
    by (simp add: extract_number_def parse_int_result_def split_sign_digits Let_def)
qed

text \<open>A canonical run is determined by its value.\<close>

lemma digits_value_append: "digits_value (s @ t) = digits_value s * 10 ^ length t + digits_value t"
proof (induction t rule: rev_induct)
  case Nil
  then show ?case by (simp add: digits_value_def)
next
  case (snoc c t)
  then show ?case
    by (simp add: digits_value_snoc flip: append_assoc)
qed

lemma digits_value_bound: "list_all is_digit s \<Longrightarrow> digits_value s < 10 ^ length s"
proof (induction s rule: rev_induct)
  case Nil
  then show ?case by (simp add: digits_value_def)
next
  case (snoc c s)
  then have "digits_value s < 10 ^ length s" "byte c - 48 < 10" by (auto simp: is_digit_def)
  then show ?case by (simp add: digits_value_snoc)
qed

lemma digits_value_lower:
  assumes "is_digit c" "c \<noteq> CHR ''0''"
  shows "10 ^ length s \<le> digits_value (c # s)"
proof -
  have "1 \<le> byte c - 48"
  proof -
    have "byte (CHR ''0'') = 48" by simp
    then have "byte c \<noteq> 48" using assms(2) by (metis of_char_eq_iff)
    then show ?thesis using assms(1) by (auto simp: is_digit_def)
  qed
  then have "10 ^ length s \<le> (byte c - 48) * 10 ^ length s" by simp
  moreover have "digits_value [c] = byte c - 48" by (simp add: digits_value_def)
  ultimately show ?thesis using digits_value_append [of "[c]" s] by (metis append_Cons append_Nil le_add1 order_trans)
qed

lemma last_digit_inj: "m * 10 + x = n * 10 + y \<Longrightarrow> x < 10 \<Longrightarrow> y < 10 \<Longrightarrow> m = n \<and> x = (y::nat)"
  by presburger

lemma digits_value_inj:
  "list_all is_digit s \<Longrightarrow> list_all is_digit t \<Longrightarrow> length s = length t \<Longrightarrow>
   digits_value s = digits_value t \<Longrightarrow> s = t"
proof (induction s arbitrary: t rule: rev_induct)
  case Nil
  then show ?case by simp
next
  case (snoc c s)
  obtain d u where t: "t = u @ [d]" using snoc.prems(3) by (cases t rule: rev_cases) auto
  have "digits_value s * 10 + (byte c - 48) = digits_value u * 10 + (byte d - 48)"
    using snoc.prems(4) t by (simp add: digits_value_snoc)
  moreover have "byte c - 48 < 10" "byte d - 48 < 10" "48 \<le> byte c" "48 \<le> byte d"
    using snoc.prems t by (auto simp: is_digit_def)
  ultimately have "digits_value s = digits_value u" "byte c - 48 = byte d - 48"
    using last_digit_inj [of "digits_value s" "byte c - 48" "digits_value u" "byte d - 48"] by blast+
  then have "c = d"
    using \<open>48 \<le> byte c\<close> \<open>48 \<le> byte d\<close> by (metis char_of_char le_add_diff_inverse)
  then show ?case using snoc t \<open>digits_value s = digits_value u\<close> by simp
qed

lemma canonical_run_inj:
  assumes "list_all is_digit (c # s)" "list_all is_digit (d # t)"
    and "c \<noteq> CHR ''0'' \<or> s = []" "d \<noteq> CHR ''0'' \<or> t = []"
    and v: "digits_value (c # s) = digits_value (d # t)"
  shows "c # s = d # t"
proof -
  have ub: "digits_value (c # s) < 10 ^ Suc (length s)" "digits_value (d # t) < 10 ^ Suc (length t)"
    using digits_value_bound [OF assms(1)] digits_value_bound [OF assms(2)] by simp_all
  have "length s = length t"
  proof (cases "c = CHR ''0'' \<or> d = CHR ''0''")
    case True
    have pos: False if "is_digit a" "a \<noteq> CHR ''0''" "digits_value (a # w) = 0" for a w
      using digits_value_lower [OF that(1,2), of w] that(3) by simp
    have z: "digits_value ''0'' = 0" by (simp add: digits_value_def)
    then show ?thesis using True assms(1-4) v pos [of c s] pos [of d t] by auto
  next
    case False
    then have lb: "10 ^ length s \<le> digits_value (c # s)" "10 ^ length t \<le> digits_value (d # t)"
      using digits_value_lower assms(1,2) by auto
    have "(10::nat) ^ length s < 10 ^ Suc (length t)" "(10::nat) ^ length t < 10 ^ Suc (length s)"
      using lb ub v by linarith+
    then have "length s < Suc (length t)" "length t < Suc (length s)"
      by (meson power_strict_increasing_iff one_less_numeral_iff semiring_norm)+
    then show ?thesis by simp
  qed
  then show ?thesis using digits_value_inj [OF assms(1,2)] v by simp
qed

subsection \<open>The loop computes the reference order\<close>

text \<open>The digit run at the head, and what follows it.\<close>

lemma cmp_loop_digits:
  assumes "is_digit c" "is_digit d"
    and "int (digits_value (c # takeWhile is_digit x)) \<le> max_int64"
    and "int (digits_value (d # takeWhile is_digit y)) \<le> max_int64"
  shows "cmp_loop a b (c # x) (d # y) =
    (let m = digits_value (c # takeWhile is_digit x); n = digits_value (d # takeWhile is_digit y)
     in if m \<noteq> n then cmp m n else cmp_loop a b (dropWhile is_digit x) (dropWhile is_digit y))"
proof -
  have dr: "drop (Suc (length (takeWhile is_digit z))) (e # z) = dropWhile is_digit z" for e z
    by (simp add: dropWhile_eq_drop)
  have ci: "cmp (int m) (int n) = cmp m n" for m n by (simp add: cmp_def)
  show ?thesis
    using assms by (simp add: cmp_loop.simps(1) extract_number_digits dr ci Let_def del: drop.simps drop_Suc_Cons)
qed

lemma cmp_loop_tokens:
  "canonical x \<Longrightarrow> canonical y \<Longrightarrow>
   cmp_loop (p @ x) (p @ y) x y = cmp (tokens x) (tokens y)"
proof (induction "p @ x" "p @ y" x y arbitrary: p rule: cmp_loop.induct)
  case (1 c x d y)
  have dx: "x = takeWhile is_digit x @ dropWhile is_digit x" for x by simp
  consider (num) "is_digit c" "is_digit d" | (ne) "\<not> (is_digit c \<and> is_digit d)" "c \<noteq> d"
    | (eq) "\<not> is_digit c" "c = d" by blast
  then show ?case
  proof cases
    case num
    let ?m = "digits_value (c # takeWhile is_digit x)" and ?n = "digits_value (d # takeWhile is_digit y)"
    have step: "cmp_loop (p @ c # x) (p @ d # y) (c # x) (d # y) =
      (if ?m \<noteq> ?n then cmp ?m ?n
       else cmp_loop (p @ c # x) (p @ d # y) (dropWhile is_digit x) (dropWhile is_digit y))"
      using cmp_loop_digits [OF num] "1.prems" num by (simp add: Let_def)
    show ?thesis
    proof (cases "?m = ?n")
      case True
      have dg: "list_all is_digit (c # takeWhile is_digit x)" "list_all is_digit (d # takeWhile is_digit y)"
        using num by (auto simp: list_all_iff dest: set_takeWhileD)
      have run: "c # takeWhile is_digit x = d # takeWhile is_digit y"
        using canonical_run_inj [OF dg _ _ True] "1.prems" num by (auto split: if_splits)
      let ?p = "p @ c # takeWhile is_digit x"
      have px: "p @ c # x = ?p @ dropWhile is_digit x" "p @ d # y = ?p @ dropWhile is_digit y"
        using run by (metis append.assoc append_Cons takeWhile_dropWhile_id)+
      have "extract_number (c # x) = (int ?m, Suc (length (takeWhile is_digit x)))"
        "extract_number (d # y) = (int ?n, Suc (length (takeWhile is_digit y)))"
        using extract_number_digits num "1.prems" by simp_all
      then have "cmp_loop (p @ c # x) (p @ d # y) (dropWhile is_digit x) (dropWhile is_digit y) =
        cmp (tokens (dropWhile is_digit x)) (tokens (dropWhile is_digit y))"
        using "1.hyps"(1) [of "(int ?m, Suc (length (takeWhile is_digit x)))" "int ?m"
            "Suc (length (takeWhile is_digit x))" "(int ?n, Suc (length (takeWhile is_digit y)))"
            "int ?n" "Suc (length (takeWhile is_digit y))" 0 ?p] num px "1.prems" True
        by (simp add: dropWhile_eq_drop)
      then show ?thesis using step True num run by (simp add: cmp_Cons)
    next
      case False
      then show ?thesis using step num
        by (auto simp: cmp_Cons cmp_def less_token_def pair_less_def)
    qed
  next
    case ne
    have "cmp_loop (p @ c # x) (p @ d # y) (c # x) (d # y) = cmp c d"
      using ne by (auto simp: cmp_loop.simps(1) cmp_Cons)
    moreover have "cmp (tokens (c # x)) (tokens (d # y)) = cmp c d"
      using ne by (auto simp: cmp_Cons cmp_def less_token_def pair_less_def is_digit_def less_char_def)
    ultimately show ?thesis by simp
  next
    case eq
    then show ?thesis using "1.hyps"(2) [of "p @ [c]"] "1.prems"
      by (simp add: cmp_loop.simps(1) cmp_Cons)
  qed
next
  case (2 y)
  then show ?case by (cases y) (auto simp: cmp_def)
next
  case (3 c x)
  then show ?case by (auto simp: cmp_def)
qed

lemma compare_strings_tokens:
  assumes "canonical (to_lower U a)" "canonical (to_lower U b)"
  shows "compare_strings U a b = cmp (tokens (to_lower U a)) (tokens (to_lower U b))"
  using cmp_loop_tokens [OF assms, of "[]"] by (simp add: compare_strings_def Let_def)

subsection \<open>The comparison is not transitive in general\<close>

text \<open>
  On a mismatch after equal numbers the code compares the whole strings, so leading zeros
  of earlier numbers decide; when one string ends, it compares lengths. The three names
  below are each smaller than the next, and the last is smaller than the first.
\<close>

lemma compare_strings_cycle:
  "compare_strings U ''1a'' ''001a'' < 0" "compare_strings U ''001a'' ''01b'' < 0"
  "compare_strings U ''01b'' ''1a'' < 0"
proof -
  have l: "to_lower U ''1a'' = ''1a''" "to_lower U ''001a'' = ''001a''" "to_lower U ''01b'' = ''01b''"
    by (simp_all add: to_lower_ascii lower_char_def)
  note ev = compare_strings_def Let_def cmp_loop.simps(1) extract_number_def is_digit_def
    parse_int_result_def split_sign_def digits_value_def max_int64_def cmp_def less_char_def
  show "compare_strings U ''1a'' ''001a'' < 0" by (simp add: ev l)
  show "compare_strings U ''001a'' ''01b'' < 0" by (simp add: ev l)
  show "compare_strings U ''01b'' ''1a'' < 0" by (simp add: ev l)
qed

section \<open>Directory entries\<close>

text \<open>rclone.DirEntry.\<close>

record dir_entry =
  de_url :: string
  de_leaf :: string
  de_is_dir :: bool
  de_size :: int
  de_mod_time :: int

text \<open>
  CompareDirEntryByName is generic over the two getters; the arguments are the values of
  GetIsDir and GetPath.
\<close>

definition compare_by_name :: "ucd \<Rightarrow> bool \<Rightarrow> string \<Rightarrow> bool \<Rightarrow> string \<Rightarrow> int" where
  "compare_by_name U aDir aPath bDir bPath =
     (if aDir = bDir then
        let aLeaf = (if aDir then trim_suffix aPath ''/'' else aPath);
            bLeaf = (if bDir then trim_suffix bPath ''/'' else bPath)
        in compare_strings U aLeaf bLeaf
      else if aDir then -1
      else 1)"

definition compare_dir_entry_by_name :: "ucd \<Rightarrow> dir_entry \<Rightarrow> dir_entry \<Rightarrow> int" where
  "compare_dir_entry_by_name U a b =
     compare_by_name U (de_is_dir a) (de_leaf a) (de_is_dir b) (de_leaf b)"

definition compare_dir_entry_by_size :: "ucd \<Rightarrow> dir_entry \<Rightarrow> dir_entry \<Rightarrow> int" where
  "compare_dir_entry_by_size U a b =
     (if de_is_dir a \<and> de_is_dir b \<or> de_size a = de_size b then compare_dir_entry_by_name U a b
      else if de_is_dir a then -1
      else if de_is_dir b then 1
      else cmp (de_size a) (de_size b))"

definition compare_dir_entry_by_time :: "ucd \<Rightarrow> dir_entry \<Rightarrow> dir_entry \<Rightarrow> int" where
  "compare_dir_entry_by_time U a b =
     (let v = cmp (de_mod_time a) (de_mod_time b)
      in if v \<noteq> 0 then v else compare_dir_entry_by_name U a b)"

text \<open>The name an entry is ordered by, as tokens, and when it is canonical.\<close>

definition order_name :: "bool \<Rightarrow> string \<Rightarrow> string" where
  "order_name isDir path = (if isDir then trim_suffix path ''/'' else path)"

definition name_tokens :: "ucd \<Rightarrow> bool \<Rightarrow> string \<Rightarrow> token list" where
  "name_tokens U isDir path = tokens (to_lower U (order_name isDir path))"

definition canonical_name :: "ucd \<Rightarrow> bool \<Rightarrow> string \<Rightarrow> bool" where
  "canonical_name U isDir path \<longleftrightarrow> canonical (to_lower U (order_name isDir path))"

abbreviation canonical_entry :: "ucd \<Rightarrow> dir_entry \<Rightarrow> bool" where
  "canonical_entry U e \<equiv> canonical_name U (de_is_dir e) (de_leaf e)"

lemma compare_by_name_neg: "compare_by_name U bd bp ad ap = - compare_by_name U ad ap bd bp"
  by (auto simp: compare_by_name_def Let_def compare_strings_neg [of U _ "trim_suffix bp ''/''"]
      compare_strings_neg [of U ap bp])

text \<open>Directories come first; within a kind the token order decides.\<close>

lemma compare_by_name_less:
  assumes "canonical_name U ad ap" "canonical_name U bd bp"
  shows "compare_by_name U ad ap bd bp < 0 \<longleftrightarrow>
    (\<not> ad, name_tokens U ad ap) < (\<not> bd, name_tokens U bd bp)"
  using assms
  by (auto simp: compare_by_name_def Let_def canonical_name_def name_tokens_def order_name_def
      compare_strings_tokens)

text \<open>The sort keys of the three orders.\<close>

definition name_key :: "ucd \<Rightarrow> dir_entry \<Rightarrow> bool \<times> token list" where
  "name_key U e = (\<not> de_is_dir e, name_tokens U (de_is_dir e) (de_leaf e))"

definition size_key :: "ucd \<Rightarrow> dir_entry \<Rightarrow> bool \<times> int \<times> token list" where
  "size_key U e =
     (\<not> de_is_dir e, if de_is_dir e then 0 else de_size e, name_tokens U (de_is_dir e) (de_leaf e))"

definition time_key :: "ucd \<Rightarrow> dir_entry \<Rightarrow> int \<times> bool \<times> token list" where
  "time_key U e = (de_mod_time e, name_key U e)"

lemma compare_by_name_key:
  "canonical_entry U a \<Longrightarrow> canonical_entry U b \<Longrightarrow>
   compare_dir_entry_by_name U a b < 0 \<longleftrightarrow> name_key U a < name_key U b"
  by (simp add: compare_dir_entry_by_name_def compare_by_name_less name_key_def)

lemma compare_by_size_key:
  "canonical_entry U a \<Longrightarrow> canonical_entry U b \<Longrightarrow>
   compare_dir_entry_by_size U a b < 0 \<longleftrightarrow> size_key U a < size_key U b"
  by (auto simp: compare_dir_entry_by_size_def compare_by_name_key name_key_def size_key_def)

lemma compare_by_time_key:
  "canonical_entry U a \<Longrightarrow> canonical_entry U b \<Longrightarrow>
   compare_dir_entry_by_time U a b < 0 \<longleftrightarrow> time_key U a < time_key U b"
  by (auto simp: compare_dir_entry_by_time_def compare_by_name_key time_key_def)

lemma swo_entries:
  assumes "\<forall>e\<in>A. canonical_entry U e"
  shows swo_by_name: "swo_on A (compare_dir_entry_by_name U)"
    and swo_by_size: "swo_on A (compare_dir_entry_by_size U)"
    and swo_by_time: "swo_on A (compare_dir_entry_by_time U)"
  by (rule swo_on_key [where key = "name_key U"], use assms in \<open>simp add: compare_by_name_key\<close>)
    (rule swo_on_key [where key = "size_key U"], use assms in \<open>simp add: compare_by_size_key\<close>,
     rule swo_on_key [where key = "time_key U"], use assms in \<open>simp add: compare_by_time_key\<close>)

section \<open>The properties\<close>



definition sample_file :: "string \<Rightarrow> dir_entry" where
  "sample_file name =
     \<lparr>de_url = ''/'' @ name, de_leaf = name, de_is_dir = False, de_size = 1, de_mod_time = 0\<rparr>"

text \<open>
  With leading zeros the comparison by name is no strict weak ordering: the files 1a, 001a
  and 01b form a cycle, so the order of a listing that has them is unspecified.
\<close>

lemma name_order_has_a_cycle:
  "\<not> swo_on {sample_file ''1a'', sample_file ''001a'', sample_file ''01b''} (compare_dir_entry_by_name U)"
proof -
  have c: "compare_dir_entry_by_name U (sample_file a) (sample_file b) = compare_strings U a b" for a b
    by (simp add: sample_file_def compare_dir_entry_by_name_def compare_by_name_def)
  show ?thesis
  proof
    assume "swo_on {sample_file ''1a'', sample_file ''001a'', sample_file ''01b''} (compare_dir_entry_by_name U)"
    then have "compare_strings U ''1a'' ''01b'' < 0"
      using compare_strings_cycle(1,2) [of U] unfolding swo_on_def c [symmetric]
      by (meson insertI1 insertI2)
    then show False using compare_strings_cycle(3) [of U] compare_strings_neg [of U "''1a''" "''01b''"] by linarith
  qed
qed



end
