(* ===== verification/SearchWords.thy ===== *)
theory SearchWords
  imports NaturalOrder
begin

text \<open>
  The word model of search/prefix_index.go: splitToNormalizedWords and generatePrefixes.
  A word is a list of runes. The loop over the runes of the normalised text is translated
  as written, and shown equal to the specification "split at separators, keep letters and
  digits lower-cased, drop the short ones".
\<close>

definition is_word_sep :: "rune \<Rightarrow> bool" where
  "is_word_sep r \<longleftrightarrow> r = 0x2F \<or> r = 0x2E \<or> is_space r"

definition is_digit_rune :: "rune \<Rightarrow> bool" where
  "is_digit_rune r \<longleftrightarrow> 0x30 \<le> r \<and> r \<le> 0x39"

text \<open>
  The closure appendWord: what it adds to the result. The word is empty afterwards in both
  of its branches.
\<close>

definition append_word :: "nat \<Rightarrow> rune list \<Rightarrow> rune list list" where
  "append_word minLen word = (if minLen \<le> length word then [word] else [])"

fun words_loop :: "ucd \<Rightarrow> nat \<Rightarrow> rune list \<Rightarrow> rune list \<Rightarrow> rune list list" where
  "words_loop U minLen word [] = append_word minLen word"
| "words_loop U minLen word (r # rs) =
     (if is_word_sep r then append_word minLen word @ words_loop U minLen [] rs
      else if is_digit_rune r then words_loop U minLen (word @ [r]) rs
      else if is_letter U r then words_loop U minLen (word @ [lower_rune U r]) rs
      else words_loop U minLen word rs)"

definition split_to_normalized_words :: "ucd \<Rightarrow> string \<Rightarrow> nat \<Rightarrow> rune list list" where
  "split_to_normalized_words U v minLen = words_loop U minLen [] (runes (nfkd U v))"

text \<open>The prefixes of one word: the loop \<open>for i := minLen; i <= maxLen; i++\<close> with its break.\<close>

definition word_prefixes :: "nat \<Rightarrow> nat \<Rightarrow> rune list \<Rightarrow> string list" where
  "word_prefixes minLen maxLen word =
     map (\<lambda>i. string_of_runes (take i word))
       (takeWhile (\<lambda>i. i \<le> length word) [minLen..<Suc maxLen])"

definition generate_prefixes :: "ucd \<Rightarrow> string \<Rightarrow> nat \<Rightarrow> nat \<Rightarrow> string list" where
  "generate_prefixes U path minLen maxLen =
     concat (map (word_prefixes minLen maxLen) (split_to_normalized_words U path minLen))"

section \<open>The specification of word splitting\<close>

fun split_runes :: "(rune \<Rightarrow> bool) \<Rightarrow> rune list \<Rightarrow> rune list list" where
  "split_runes p [] = [[]]"
| "split_runes p (r # rs) =
     (if p r then [] # split_runes p rs
      else case split_runes p rs of [] \<Rightarrow> [[r]] | w # ws \<Rightarrow> (r # w) # ws)"

definition word_rune :: "ucd \<Rightarrow> rune \<Rightarrow> bool" where
  "word_rune U r \<longleftrightarrow> is_digit_rune r \<or> is_letter U r"

definition norm_rune :: "ucd \<Rightarrow> rune \<Rightarrow> rune" where
  "norm_rune U r = (if is_digit_rune r then r else lower_rune U r)"

definition norm_word :: "ucd \<Rightarrow> rune list \<Rightarrow> rune list" where
  "norm_word U w = map (norm_rune U) (filter (word_rune U) w)"

definition normalized_words :: "ucd \<Rightarrow> nat \<Rightarrow> rune list \<Rightarrow> rune list list" where
  "normalized_words U minLen rs =
     filter (\<lambda>w. minLen \<le> length w) (map (norm_word U) (split_runes is_word_sep rs))"

lemma split_runes_ne [simp]: "split_runes p rs \<noteq> []"
  by (induction rs) (auto split: list.splits)

lemma words_loop_spec:
  "words_loop U minLen word rs =
     filter (\<lambda>w. minLen \<le> length w)
       ((word @ norm_word U (hd (split_runes is_word_sep rs))) #
        map (norm_word U) (tl (split_runes is_word_sep rs)))"
proof (induction rs arbitrary: word)
  case Nil
  then show ?case by (simp add: append_word_def norm_word_def)
next
  case (Cons r rs)
  obtain w ws where s: "split_runes is_word_sep rs = w # ws"
    by (meson neq_Nil_conv split_runes_ne)
  show ?case
    using Cons.IH s by (simp add: append_word_def norm_word_def word_rune_def norm_rune_def)
qed

lemma split_words_eq:
  "split_to_normalized_words U v minLen = normalized_words U minLen (runes (nfkd U v))"
proof -
  obtain w ws where s: "split_runes is_word_sep (runes (nfkd U v)) = w # ws"
    by (meson neq_Nil_conv split_runes_ne)
  then show ?thesis
    by (simp add: split_to_normalized_words_def words_loop_spec normalized_words_def)
qed

lemma split_words_length: "w \<in> set (split_to_normalized_words U v minLen) \<Longrightarrow> minLen \<le> length w"
  by (auto simp: split_words_eq normalized_words_def)

section \<open>Prefixes\<close>

lemma takeWhile_upt: "takeWhile (\<lambda>i. i \<le> n) [a..<b] = [a..<min b (Suc n)]"
proof (induction "b - a" arbitrary: a)
  case 0
  then show ?case by simp
next
  case (Suc k)
  then have ab: "a < b" by simp
  have "takeWhile (\<lambda>i. i \<le> n) [Suc a..<b] = [Suc a..<min b (Suc n)]" using Suc by (intro Suc(1)) simp
  then show ?case using ab by (cases "a \<le> n") (auto simp: upt_conv_Cons min_def)
qed

lemma word_prefixes_upt:
  "word_prefixes minLen maxLen word =
     map (\<lambda>i. string_of_runes (take i word)) [minLen..<Suc (min maxLen (length word))]"
  unfolding word_prefixes_def takeWhile_upt min_Suc_Suc ..

text \<open>A word yields its prefixes of every length from minLen to maxLen that it has.\<close>

lemma set_word_prefixes:
  "p \<in> set (word_prefixes minLen maxLen w) \<longleftrightarrow>
     (\<exists>i. minLen \<le> i \<and> i \<le> maxLen \<and> i \<le> length w \<and> p = string_of_runes (take i w))"
  by (auto simp: word_prefixes_upt less_Suc_eq_le simp del: upt_Suc)

lemma length_word_prefixes:
  "length (word_prefixes minLen maxLen w) = Suc (min maxLen (length w)) - minLen"
  by (simp add: word_prefixes_upt del: upt_Suc)

lemma set_generate_prefixes:
  "p \<in> set (generate_prefixes U path minLen maxLen) \<longleftrightarrow>
     (\<exists>w\<in>set (split_to_normalized_words U path minLen). \<exists>i. minLen \<le> i \<and> i \<le> maxLen
        \<and> i \<le> length w \<and> p = string_of_runes (take i w))"
  by (auto simp: generate_prefixes_def set_word_prefixes)

section \<open>Normalised ASCII words are fixed points\<close>

text \<open>norm.NFKD leaves ASCII text unchanged.\<close>

definition nfkd_ascii :: "ucd \<Rightarrow> bool" where
  "nfkd_ascii U \<longleftrightarrow> (\<forall>s. is_ascii s \<longrightarrow> nfkd U s = s)"

lemma nfkd_ascii_ucd [simp]: "nfkd_ascii ascii_ucd"
  by (simp add: nfkd_ascii_def ascii_ucd_def)

definition norm_ascii_rune :: "rune \<Rightarrow> bool" where
  "norm_ascii_rune r \<longleftrightarrow> is_digit_rune r \<or> 0x61 \<le> r \<and> r \<le> 0x7A"

lemma norm_ascii_rune_facts:
  "norm_ascii_rune r \<Longrightarrow> \<not> is_word_sep r \<and> word_rune U r \<and> norm_rune U r = r \<and> r < 0x80"
  by (auto simp: norm_ascii_rune_def is_word_sep_def is_digit_rune_def is_space_def word_rune_def
      norm_rune_def is_letter_def lower_rune_def)

lemma split_runes_no_sep: "list_all (\<lambda>r. \<not> p r) rs \<Longrightarrow> split_runes p rs = [rs]"
  by (induction rs) auto

lemma string_of_runes_ascii_ascii: "list_all (\<lambda>r. r < 0x80) rs \<Longrightarrow> is_ascii (string_of_runes rs)"
  by (induction rs) (auto simp: string_of_runes_def encode_rune_def)

lemma valid_rune_ascii [simp]: "r < 0x80 \<Longrightarrow> valid_rune r"
  by (simp add: valid_rune_def)

text \<open>Splitting a normalised word again, as the search does with its words, gives the word.\<close>

lemma split_words_fixpoint:
  assumes "nfkd_ascii U" "list_all norm_ascii_rune w" "minLen \<le> length w"
  shows "split_to_normalized_words U (string_of_runes w) minLen = [w]"
proof -
  have small: "list_all (\<lambda>r. r < 0x80) w"
    using assms(2) norm_ascii_rune_facts [where U = U] by (auto simp: list_all_iff)
  then have "nfkd U (string_of_runes w) = string_of_runes w"
    using assms(1) string_of_runes_ascii_ascii by (simp add: nfkd_ascii_def)
  moreover have "runes (string_of_runes w) = w"
    using small by (intro runes_string_of_runes) (auto simp: list_all_iff)
  moreover have "split_runes is_word_sep w = [w]"
    using assms(2) norm_ascii_rune_facts by (intro split_runes_no_sep) (auto simp: list_all_iff)
  moreover have "norm_word U w = w"
    using assms(2) norm_ascii_rune_facts [where U = U]
    by (auto simp: norm_word_def list_all_iff filter_id_conv intro!: map_idI)
  ultimately show ?thesis using assms(3) by (simp add: split_words_eq normalized_words_def)
qed

lemma norm_word_ascii:
  "list_all (\<lambda>r. r < 0x80) rs \<Longrightarrow> list_all norm_ascii_rune (norm_word U rs)"
  by (auto simp: norm_word_def list_all_iff norm_ascii_rune_def norm_rune_def word_rune_def
      is_letter_def lower_rune_def is_digit_rune_def split: if_splits)

lemma split_runes_subset: "w \<in> set (split_runes p rs) \<Longrightarrow> set w \<subseteq> set rs"
proof (induction rs arbitrary: w)
  case Nil
  then show ?case by simp
next
  case (Cons r rs)
  obtain v vs where s: "split_runes p rs = v # vs" by (meson neq_Nil_conv split_runes_ne)
  then have "set u \<subseteq> set rs" if "u = v \<or> u \<in> set vs" for u using Cons.IH [of u] that by auto
  then show ?case using Cons.prems s by (fastforce split: if_splits)
qed

lemma split_words_ascii:
  assumes "nfkd_ascii U" "is_ascii v" "w \<in> set (split_to_normalized_words U v minLen)"
  shows "list_all norm_ascii_rune w"
proof -
  have "runes (nfkd U v) = map byte v" using assms(1,2) by (simp add: nfkd_ascii_def runes_ascii)
  then obtain rs where rs: "rs \<in> set (split_runes is_word_sep (map byte v))" "w = norm_word U rs"
    using assms(3) by (auto simp: split_words_eq normalized_words_def)
  have "set rs \<subseteq> byte ` set v" using split_runes_subset [OF rs(1)] by simp
  then have "list_all (\<lambda>r. r < 0x80) rs" using assms(2) by (auto simp: is_ascii_def list_all_iff)
  then show ?thesis using rs(2) norm_word_ascii by simp
qed

section \<open>The properties\<close>

text \<open>
  splitToNormalizedWords is the specification: normalise, split at slashes, dots and white
  space, keep only digits and lower-cased letters of each part, drop the parts shorter than
  the minimal length.
\<close>

lemma words_meet_spec:
  "split_to_normalized_words U v minLen = normalized_words U minLen (runes (nfkd U v))"
  by (rule split_words_eq)

end
