(* ===== verification/SearchQuery.thy ===== *)
theory SearchQuery
  imports SearchWords
begin

text \<open>
  The query language of search/prefix_index.go: newSearchRequest. The scanner of the code
  is an index into the lower-cased query; here it is the suffix that is left. The field
  extractedWords is filled only under testing.Testing() and is not modelled.
\<close>

abbreviation quote :: char where
  "quote \<equiv> CHR 0x22"

abbreviation blank :: char where
  "blank \<equiv> CHR '' ''"

record search_request =
  sr_words :: "rune list list"
  sr_exact_matches :: "string list"
  sr_to_exclude :: "string list"

definition empty_request :: search_request where
  "empty_request = \<lparr>sr_words = [], sr_exact_matches = [], sr_to_exclude = []\<rparr>"

text \<open>
  readUntil: the characters before the first \<open>until\<close>, and the rest after it; without one,
  everything.
\<close>

definition read_until :: "char \<Rightarrow> string \<Rightarrow> string \<times> string" where
  "read_until until s = (takeWhile (\<lambda>c. c \<noteq> until) s, drop 1 (dropWhile (\<lambda>c. c \<noteq> until) s))"

text \<open>The three kinds of a term, and what the head of the input says about the next one.\<close>

datatype term_kind = KWord | KExact | KExclude

definition term_start :: "char \<Rightarrow> string \<Rightarrow> term_kind \<times> char \<times> string" where
  "term_start c s =
     (if c = quote then (KExact, quote, s)
      else if c = CHR ''-'' then
        (case s of
           d # t \<Rightarrow> if d = quote then (KExclude, quote, t) else (KExclude, blank, s)
         | [] \<Rightarrow> (KExclude, blank, s))
      else (KWord, blank, c # s))"

definition add_term :: "ucd \<Rightarrow> nat \<Rightarrow> term_kind \<Rightarrow> string \<Rightarrow> search_request \<Rightarrow> search_request" where
  "add_term U minWordLen k word req =
     (case k of
        KExact \<Rightarrow> req\<lparr>sr_exact_matches := sr_exact_matches req @ [word]\<rparr>
      | KExclude \<Rightarrow> req\<lparr>sr_to_exclude := sr_to_exclude req @ [word]\<rparr>
      | KWord \<Rightarrow> req\<lparr>sr_words := sr_words req @ split_to_normalized_words U word minWordLen\<rparr>)"

text \<open>Every turn of the loop consumes at least one character.\<close>

lemma read_until_shorter: "length (snd (read_until u s)) \<le> length s"
  using length_dropWhile_le [of "\<lambda>c. c \<noteq> u" s] by (simp add: read_until_def)

lemma read_until_shorter_Cons:
  "c \<noteq> u \<Longrightarrow> length (snd (read_until u (c # s))) < Suc (length s)"
  using length_dropWhile_le [of "\<lambda>c. c \<noteq> u" s] by (simp add: read_until_def)

lemma term_consumes:
  assumes "c \<noteq> blank" "term_start c s = (k, u, rest)" "read_until u rest = (w, rest')"
  shows "length rest' < Suc (length s)"
proof -
  have r: "rest' = snd (read_until u rest)" using assms(3) by simp
  show ?thesis
  proof (cases "c = quote \<or> c = CHR ''-''")
    case True
    then have "length rest \<le> length s" using assms(2)
      by (auto simp: term_start_def split: if_splits list.splits)
    then show ?thesis using r read_until_shorter [of u rest] by simp
  next
    case False
    then have "rest = c # s" "u = blank" using assms(2) by (auto simp: term_start_def)
    then show ?thesis using r read_until_shorter_Cons [OF assms(1)] by simp
  qed
qed

function request_loop :: "ucd \<Rightarrow> nat \<Rightarrow> string \<Rightarrow> search_request \<Rightarrow> search_request" where
  "request_loop U minWordLen [] req = req"
| "request_loop U minWordLen (c # s) req =
     (if c = blank then request_loop U minWordLen s req
      else
        let (k, until, rest) = term_start c s;
            (word0, rest') = read_until until rest;
            word = trim_space word0
        in if word = [] then request_loop U minWordLen rest' req
           else request_loop U minWordLen rest' (add_term U minWordLen k word req))"
  by pat_completeness auto

termination
proof (relation "measure (\<lambda>(U, n, s, req). length s)", goal_cases)
  case 1
  then show ?case by simp
next
  case (2 U n c s req)
  then show ?case by simp
next
  case (3 U n c s req p k q u rest p' w rest' word)
  then show ?case using term_consumes [of c s k u rest w rest'] by simp
next
  case (4 U n c s req p k q u rest p' w rest' word)
  then show ?case using term_consumes [of c s k u rest w rest'] by simp
qed

declare request_loop.simps(2) [simp del]

definition new_search_request :: "ucd \<Rightarrow> string \<Rightarrow> nat \<Rightarrow> search_request" where
  "new_search_request U search minWordLen =
     request_loop U minWordLen (to_lower U search) empty_request"

section \<open>One term at a time\<close>

lemma request_blank [simp]: "request_loop U n (blank # s) req = request_loop U n s req"
  by (simp add: request_loop.simps(2))

lemma read_until_sep: "u \<notin> set w \<Longrightarrow> read_until u (w @ u # s) = (w, s)"
proof -
  assume "u \<notin> set w"
  then have "\<And>x. x \<in> set w \<Longrightarrow> x \<noteq> u" by auto
  then show ?thesis by (simp add: read_until_def takeWhile_append2 dropWhile_append2)
qed

lemma read_until_end: "u \<notin> set w \<Longrightarrow> read_until u w = (w, [])"
proof -
  assume "u \<notin> set w"
  then have "takeWhile (\<lambda>c. c \<noteq> u) w = w" "dropWhile (\<lambda>c. c \<noteq> u) w = []"
    by (auto simp: takeWhile_eq_all_conv dropWhile_eq_Nil_conv)
  then show ?thesis by (simp only: read_until_def drop.simps)
qed

text \<open>A text that TrimSpace does not change and that is not blank.\<close>

definition trimmed :: "string \<Rightarrow> bool" where
  "trimmed w \<longleftrightarrow> w \<noteq> [] \<and> trim_space w = w"

lemma request_exact:
  assumes "trimmed w" "quote \<notin> set w"
  shows "request_loop U n (quote # w @ quote # s) req = request_loop U n s (add_term U n KExact w req)"
  using assms by (simp add: request_loop.simps(2) term_start_def read_until_sep trimmed_def)

lemma request_exclude:
  assumes "trimmed w" "quote \<notin> set w"
  shows "request_loop U n (CHR ''-'' # quote # w @ quote # s) req =
    request_loop U n s (add_term U n KExclude w req)"
  using assms by (simp add: request_loop.simps(2) term_start_def read_until_sep trimmed_def)

lemma request_word:
  assumes "trimmed w" "blank \<notin> set w" "hd w \<noteq> quote" "hd w \<noteq> CHR ''-''"
  shows "request_loop U n (w @ blank # s) req = request_loop U n s (add_term U n KWord w req)"
proof -
  obtain c v where w: "w = c # v" using assms(1) by (cases w) (auto simp: trimmed_def)
  then have c: "c \<noteq> blank" using assms(2) by auto
  have "term_start c (v @ blank # s) = (KWord, blank, w @ blank # s)"
    using assms w by (simp add: term_start_def)
  then show ?thesis using assms w c read_until_sep [OF assms(2), of s]
    by (simp add: request_loop.simps(2) trimmed_def)
qed

section \<open>Rendering a query and parsing it back\<close>

text \<open>The textual form of a term, as docs/search.md describes the language.\<close>

fun render_term :: "term_kind \<times> string \<Rightarrow> string" where
  "render_term (KExact, w) = quote # w @ [quote]"
| "render_term (KExclude, w) = CHR ''-'' # quote # w @ [quote]"
| "render_term (KWord, w) = w"

definition render_query :: "(term_kind \<times> string) list \<Rightarrow> string" where
  "render_query ts = concat (map (\<lambda>t. render_term t @ [blank]) ts)"

fun good_term :: "term_kind \<times> string \<Rightarrow> bool" where
  "good_term (KWord, w) \<longleftrightarrow>
     trimmed w \<and> blank \<notin> set w \<and> hd w \<noteq> quote \<and> hd w \<noteq> CHR ''-''"
| "good_term (_, w) \<longleftrightarrow> trimmed w \<and> quote \<notin> set w"

definition request_of :: "ucd \<Rightarrow> nat \<Rightarrow> (term_kind \<times> string) list \<Rightarrow> search_request" where
  "request_of U n ts =
     \<lparr>sr_words = concat (map (\<lambda>t. split_to_normalized_words U (snd t) n) (filter (\<lambda>t. fst t = KWord) ts)),
      sr_exact_matches = map snd (filter (\<lambda>t. fst t = KExact) ts),
      sr_to_exclude = map snd (filter (\<lambda>t. fst t = KExclude) ts)\<rparr>"

lemma request_loop_render:
  "list_all good_term ts \<Longrightarrow>
   request_loop U n (render_query ts) req = fold (\<lambda>t. add_term U n (fst t) (snd t)) ts req"
proof (induction ts arbitrary: req)
  case Nil
  then show ?case by (simp add: render_query_def)
next
  case (Cons t ts)
  obtain k w where t: "t = (k, w)" by (cases t)
  have split: "render_query ((k, w) # ts) = render_term (k, w) @ blank # render_query ts" for k
    by (simp add: render_query_def)
  show ?case
  proof (cases k)
    case KWord
    then show ?thesis using Cons t request_word [of w U n] by (simp add: split)
  next
    case KExact
    then show ?thesis using Cons t request_exact [of w U n] by (simp add: split)
  next
    case KExclude
    then show ?thesis using Cons t request_exclude [of w U n] by (simp add: split)
  qed
qed

lemma fold_add_term:
  "fold (\<lambda>t. add_term U n (fst t) (snd t)) ts req =
     \<lparr>sr_words = sr_words req @ sr_words (request_of U n ts),
      sr_exact_matches = sr_exact_matches req @ sr_exact_matches (request_of U n ts),
      sr_to_exclude = sr_to_exclude req @ sr_to_exclude (request_of U n ts)\<rparr>"
proof (induction ts arbitrary: req)
  case Nil
  then show ?case by (simp add: request_of_def)
next
  case (Cons t ts)
  then show ?case by (cases "fst t") (simp_all add: request_of_def add_term_def)
qed

lemma parse_render_query:
  assumes "list_all good_term ts" "to_lower U (render_query ts) = render_query ts"
  shows "new_search_request U (render_query ts) n = request_of U n ts"
  using assms by (simp add: new_search_request_def request_loop_render fold_add_term empty_request_def)

section \<open>Well-formed requests\<close>

text \<open>No term of a request is empty or starts or ends with white space; words are long enough.\<close>

definition wf_request :: "nat \<Rightarrow> search_request \<Rightarrow> bool" where
  "wf_request n req \<longleftrightarrow>
     list_all (\<lambda>w. n \<le> length w) (sr_words req) \<and> list_all (\<lambda>w. w \<noteq> []) (sr_exact_matches req)
     \<and> list_all (\<lambda>w. w \<noteq> []) (sr_to_exclude req)"

lemma wf_add_term: "wf_request n req \<Longrightarrow> w \<noteq> [] \<Longrightarrow> wf_request n (add_term U n k w req)"
  by (cases k) (auto simp: wf_request_def add_term_def list_all_iff dest: split_words_length)

lemma wf_request_loop: "wf_request n req \<Longrightarrow> wf_request n (request_loop U n s req)"
proof (induction U n s req rule: request_loop.induct)
  case (1 U n req)
  then show ?case by simp
next
  case (2 U n c s req)
  obtain k u rest where t: "term_start c s = (k, u, rest)" by (cases "term_start c s")
  obtain w rest' where r: "read_until u rest = (w, rest')" by (cases "read_until u rest")
  show ?case
    using 2 t r wf_add_term by (auto simp: request_loop.simps(2) Let_def)
qed

lemma wf_new_search_request [wf_intros]: "wf_request n (new_search_request U search n)"
  unfolding new_search_request_def
  by (rule wf_request_loop) (simp add: wf_request_def empty_request_def)

section \<open>The properties\<close>

text \<open>
  C24: The parser of search queries inverts the documented syntax: a lower-case query written
  from words, quoted and excluded terms parses to exactly these terms.
\<close>

theorem query_roundtrip:
  assumes "list_all good_term ts" "to_lower U (render_query ts) = render_query ts"
  shows "new_search_request U (render_query ts) n = request_of U n ts"
  using assms by (rule parse_render_query)

lemma query_roundtrip_witness:
  "new_search_request ascii_ucd (render_query [(KWord, ''cat''), (KExact, ''a b''), (KExclude, ''x'')]) 3 =
     request_of ascii_ucd 3 [(KWord, ''cat''), (KExact, ''a b''), (KExclude, ''x'')]"
  by (rule query_roundtrip)
    (simp_all add: trimmed_def trim_space_def Let_def decode_rune_def is_space_def render_query_def
      to_lower_ascii lower_char_def)

end
