(* ===== verification/PrefixIndex.thy ===== *)
theory PrefixIndex
  imports SearchQuery
begin

text \<open>
  The search index of search/prefix_index.go: how newPrefixIndex builds it (the identifiers
  are uint32 values and wrap), prepare and Check, and what the finished index holds.
  A Go map is a \<open>mapping\<close>; the sets \<open>map[uint32]bool\<close>, whose values are always
  true, are sets of words.
\<close>

record index_entry =
  ie_path :: string
  ie_is_dir :: bool
  ie_size :: int
  ie_mod_time :: int

record prefix_index =
  min_prefix_len :: nat
  max_prefix_len :: nat
  entries :: "(u32, index_entry) mapping"
  prefixes :: "(string, u32 list) mapping"
  lower_cased_paths :: "(u32, string) mapping"

text \<open>The three local variables of newPrefixIndex.\<close>

record index_builder =
  ib_id :: u32
  ib_entries :: "(u32, index_entry) mapping"
  ib_prefixes :: "(string, u32 list) mapping"

definition new_index_entry :: "dir_entry \<Rightarrow> index_entry" where
  "new_index_entry e =
     \<lparr>ie_path = de_url e, ie_is_dir = de_is_dir e, ie_size = de_size e, ie_mod_time = de_mod_time e\<rparr>"

text \<open>Reading a missing key of a Go map of slices gives the nil slice.\<close>

definition ids_at :: "(string, u32 list) mapping \<Rightarrow> string \<Rightarrow> u32 list" where
  "ids_at m p = (case Mapping.lookup m p of None \<Rightarrow> [] | Some ids \<Rightarrow> ids)"

definition append_id :: "u32 \<Rightarrow> string \<Rightarrow> (string, u32 list) mapping \<Rightarrow> (string, u32 list) mapping" where
  "append_id i p m = Mapping.update p (ids_at m p @ [i]) m"

definition add_entry :: "ucd \<Rightarrow> nat \<Rightarrow> nat \<Rightarrow> dir_entry \<Rightarrow> index_builder \<Rightarrow> index_builder" where
  "add_entry U minLen maxLen e b =
     \<lparr>ib_id = ib_id b + 1,
      ib_entries = Mapping.update (ib_id b) (new_index_entry e) (ib_entries b),
      ib_prefixes =
        fold (append_id (ib_id b)) (generate_prefixes U (de_url e) minLen maxLen) (ib_prefixes b)\<rparr>"

definition empty_builder :: index_builder where
  "empty_builder = \<lparr>ib_id = 0, ib_entries = Mapping.empty, ib_prefixes = Mapping.empty\<rparr>"

definition prepare :: "ucd \<Rightarrow> prefix_index \<Rightarrow> prefix_index" where
  "prepare U idx =
     idx\<lparr>lower_cased_paths := Mapping.map_values (\<lambda>_ e. to_lower U (ie_path e)) (entries idx)\<rparr>"

definition new_prefix_index :: "ucd \<Rightarrow> dir_entry list \<Rightarrow> nat \<Rightarrow> nat \<Rightarrow> prefix_index" where
  "new_prefix_index U es minLen maxLen =
     (let b = fold (add_entry U minLen maxLen) es empty_builder
      in prepare U
        \<lparr>min_prefix_len = minLen, max_prefix_len = maxLen, entries = ib_entries b,
         prefixes = Mapping.map_values (\<lambda>_ ids. remdups_adj (sort ids)) (ib_prefixes b),
         lower_cased_paths = Mapping.empty\<rparr>)"

text \<open>Check: the error carries the four numbers of its message.\<close>

datatype check_error = PrefixSizesDiffer nat nat nat nat

definition check_index :: "prefix_index \<Rightarrow> nat \<Rightarrow> nat \<Rightarrow> check_error option" where
  "check_index idx wantMin wantMax =
     (if min_prefix_len idx \<noteq> wantMin \<or> max_prefix_len idx \<noteq> wantMax
      then Some (PrefixSizesDiffer (min_prefix_len idx) (max_prefix_len idx) wantMin wantMax)
      else None)"

section \<open>What the index holds\<close>

lemma ids_at_empty [simp]: "ids_at Mapping.empty p = []"
  by (simp add: ids_at_def lookup_empty)

lemma ids_at_update [simp]: "ids_at (Mapping.update q ids m) p = (if p = q then ids else ids_at m p)"
  by (simp add: ids_at_def lookup_update')

lemma ids_at_fold_append:
  "ids_at (fold (append_id i) ps m) p = ids_at m p @ replicate (count_list ps p) i"
  by (induction ps arbitrary: m) (simp_all add: append_id_def replicate_append_same)

lemma ids_at_map_values: "ids_at (Mapping.map_values (\<lambda>_ ids. f ids) m) p =
    (case Mapping.lookup m p of None \<Rightarrow> [] | Some ids \<Rightarrow> f ids)"
  by (simp add: ids_at_def lookup_map_values split: option.splits)

lemma ids_at_map_values_Nil:
  "f [] = [] \<Longrightarrow> ids_at (Mapping.map_values (\<lambda>_ ids. f ids) m) p = f (ids_at m p)"
  by (simp add: ids_at_map_values) (simp add: ids_at_def split: option.splits)

text \<open>The invariant of the building loop, for the entries read so far.\<close>

definition builder_inv :: "ucd \<Rightarrow> nat \<Rightarrow> nat \<Rightarrow> dir_entry list \<Rightarrow> index_builder \<Rightarrow> bool" where
  "builder_inv U minLen maxLen es b \<longleftrightarrow>
     ib_id b = of_nat (length es)
     \<and> (length es \<le> 2 ^ 32 \<longrightarrow>
          (\<forall>i. Mapping.lookup (ib_entries b) i =
             (if unat i < length es then Some (new_index_entry (es ! unat i)) else None)))
     \<and> (\<forall>p. set (ids_at (ib_prefixes b) p) =
          of_nat ` {n. n < length es \<and> p \<in> set (generate_prefixes U (de_url (es ! n)) minLen maxLen)})"

lemma less_Suc_image: "{n. n < Suc k \<and> P n} = (if P k then insert k {n. n < k \<and> P n} else {n. n < k \<and> P n})"
  by (auto simp: less_Suc_eq)

lemma builder_inv_step:
  assumes "builder_inv U minLen maxLen es b"
  shows "builder_inv U minLen maxLen (es @ [e]) (add_entry U minLen maxLen e b)"
proof -
  let ?b = "add_entry U minLen maxLen e b"
  have id: "ib_id b = of_nat (length es)" using assms by (simp add: builder_inv_def)
  have "Mapping.lookup (ib_entries ?b) i =
      (if unat i < length (es @ [e]) then Some (new_index_entry ((es @ [e]) ! unat i)) else None)"
    if len: "length (es @ [e]) \<le> 2 ^ 32" for i :: u32
  proof -
    have u: "unat (ib_id b) = length es" using len id by (simp add: unat_of_nat)
    then have "i = ib_id b \<longleftrightarrow> unat i = length es" by (metis word_unat_eq_iff)
    then show ?thesis using assms len u
      by (auto simp: builder_inv_def add_entry_def lookup_update' nth_append less_Suc_eq)
  qed
  moreover have "set (ids_at (ib_prefixes ?b) p) =
      of_nat ` {n. n < length (es @ [e])
        \<and> p \<in> set (generate_prefixes U (de_url ((es @ [e]) ! n)) minLen maxLen)}" for p
  proof -
    let ?ps = "generate_prefixes U (de_url e) minLen maxLen"
    have old: "{n. n < length es \<and> p \<in> set (generate_prefixes U (de_url ((es @ [e]) ! n)) minLen maxLen)}
        = {n. n < length es \<and> p \<in> set (generate_prefixes U (de_url (es ! n)) minLen maxLen)}"
      by (auto simp: nth_append)
    have "set (ids_at (ib_prefixes ?b) p) =
        set (ids_at (ib_prefixes b) p) \<union> (if p \<in> set ?ps then {ib_id b} else {})"
      by (simp add: add_entry_def ids_at_fold_append count_list_0_iff set_replicate_conv_if)
    also have "set (ids_at (ib_prefixes b) p) =
        of_nat ` {n. n < length es \<and> p \<in> set (generate_prefixes U (de_url (es ! n)) minLen maxLen)}"
      using assms by (simp add: builder_inv_def)
    finally show ?thesis using id old by (auto simp: less_Suc_image)
  qed
  ultimately show ?thesis using id by (simp add: builder_inv_def add_entry_def)
qed

lemma builder_inv_empty: "builder_inv U minLen maxLen [] empty_builder"
  by (simp add: builder_inv_def empty_builder_def lookup_empty)

lemma builder_inv_fold:
  "builder_inv U minLen maxLen done b \<Longrightarrow>
   builder_inv U minLen maxLen (done @ es) (fold (add_entry U minLen maxLen) es b)"
proof (induction es arbitrary: "done" b)
  case Nil
  then show ?case by simp
next
  case (Cons e es)
  show ?case using Cons.IH [OF builder_inv_step [OF Cons.prems, of e]] by simp
qed

lemma builder_inv_all:
  "builder_inv U minLen maxLen es (fold (add_entry U minLen maxLen) es empty_builder)"
  using builder_inv_fold [OF builder_inv_empty] by simp

lemma new_index_fields [simp]:
  "min_prefix_len (new_prefix_index U es minLen maxLen) = minLen"
  "max_prefix_len (new_prefix_index U es minLen maxLen) = maxLen"
  by (simp_all add: new_prefix_index_def Let_def prepare_def)

lemma new_index_entries:
  "length es \<le> 2 ^ 32 \<Longrightarrow>
   Mapping.lookup (entries (new_prefix_index U es minLen maxLen)) i =
     (if unat i < length es then Some (new_index_entry (es ! unat i)) else None)"
  using builder_inv_all [of U minLen maxLen es]
  by (simp add: new_prefix_index_def Let_def prepare_def builder_inv_def)

lemma new_index_keys:
  "length es \<le> 2 ^ 32 \<Longrightarrow>
   Mapping.keys (entries (new_prefix_index U es minLen maxLen)) = {i. unat i < length es}"
  by (auto simp: keys_is_none_rep new_index_entries split: if_splits)

lemma sorted_less_remdups_adj: "sorted (xs :: 'a::linorder list) \<Longrightarrow> sorted_wrt (<) (remdups_adj xs)"
  by (induction xs rule: remdups_adj.induct) (auto simp: less_le)

lemma strict_sorted_remdups_adj: "sorted_wrt (<) (remdups_adj (sort (xs :: 'a::linorder list)))"
  by (simp add: sorted_less_remdups_adj)

text \<open>A prefix leads to exactly the entries whose path has it, each of them once, in order.\<close>

lemma new_index_prefixes:
  "set (ids_at (prefixes (new_prefix_index U es minLen maxLen)) p) =
     of_nat ` {n. n < length es \<and> p \<in> set (generate_prefixes U (de_url (es ! n)) minLen maxLen)}"
  "sorted_wrt (<) (ids_at (prefixes (new_prefix_index U es minLen maxLen)) p)"
proof -
  let ?b = "fold (add_entry U minLen maxLen) es empty_builder"
  have "ids_at (prefixes (new_prefix_index U es minLen maxLen)) p =
      remdups_adj (sort (ids_at (ib_prefixes ?b) p))"
    by (simp add: new_prefix_index_def Let_def prepare_def ids_at_map_values_Nil)
  then show "set (ids_at (prefixes (new_prefix_index U es minLen maxLen)) p) =
      of_nat ` {n. n < length es \<and> p \<in> set (generate_prefixes U (de_url (es ! n)) minLen maxLen)}"
    and "sorted_wrt (<) (ids_at (prefixes (new_prefix_index U es minLen maxLen)) p)"
    using builder_inv_all [of U minLen maxLen es] strict_sorted_remdups_adj
    by (simp_all add: builder_inv_def)
qed

lemma prepare_lower_cased:
  "Mapping.lookup (lower_cased_paths (prepare U idx)) i =
     map_option (\<lambda>e. to_lower U (ie_path e)) (Mapping.lookup (entries idx) i)"
  by (simp add: prepare_def lookup_map_values)

lemma new_index_lower_cased:
  "Mapping.lookup (lower_cased_paths (new_prefix_index U es minLen maxLen)) i =
     map_option (\<lambda>e. to_lower U (ie_path e))
       (Mapping.lookup (entries (new_prefix_index U es minLen maxLen)) i)"
  by (simp add: new_prefix_index_def Let_def prepare_lower_cased) (simp add: prepare_def)

lemma check_new_index [simp]:
  "check_index (new_prefix_index U es minLen maxLen) wantMin wantMax = None \<longleftrightarrow>
     minLen = wantMin \<and> maxLen = wantMax"
  by (simp add: check_index_def)

end
