(* ===== verification/PrefixSearch.thy ===== *)
theory PrefixSearch
  imports PrefixIndex
begin

text \<open>
  searchByPrefixes of search/prefix_index.go and its specification. Go iterates over a map
  in an unspecified order: the routine that lists a set of identifiers is an argument, with
  the locale map_iteration as its contract.
\<close>

locale map_iteration =
  fixes iter :: "'a set \<Rightarrow> 'a list"
  assumes iter_set: "finite A \<Longrightarrow> set (iter A) = A"
    and iter_distinct: "finite A \<Longrightarrow> distinct (iter A)"
begin

lemma iter_empty [simp]: "iter {} = []"
  using iter_set [of "{}"] by simp

lemma iter_mset: "finite A \<Longrightarrow> mset (iter A) = mset_set A"
  by (metis iter_set iter_distinct mset_set_set)

end

interpretation word_order: map_iteration "sorted_list_of_set :: u32 set \<Rightarrow> u32 list"
  by unfold_locales simp_all

text \<open>Scores are float32 values; the only one that is no integer is +Inf.\<close>

record search_hit =
  sh_id :: u32
  sh_score :: enat
  sh_path :: string

definition lower_cased_path :: "prefix_index \<Rightarrow> u32 \<Rightarrow> string" where
  "lower_cased_path idx i = (case Mapping.lookup (lower_cased_paths idx) i of None \<Rightarrow> [] | Some p \<Rightarrow> p)"

definition new_search_hit :: "prefix_index \<Rightarrow> u32 \<Rightarrow> enat \<Rightarrow> search_hit" where
  "new_search_hit idx i score = \<lparr>sh_id = i, sh_score = score, sh_path = lower_cased_path idx i\<rparr>"

text \<open>The identifiers the loops over the prefixes of one word and their lists come across.\<close>

definition word_ids :: "ucd \<Rightarrow> prefix_index \<Rightarrow> rune list \<Rightarrow> u32 list" where
  "word_ids U idx word =
     concat (map (ids_at (prefixes idx))
       (generate_prefixes U (string_of_runes word) (min_prefix_len idx) (max_prefix_len idx)))"

definition count_ids :: "u32 list \<Rightarrow> (u32 \<Rightarrow> nat) \<Rightarrow> u32 \<Rightarrow> nat" where
  "count_ids ids counts = fold (\<lambda>i m. m(i := m i + 1)) ids counts"

text \<open>
  The loop over the words, with matchCounts and matchesForAllWords. None is the early return
  of noopIter.
\<close>

fun match_words :: "ucd \<Rightarrow> prefix_index \<Rightarrow> rune list list \<Rightarrow> (u32 \<Rightarrow> nat) \<Rightarrow> u32 set \<Rightarrow>
    ((u32 \<Rightarrow> nat) \<times> u32 set) option" where
  "match_words U idx [] counts all = Some (counts, all)"
| "match_words U idx (word # ws) counts all =
     (if length word < min_prefix_len idx then match_words U idx ws counts all
      else
        let ids = word_ids U idx word;
            counts' = count_ids ids counts;
            matches = set ids
        in if matches = {} then None
           else if all = {} then match_words U idx ws counts' matches
           else
             let all' = {k \<in> all. k \<in> matches}
             in if all' = {} then None else match_words U idx ws counts' all')"

definition search_by_prefixes ::
  "ucd \<Rightarrow> (u32 set \<Rightarrow> u32 list) \<Rightarrow> prefix_index \<Rightarrow> rune list list \<Rightarrow> search_hit list" where
  "search_by_prefixes U iter idx words =
     (case match_words U idx words (\<lambda>_. 0) {} of
        None \<Rightarrow> []
      | Some (counts, all) \<Rightarrow>
          map (\<lambda>i. new_search_hit idx i (enat (float32_of_nat (counts i)))) (iter all))"

section \<open>The loop meets its specification\<close>

lemma count_ids_eq: "count_ids ids counts = (\<lambda>i. counts i + count_list ids i)"
  by (induction ids arbitrary: counts) (auto simp: count_ids_def fun_eq_iff)

definition long_words :: "prefix_index \<Rightarrow> rune list list \<Rightarrow> rune list list" where
  "long_words idx words = filter (\<lambda>w. min_prefix_len idx \<le> length w) words"

definition all_matches :: "ucd \<Rightarrow> prefix_index \<Rightarrow> rune list list \<Rightarrow> u32 set" where
  "all_matches U idx words = (\<Inter>w\<in>set words. set (word_ids U idx w))"

definition total_count :: "ucd \<Rightarrow> prefix_index \<Rightarrow> rune list list \<Rightarrow> u32 \<Rightarrow> nat" where
  "total_count U idx words i = (\<Sum>w\<leftarrow>words. count_list (word_ids U idx w) i)"

lemma match_words_spec:
  "all \<noteq> {} \<Longrightarrow>
   match_words U idx words counts all =
     (let ws = long_words idx words; A = all \<inter> all_matches U idx ws
      in if A = {} then None else Some (\<lambda>i. counts i + total_count U idx ws i, A))"
proof (induction words arbitrary: counts all)
  case Nil
  then show ?case by (simp add: long_words_def all_matches_def total_count_def)
next
  case (Cons w words)
  let ?A = "all \<inter> set (word_ids U idx w)"
  have A: "{k \<in> all. k \<in> set (word_ids U idx w)} = ?A" by auto
  show ?case
  proof (cases "length w < min_prefix_len idx")
    case True
    then show ?thesis using Cons by (simp add: long_words_def)
  next
    case long: False
    show ?thesis
    proof (cases "?A = {}")
      case True
      then show ?thesis using long Cons.prems A
        by (auto simp: long_words_def all_matches_def Let_def)
    next
      case False
      then show ?thesis using long Cons.prems A Cons.IH [OF False]
        by (auto simp: long_words_def all_matches_def total_count_def Let_def count_ids_eq
            Int_assoc add.assoc)
    qed
  qed
qed

lemma match_words_first:
  assumes "long_words idx words \<noteq> []"
  shows "match_words U idx words counts {} =
    (let ws = long_words idx words; A = all_matches U idx ws
     in if A = {} then None else Some (\<lambda>i. counts i + total_count U idx ws i, A))"
  using assms
proof (induction words)
  case Nil
  then show ?case by (simp add: long_words_def)
next
  case (Cons w words)
  show ?case
  proof (cases "length w < min_prefix_len idx")
    case True
    then show ?thesis using Cons by (simp add: long_words_def)
  next
    case long: False
    show ?thesis
    proof (cases "word_ids U idx w = []")
      case True
      then show ?thesis using long by (simp add: long_words_def all_matches_def)
    next
      case False
      then show ?thesis
        using long match_words_spec [of "set (word_ids U idx w)" U idx words]
        by (auto simp: long_words_def all_matches_def total_count_def Let_def count_ids_eq add.assoc)
    qed
  qed
qed

lemma search_by_prefixes_eq:
  assumes "map_iteration iter" "words \<noteq> []" "\<forall>w\<in>set words. min_prefix_len idx \<le> length w"
  shows "search_by_prefixes U iter idx words =
    map (\<lambda>i. new_search_hit idx i (enat (float32_of_nat (total_count U idx words i))))
      (iter (all_matches U idx words))"
proof -
  have "iter {} = []" using assms(1) by (rule map_iteration.iter_empty)
  moreover have "long_words idx words = words" using assms(3) by (simp add: long_words_def filter_id_conv)
  ultimately show ?thesis using assms(2) match_words_first [of idx words U "\<lambda>_. 0"]
    by (simp add: search_by_prefixes_def Let_def)
qed

section \<open>What a search by words finds in an index of entries\<close>

text \<open>
  A word of the query is stable when splitting its text gives the word back: the search
  splits and normalises its words a second time. Normalised ASCII words are stable.
\<close>

definition stable_word :: "ucd \<Rightarrow> nat \<Rightarrow> rune list \<Rightarrow> bool" where
  "stable_word U minLen w \<longleftrightarrow>
     list_all valid_rune w \<and> split_to_normalized_words U (string_of_runes w) minLen = [w]"

lemma stable_word_ascii:
  "nfkd_ascii U \<Longrightarrow> list_all norm_ascii_rune w \<Longrightarrow> minLen \<le> length w \<Longrightarrow> stable_word U minLen w"
  using norm_ascii_rune_facts [where U = U] split_words_fixpoint [of U w minLen]
  by (auto simp: stable_word_def list_all_iff)

text \<open>All words of the text decode to valid code points.\<close>

definition valid_words :: "ucd \<Rightarrow> nat \<Rightarrow> string \<Rightarrow> bool" where
  "valid_words U minLen path \<longleftrightarrow>
     list_all (list_all valid_rune) (split_to_normalized_words U path minLen)"

text \<open>The path has a word that starts with the first \<open>k\<close> runes of \<open>w\<close>.\<close>

definition shares :: "ucd \<Rightarrow> nat \<Rightarrow> string \<Rightarrow> rune list \<Rightarrow> nat \<Rightarrow> bool" where
  "shares U minLen path w k \<longleftrightarrow>
     list_ex (\<lambda>v. k \<le> length v \<and> take k v = take k w) (split_to_normalized_words U path minLen)"

text \<open>The score of a path for one word: the number of prefix lengths it shares with it.\<close>

definition word_score :: "ucd \<Rightarrow> nat \<Rightarrow> nat \<Rightarrow> string \<Rightarrow> rune list \<Rightarrow> nat" where
  "word_score U minLen maxLen path w =
     length (filter (shares U minLen path w) [minLen..<Suc (min maxLen (length w))])"

definition words_score :: "ucd \<Rightarrow> nat \<Rightarrow> nat \<Rightarrow> string \<Rightarrow> rune list list \<Rightarrow> nat" where
  "words_score U minLen maxLen path words = (\<Sum>w\<leftarrow>words. word_score U minLen maxLen path w)"

lemma shares_mono: "shares U minLen path w k \<Longrightarrow> j \<le> k \<Longrightarrow> shares U minLen path w j"
proof -
  assume s: "shares U minLen path w k" and j: "j \<le> k"
  then obtain v where v: "v \<in> set (split_to_normalized_words U path minLen)" "k \<le> length v"
      "take k v = take k w"
    by (auto simp: shares_def list_ex_iff)
  have "take j v = take j (take k v)" using j by (simp add: min_absorb1)
  also have "\<dots> = take j w" using v(3) j by (simp add: min_absorb1)
  finally have "take j v = take j w" .
  moreover have "j \<le> length v" using v(2) j by simp
  ultimately show ?thesis using v(1) by (auto simp: shares_def list_ex_iff)
qed

lemma take_string_eq:
  assumes "list_all valid_rune v" "list_all valid_rune w" "i \<le> length v" "k \<le> length w"
  shows "string_of_runes (take k w) = string_of_runes (take i v) \<longleftrightarrow> i = k \<and> take k v = take k w"
proof
  assume "string_of_runes (take k w) = string_of_runes (take i v)"
  then have eq: "take k w = take i v"
    using assms string_of_runes_inj [of "take k w" "take i v"] by (auto simp: list_all_iff dest: in_set_takeD)
  then have "length (take k w) = length (take i v)" by simp
  then have "i = k" using assms(3,4) by (simp only: length_take min_absorb2)
  then show "i = k \<and> take k v = take k w" using eq by simp
qed simp

lemma prefix_of_path:
  assumes "valid_words U minLen path" "list_all valid_rune w"
    and "minLen \<le> k" "k \<le> maxLen" "k \<le> length w"
  shows "string_of_runes (take k w) \<in> set (generate_prefixes U path minLen maxLen) \<longleftrightarrow>
    shares U minLen path w k"
proof -
  have "(\<exists>i. minLen \<le> i \<and> i \<le> maxLen \<and> i \<le> length v
        \<and> string_of_runes (take k w) = string_of_runes (take i v)) \<longleftrightarrow>
      k \<le> length v \<and> take k v = take k w"
    if "v \<in> set (split_to_normalized_words U path minLen)" for v
  proof -
    have v: "list_all valid_rune v" using that assms(1) by (simp add: valid_words_def list_all_iff)
    show ?thesis using take_string_eq [OF v assms(2) _ assms(5)] assms(3,4) by metis
  qed
  then show ?thesis by (auto simp: set_generate_prefixes shares_def list_ex_iff)
qed

lemma count_list_concat_map: "count_list (concat (map f xs)) y = (\<Sum>x\<leftarrow>xs. count_list (f x) y)"
  by (induction xs) auto

lemma sum_list_filter_length: "(\<Sum>x\<leftarrow>xs. if P x then 1 else 0) = length (filter P xs)"
  by (induction xs) auto

lemma count_list_distinct: "distinct xs \<Longrightarrow> count_list xs x = (if x \<in> set xs then 1 else 0)"
  by (induction xs) auto

lemma generate_prefixes_stable:
  "stable_word U minLen w \<Longrightarrow>
   generate_prefixes U (string_of_runes w) minLen maxLen = word_prefixes minLen maxLen w"
  by (simp add: generate_prefixes_def stable_word_def)

lemma unat_of_nat_less: "n < 2 ^ 32 \<Longrightarrow> unat (of_nat n :: u32) = n"
  by (simp add: unat_of_nat)

lemma of_nat_image_iff:
  assumes "length es \<le> 2 ^ 32" "unat (i :: u32) < length es"
  shows "i \<in> of_nat ` {n. n < length es \<and> P n} \<longleftrightarrow> P (unat i)"
proof -
  have "n = unat i" if "i = of_nat n" "n < length es" for n
    using that assms(1) by (simp add: unat_of_nat_less)
  then show ?thesis using assms(2) by (auto intro!: image_eqI [of _ _ "unat i"])
qed

text \<open>What the index counts for one word of the query.\<close>

lemma word_ids_new_index:
  assumes len: "length es \<le> 2 ^ 32" and st: "stable_word U minLen w"
    and ok: "\<forall>e\<in>set es. valid_words U minLen (de_url e)"
  shows "count_list (word_ids U (new_prefix_index U es minLen maxLen) w) i =
    (if unat i < length es then word_score U minLen maxLen (de_url (es ! unat i)) w else 0)"
proof -
  let ?idx = "new_prefix_index U es minLen maxLen"
  let ?ks = "[minLen..<Suc (min maxLen (length w))]"
  have one: "count_list (ids_at (prefixes ?idx) (string_of_runes (take k w))) i =
      (if unat i < length es \<and> shares U minLen (de_url (es ! unat i)) w k then 1 else 0)"
    if k: "k \<in> set ?ks" for k
  proof -
    have d: "distinct (ids_at (prefixes ?idx) p)" for p
      using new_index_prefixes(2) strict_sorted_iff by blast
    have mem: "i \<in> set (ids_at (prefixes ?idx) (string_of_runes (take k w))) \<longleftrightarrow>
        unat i < length es \<and> shares U minLen (de_url (es ! unat i)) w k"
    proof (cases "unat i < length es")
      case True
      then have "valid_words U minLen (de_url (es ! unat i))" using ok by simp
      then show ?thesis
        using prefix_of_path [of U minLen "de_url (es ! unat i)" w k maxLen] st k True
        by (auto simp: new_index_prefixes(1) of_nat_image_iff [OF len True] stable_word_def
            less_Suc_eq_le simp del: upt_Suc)
    next
      case False
      then show ?thesis using len by (auto simp: new_index_prefixes(1) unat_of_nat_less)
    qed
    show ?thesis using d mem by (simp add: count_list_distinct)
  qed
  have "count_list (word_ids U ?idx w) i =
      (\<Sum>k\<leftarrow>?ks. count_list (ids_at (prefixes ?idx) (string_of_runes (take k w))) i)"
    by (simp add: word_ids_def generate_prefixes_stable [OF st] word_prefixes_upt
        count_list_concat_map comp_def del: upt_Suc)
  also have "\<dots> = (\<Sum>k\<leftarrow>?ks. if unat i < length es \<and> shares U minLen (de_url (es ! unat i)) w k then 1 else 0)"
    using one by (intro arg_cong [of _ _ sum_list] map_cong) auto
  finally show ?thesis by (simp add: sum_list_filter_length word_score_def del: upt_Suc)
qed

lemma word_ids_mem_new_index:
  assumes "length es \<le> 2 ^ 32" "stable_word U minLen w" "minLen \<le> length w" "minLen \<le> maxLen"
    and "\<forall>e\<in>set es. valid_words U minLen (de_url e)"
  shows "i \<in> set (word_ids U (new_prefix_index U es minLen maxLen) w) \<longleftrightarrow>
    unat i < length es \<and> shares U minLen (de_url (es ! unat i)) w minLen"
proof -
  have "i \<in> set (word_ids U (new_prefix_index U es minLen maxLen) w) \<longleftrightarrow>
      count_list (word_ids U (new_prefix_index U es minLen maxLen) w) i \<noteq> 0"
    by (simp add: count_list_0_iff)
  also have "\<dots> \<longleftrightarrow> unat i < length es \<and>
      (\<exists>k\<in>set [minLen..<Suc (min maxLen (length w))]. shares U minLen (de_url (es ! unat i)) w k)"
    using word_ids_new_index [OF assms(1,2,5)]
    by (simp add: word_score_def filter_empty_conv del: upt_Suc)
  finally show ?thesis using assms(3,4) shares_mono
    by (auto simp: less_Suc_eq_le simp del: upt_Suc)
qed

definition path_matches :: "ucd \<Rightarrow> nat \<Rightarrow> rune list list \<Rightarrow> string \<Rightarrow> bool" where
  "path_matches U minLen words path \<longleftrightarrow> list_all (\<lambda>w. shares U minLen path w minLen) words"

lemma all_matches_new_index:
  assumes "length es \<le> 2 ^ 32" "minLen \<le> maxLen" "words \<noteq> []"
    and "\<forall>w\<in>set words. stable_word U minLen w \<and> minLen \<le> length w"
    and "\<forall>e\<in>set es. valid_words U minLen (de_url e)"
  shows "all_matches U (new_prefix_index U es minLen maxLen) words =
    {i. unat i < length es \<and> path_matches U minLen words (de_url (es ! unat i))}"
  using assms word_ids_mem_new_index [OF assms(1) _ _ assms(2,5)]
  by (auto simp: all_matches_def path_matches_def list_all_iff) (metis list.set_intros(1) neq_Nil_conv)

lemma total_count_new_index:
  assumes "length es \<le> 2 ^ 32" "\<forall>w\<in>set words. stable_word U minLen w"
    and "\<forall>e\<in>set es. valid_words U minLen (de_url e)" "unat i < length es"
  shows "total_count U (new_prefix_index U es minLen maxLen) words i =
    words_score U minLen maxLen (de_url (es ! unat i)) words"
  using assms word_ids_new_index [OF assms(1) _ assms(3)]
  by (simp add: total_count_def words_score_def cong: map_cong)

lemma new_index_path:
  "length es \<le> 2 ^ 32 \<Longrightarrow> unat i < length es \<Longrightarrow>
   lower_cased_path (new_prefix_index U es minLen maxLen) i = to_lower U (de_url (es ! unat i))"
  by (simp add: lower_cased_path_def new_index_lower_cased new_index_entries new_index_entry_def)

text \<open>The hit of entry \<open>n\<close>, as the specification describes it.\<close>

definition spec_hit :: "ucd \<Rightarrow> nat \<Rightarrow> nat \<Rightarrow> dir_entry list \<Rightarrow> rune list list \<Rightarrow> nat \<Rightarrow> search_hit" where
  "spec_hit U minLen maxLen es words n =
     \<lparr>sh_id = of_nat n,
      sh_score = enat (float32_of_nat (words_score U minLen maxLen (de_url (es ! n)) words)),
      sh_path = to_lower U (de_url (es ! n))\<rparr>"

lemma search_by_prefixes_spec:
  assumes it: "map_iteration iter"
    and len: "length es \<le> 2 ^ 32" "minLen \<le> maxLen" "words \<noteq> []"
    and w: "\<forall>w\<in>set words. stable_word U minLen w \<and> minLen \<le> length w"
    and e: "\<forall>e\<in>set es. valid_words U minLen (de_url e)"
  shows "set (search_by_prefixes U iter (new_prefix_index U es minLen maxLen) words) =
      spec_hit U minLen maxLen es words `
        {n. n < length es \<and> path_matches U minLen words (de_url (es ! n))}"
    and "distinct (search_by_prefixes U iter (new_prefix_index U es minLen maxLen) words)"
proof -
  let ?idx = "new_prefix_index U es minLen maxLen"
  let ?A = "{i :: u32. unat i < length es \<and> path_matches U minLen words (de_url (es ! unat i))}"
  let ?f = "\<lambda>i. new_search_hit ?idx i (enat (float32_of_nat (total_count U ?idx words i)))"
  have eq: "search_by_prefixes U iter ?idx words = map ?f (iter ?A)"
    using search_by_prefixes_eq [OF it len(3), of ?idx U] all_matches_new_index [OF len w e] w by simp
  have f: "?f i = spec_hit U minLen maxLen es words (unat i)" if "i \<in> ?A" for i
    using that total_count_new_index [OF len(1) _ e, of words i maxLen] w len(1)
    by (simp add: new_search_hit_def spec_hit_def new_index_path)
  have "unat ` ?A = {n. n < length es \<and> path_matches U minLen words (de_url (es ! n))}"
    (is "_ = ?N")
  proof
    show "?N \<subseteq> unat ` ?A"
    proof
      fix n assume "n \<in> ?N"
      moreover from this len(1) have "unat (of_nat n :: u32) = n" by (simp add: unat_of_nat_less)
      ultimately show "n \<in> unat ` ?A" by (intro image_eqI [of _ unat "of_nat n"]) auto
    qed
  qed auto
  moreover have "set (search_by_prefixes U iter ?idx words) = spec_hit U minLen maxLen es words ` unat ` ?A"
    using eq f map_iteration.iter_set [OF it, of ?A] by (simp add: image_image cong: image_cong_simp)
  ultimately show "set (search_by_prefixes U iter ?idx words) =
      spec_hit U minLen maxLen es words `
        {n. n < length es \<and> path_matches U minLen words (de_url (es ! n))}" by simp
  show "distinct (search_by_prefixes U iter ?idx words)"
    using eq map_iteration.iter_distinct [OF it, of ?A]
    by (simp add: distinct_map inj_on_def new_search_hit_def)
qed

end
