(* ===== verification/Search.thy ===== *)
theory Search
  imports PrefixSearch
begin

text \<open>
  prefixIndex.Search of search/prefix_index.go: choosing the hits, the exact and exclude
  filters, compactSearchHits, the final order and the limit. slices.SortFunc and the
  iteration over maps are arguments (sort_contract, map_iteration).
\<close>

record hit =
  hit_path :: string
  hit_is_dir :: bool
  hit_size :: int
  hit_mod_time :: int
  hit_score :: enat

section \<open>The filters\<close>

definition delete_iter :: "('a \<Rightarrow> bool) \<Rightarrow> 'a list \<Rightarrow> 'a list" where
  "delete_iter f xs = filter (\<lambda>v. \<not> f v) xs"

definition misses_exact :: "search_request \<Rightarrow> search_hit \<Rightarrow> bool" where
  "misses_exact req h \<longleftrightarrow> list_ex (\<lambda>exact. \<not> sublist exact (sh_path h)) (sr_exact_matches req)"

definition has_excluded :: "search_request \<Rightarrow> search_hit \<Rightarrow> bool" where
  "has_excluded req h \<longleftrightarrow> list_ex (\<lambda>word. sublist word (sh_path h)) (sr_to_exclude req)"

definition search_candidates ::
  "ucd \<Rightarrow> (u32 set \<Rightarrow> u32 list) \<Rightarrow> prefix_index \<Rightarrow> search_request \<Rightarrow> search_hit list" where
  "search_candidates U iter idx req =
     (let hits =
        (if sr_words req \<noteq> [] then search_by_prefixes U iter idx (sr_words req)
         else map (\<lambda>i. new_search_hit idx i \<infinity>) (iter (Mapping.keys (entries idx))));
        hits = (if sr_exact_matches req \<noteq> [] then delete_iter (misses_exact req) hits else hits)
      in if sr_to_exclude req \<noteq> [] then delete_iter (has_excluded req) hits else hits)"

definition entry_at :: "prefix_index \<Rightarrow> u32 \<Rightarrow> index_entry" where
  "entry_at idx i =
     (case Mapping.lookup (entries idx) i of
        None \<Rightarrow> \<lparr>ie_path = [], ie_is_dir = False, ie_size = 0, ie_mod_time = 0\<rparr>
      | Some e \<Rightarrow> e)"

definition hit_of :: "prefix_index \<Rightarrow> search_hit \<Rightarrow> hit" where
  "hit_of idx h =
     (let entry = entry_at idx (sh_id h)
      in \<lparr>hit_path = ie_path entry, hit_is_dir = ie_is_dir entry, hit_size = ie_size entry,
          hit_mod_time = ie_mod_time entry, hit_score = sh_score h\<rparr>)"

section \<open>compactSearchHits\<close>

definition compare_score_path :: "hit \<Rightarrow> hit \<Rightarrow> int" where
  "compare_score_path a b =
     (let v = cmp (hit_score a) (hit_score b)
      in if v \<noteq> 0 then -1 * v else cmp (hit_path a) (hit_path b))"

definition merges_into :: "hit \<Rightarrow> hit \<Rightarrow> bool" where
  "merges_into prev hit \<longleftrightarrow>
     hit_is_dir prev \<and> hit_score hit = hit_score prev \<and> prefix (hit_path prev) (hit_path hit)"

text \<open>The loop; \<open>prev\<close> is the last element of the result so far.\<close>

fun compact_loop :: "hit \<Rightarrow> hit list \<Rightarrow> hit list" where
  "compact_loop prev [] = [prev]"
| "compact_loop prev (hit # hits) =
     (if merges_into prev hit then compact_loop prev hits else prev # compact_loop hit hits)"

definition compact_search_hits ::
  "((hit \<Rightarrow> hit \<Rightarrow> int) \<Rightarrow> hit list \<Rightarrow> hit list) \<Rightarrow> hit list \<Rightarrow> hit list" where
  "compact_search_hits sortf hits =
     (if hits = [] then hits
      else case sortf compare_score_path hits of [] \<Rightarrow> [] | h # hs \<Rightarrow> compact_loop h hs)"

section \<open>Search\<close>

definition compare_hits :: "ucd \<Rightarrow> hit \<Rightarrow> hit \<Rightarrow> int" where
  "compare_hits U a b =
     (let v = cmp (hit_score a) (hit_score b)
      in if v \<noteq> 0 then -1 * v
         else compare_by_name U (hit_is_dir a) (hit_path a) (hit_is_dir b) (hit_path b))"

definition index_search :: "ucd \<Rightarrow> (u32 set \<Rightarrow> u32 list) \<Rightarrow>
    ((hit \<Rightarrow> hit \<Rightarrow> int) \<Rightarrow> hit list \<Rightarrow> hit list) \<Rightarrow> prefix_index \<Rightarrow> string \<Rightarrow> int \<Rightarrow>
    panic + (hit list \<times> nat)" where
  "index_search U iter sortf idx search limit =
     (let req = new_search_request U search (min_prefix_len idx)
      in if sr_words req = [] \<and> sr_exact_matches req = [] \<and> sr_to_exclude req = [] then Inr ([], 0)
         else
           let res = map (hit_of idx) (search_candidates U iter idx req)
           in if res = [] then Inr ([], 0)
              else
                let res = compact_search_hits sortf res;
                    total = length res;
                    res = sortf (compare_hits U) res
                in if limit < int (length res)
                   then if limit < 0 then Inl SliceOutOfRange else Inr (take (nat limit) res, total)
                   else Inr (res, total))"

section \<open>Compaction is a filter\<close>

lemma prefix_le: "prefix a b \<Longrightarrow> a \<le> (b :: string)"
proof -
  have "a \<le> a @ z" for z by (induction a) auto
  then show "prefix a b \<Longrightarrow> a \<le> b" by (auto simp: prefix_def)
qed

lemma le_between_prefix: "a \<le> x \<Longrightarrow> x \<le> b \<Longrightarrow> prefix a b \<Longrightarrow> prefix a (x :: string)"
proof (induction a arbitrary: x b)
  case Nil
  then show ?case by simp
next
  case (Cons c a)
  obtain b' where b: "b = c # b'" "prefix a b'" using Cons.prems(3) by (cases b) auto
  obtain d y where x: "x = d # y" using Cons.prems(1) by (cases x) auto
  have "d = c" "a \<le> y" "y \<le> b'" using Cons.prems(1,2) b x by auto
  then show ?case using Cons.IH b x by simp
qed

lemma compare_score_path_less:
  "compare_score_path a b < 0 \<longleftrightarrow>
     hit_score b < hit_score a \<or> hit_score a = hit_score b \<and> hit_path a < hit_path b"
  by (auto simp: compare_score_path_def Let_def cmp_def)

text \<open>A comparison that is descending in one key and ascending in a second one.\<close>

lemma swo_on_desc:
  fixes k :: "'a \<Rightarrow> 'b::linorder" and l :: "'a \<Rightarrow> 'c::linorder"
  assumes less: "\<And>x y. x \<in> A \<Longrightarrow> y \<in> A \<Longrightarrow> c x y < 0 \<longleftrightarrow> k y < k x \<or> k x = k y \<and> l x < l y"
  shows "swo_on A c"
  unfolding swo_on_def
proof (intro conjI ballI impI)
  fix x assume "x \<in> A"
  then show "\<not> c x x < 0" by (simp add: less)
next
  fix x y z assume "x \<in> A" "y \<in> A" "z \<in> A" "c x y < 0" "c y z < 0"
  then show "c x z < 0" by (auto simp: less)
next
  fix x y z assume a: "x \<in> A" "y \<in> A" "z \<in> A" and "\<not> c x y < 0" "\<not> c y z < 0"
  then have "k x \<le> k y" "k y \<le> k z" "k x = k y \<Longrightarrow> l y \<le> l x" "k y = k z \<Longrightarrow> l z \<le> l y"
    by (auto simp: less)
  then have "k x < k z \<or> k x = k z \<and> l z \<le> l x" by fastforce
  then show "\<not> c x z < 0" using a by (auto simp: less)
qed

lemma swo_compare_score_path [simp]: "swo_on A compare_score_path"
  by (rule swo_on_desc [where k = hit_score and l = hit_path]) (auto simp: compare_score_path_less)

text \<open>The directories among the hits that make a hit superfluous.\<close>

definition covered :: "hit set \<Rightarrow> hit \<Rightarrow> bool" where
  "covered H h \<longleftrightarrow> (\<exists>d\<in>H. d \<noteq> h \<and> merges_into d h)"

lemma merges_into_trans: "merges_into a b \<Longrightarrow> merges_into b c \<Longrightarrow> merges_into a c"
  by (auto simp: merges_into_def)

lemma merges_between:
  assumes "\<not> compare_score_path b a < 0" "\<not> compare_score_path c b < 0" "merges_into a c"
  shows "merges_into a b"
proof -
  have "hit_score a = hit_score c" "prefix (hit_path a) (hit_path c)"
    using assms(3) by (auto simp: merges_into_def)
  moreover from this have "hit_score b = hit_score c" "hit_path a \<le> hit_path b" "hit_path b \<le> hit_path c"
    using assms(1,2) by (auto simp: compare_score_path_less not_less)
  ultimately show ?thesis using assms(3) le_between_prefix by (auto simp: merges_into_def)
qed

lemma merges_order: "merges_into d h \<Longrightarrow> \<not> compare_score_path d h < 0 \<Longrightarrow> hit_path d = hit_path h"
  by (auto simp: merges_into_def compare_score_path_less dest: prefix_le)

lemma compact_loop_ne [simp]: "compact_loop h hs \<noteq> []"
  by (induction h hs rule: compact_loop.induct) auto

lemma compact_search_hits_Nil_iff:
  "sort_contract sortf \<Longrightarrow> compact_search_hits sortf hits = [] \<longleftrightarrow> hits = []"
  using sort_contract.sortf_Nil_iff [of sortf compare_score_path hits]
  by (simp add: compact_search_hits_def split: list.split)

lemma no_late_merge:
  assumes "sorted_cmp compare_score_path (h # hs)" "distinct (map hit_path (h # hs))" "x \<in> set hs"
  shows "\<not> merges_into x h"
proof
  assume "merges_into x h"
  moreover have "\<not> compare_score_path x h < 0" using assms(1,3) by (simp add: sorted_cmp_def)
  ultimately have "hit_path x = hit_path h" by (rule merges_order)
  moreover have "hit_path h \<notin> hit_path ` set hs" using assms(2) by simp
  ultimately show False using assms(3) by (metis imageI)
qed

lemma compact_loop_eq:
  "sorted_cmp compare_score_path (prev # hits) \<Longrightarrow> distinct (map hit_path (prev # hits)) \<Longrightarrow>
   compact_loop prev hits = prev # filter (\<lambda>h. \<not> covered (set (prev # hits)) h) hits"
proof (induction prev hits rule: compact_loop.induct)
  case (1 prev)
  then show ?case by simp
next
  case (2 prev h hs)
  have sorted_h: "sorted_cmp compare_score_path (h # hs)" and sorted_l: "sorted_cmp compare_score_path (prev # hs)"
    using 2(3) by (auto simp: sorted_cmp_def)
  have late: "\<not> merges_into x h" if "x \<in> set hs" for x
    using no_late_merge [OF sorted_h _ that] 2(4) by simp
  show ?case
  proof (cases "merges_into prev h")
    case True
    have "covered (set (prev # hs)) x = covered (set (prev # h # hs)) x" if "x \<in> set hs" for x
      using True merges_into_trans [OF True, of x] that 2(4) by (auto simp: covered_def)
    moreover have "covered (set (prev # h # hs)) h" using True 2(4) by (auto simp: covered_def)
    ultimately show ?thesis using True 2(1) [OF True sorted_l] 2(4) by (simp cong: filter_cong)
  next
    case False
    have no: "\<not> merges_into prev x" if "x \<in> set hs" for x
      using merges_between [of h prev x] 2(3) False that by (auto simp: sorted_cmp_def)
    then have "covered (set (h # hs)) x = covered (set (prev # h # hs)) x" if "x \<in> set hs" for x
      using that by (auto simp: covered_def)
    moreover have "\<not> covered (set (prev # h # hs)) h" using False late by (auto simp: covered_def)
    ultimately show ?thesis using False 2(2) [OF False sorted_h] 2(4) by (simp cong: filter_cong)
  qed
qed

text \<open>
  For hits with distinct paths, compactSearchHits keeps exactly those that no directory of
  the hits with the same score contains.
\<close>

lemma compact_search_hits_mset:
  assumes "sort_contract sortf" "distinct (map hit_path hits)"
  shows "mset (compact_search_hits sortf hits) = mset (filter (\<lambda>h. \<not> covered (set hits) h) hits)"
proof (cases "sortf compare_score_path hits")
  case Nil
  then have "hits = []" using sort_contract.sortf_Nil_iff [OF assms(1)] by simp
  then show ?thesis by (simp add: compact_search_hits_def)
next
  case (Cons h hs)
  have ne: "hits \<noteq> []"
    using Cons sort_contract.sortf_Nil_iff [OF assms(1), of compare_score_path hits] by simp
  have m: "mset (h # hs) = mset hits" using Cons sort_contract.sortf_mset [OF assms(1)] by metis
  then have s: "set (h # hs) = set hits" by (metis set_mset_mset)
  have "mset (map hit_path (h # hs)) = mset (map hit_path hits)" using m by (metis mset_map)
  then have d: "distinct (map hit_path (h # hs))" using assms(2) by (metis mset_eq_imp_distinct_iff)
  have o: "sorted_cmp compare_score_path (h # hs)"
    using sort_contract.sortf_sorted [OF assms(1), of hits compare_score_path] Cons by simp
  have first: "\<not> covered (set (h # hs)) h"
    using no_late_merge [OF o d] by (auto simp: covered_def)
  have "compact_search_hits sortf hits = compact_loop h hs"
    using ne Cons by (simp add: compact_search_hits_def)
  also have "\<dots> = filter (\<lambda>x. \<not> covered (set (h # hs)) x) (h # hs)"
    unfolding compact_loop_eq [OF o d] using first by (simp only: filter.simps not_False_eq_True if_True)
  finally have "compact_search_hits sortf hits = filter (\<lambda>x. \<not> covered (set hits) x) (h # hs)"
    by (simp only: s)
  then show ?thesis using m by (metis mset_filter)
qed

section \<open>The order of the results\<close>

lemma compare_hits_less:
  assumes "canonical_name U (hit_is_dir a) (hit_path a)" "canonical_name U (hit_is_dir b) (hit_path b)"
  shows "compare_hits U a b < 0 \<longleftrightarrow>
    hit_score b < hit_score a \<or>
    hit_score a = hit_score b \<and>
      (\<not> hit_is_dir a, name_tokens U (hit_is_dir a) (hit_path a))
        < (\<not> hit_is_dir b, name_tokens U (hit_is_dir b) (hit_path b))"
  using compare_by_name_less [OF assms] by (auto simp: compare_hits_def Let_def cmp_def)

lemma swo_compare_hits:
  assumes "\<forall>h\<in>A. canonical_name U (hit_is_dir h) (hit_path h)"
  shows "swo_on A (compare_hits U)"
  using assms compare_hits_less
  by (intro swo_on_desc [where k = hit_score
        and l = "\<lambda>h. (\<not> hit_is_dir h, name_tokens U (hit_is_dir h) (hit_path h))"]) blast

section \<open>The outcome of Search\<close>

text \<open>What Search does once it has the hits: compact, sort, cut.\<close>

definition finish_search ::
  "ucd \<Rightarrow> ((hit \<Rightarrow> hit \<Rightarrow> int) \<Rightarrow> hit list \<Rightarrow> hit list) \<Rightarrow> hit list \<Rightarrow> int \<Rightarrow> panic + (hit list \<times> nat)" where
  "finish_search U sortf res limit =
     (let all = sortf (compare_hits U) (compact_search_hits sortf res)
      in if limit < 0 \<and> all \<noteq> [] then Inl SliceOutOfRange else Inr (take (nat limit) all, length all))"

lemma finish_search_Nil: "sort_contract sortf \<Longrightarrow> finish_search U sortf [] limit = Inr ([], 0)"
  by (simp add: finish_search_def compact_search_hits_def sort_contract.sortf_Nil_iff Let_def)

lemma index_search_eq:
  assumes "sort_contract sortf"
  shows "index_search U iter sortf idx search limit =
    (let req = new_search_request U search (min_prefix_len idx)
     in if sr_words req = [] \<and> sr_exact_matches req = [] \<and> sr_to_exclude req = [] then Inr ([], 0)
        else finish_search U sortf (map (hit_of idx) (search_candidates U iter idx req)) limit)"
proof -
  have l: "length (sortf c xs) = length xs" for c and xs :: "hit list"
    using assms by (rule sort_contract.sortf_length)
  have n: "sortf c xs = [] \<longleftrightarrow> xs = []" for c and xs :: "hit list"
    using assms by (rule sort_contract.sortf_Nil_iff)
  show ?thesis
    by (simp add: index_search_def Let_def finish_search_def l n compact_search_hits_Nil_iff [OF assms])
qed

end
