(* ===== verification/SearchSpec.thy ===== *)
theory SearchSpec
  imports Search
begin

text \<open>
  What a search returns, stated over the listed entries and the parsed query, without the
  index: which entries match, with what score, which of them the directories absorb, in what
  order they come and where the list is cut. Search on a new index meets this
  specification; ASCII queries meet its hypotheses, and a word of a path finds that path.
\<close>

definition entry_matches :: "ucd \<Rightarrow> nat \<Rightarrow> search_request \<Rightarrow> string \<Rightarrow> bool" where
  "entry_matches U minLen req path \<longleftrightarrow>
     path_matches U minLen (sr_words req) path
     \<and> list_all (\<lambda>exact. sublist exact (to_lower U path)) (sr_exact_matches req)
     \<and> list_all (\<lambda>word. \<not> sublist word (to_lower U path)) (sr_to_exclude req)"

definition entry_score :: "ucd \<Rightarrow> nat \<Rightarrow> nat \<Rightarrow> search_request \<Rightarrow> string \<Rightarrow> enat" where
  "entry_score U minLen maxLen req path =
     (if sr_words req = [] then \<infinity>
      else enat (float32_of_nat (words_score U minLen maxLen path (sr_words req))))"

definition entry_hit :: "ucd \<Rightarrow> nat \<Rightarrow> nat \<Rightarrow> search_request \<Rightarrow> dir_entry \<Rightarrow> hit" where
  "entry_hit U minLen maxLen req e =
     \<lparr>hit_path = de_url e, hit_is_dir = de_is_dir e, hit_size = de_size e,
      hit_mod_time = de_mod_time e, hit_score = entry_score U minLen maxLen req (de_url e)\<rparr>"

definition spec_hits :: "ucd \<Rightarrow> nat \<Rightarrow> nat \<Rightarrow> dir_entry list \<Rightarrow> search_request \<Rightarrow> hit list" where
  "spec_hits U minLen maxLen es req =
     map (entry_hit U minLen maxLen req) (filter (\<lambda>e. entry_matches U minLen req (de_url e)) es)"

definition top_hits :: "hit list \<Rightarrow> hit list" where
  "top_hits hits = filter (\<lambda>h. \<not> covered (set hits) h) hits"

definition empty_query :: "search_request \<Rightarrow> bool" where
  "empty_query req \<longleftrightarrow> sr_words req = [] \<and> sr_exact_matches req = [] \<and> sr_to_exclude req = []"

definition stable_query :: "ucd \<Rightarrow> nat \<Rightarrow> string \<Rightarrow> bool" where
  "stable_query U minLen search \<longleftrightarrow>
     list_all (stable_word U minLen) (sr_words (new_search_request U search minLen))"

text \<open>The hypotheses on a listing: few enough entries, distinct paths, words of code points.\<close>

definition wf_listing :: "ucd \<Rightarrow> nat \<Rightarrow> dir_entry list \<Rightarrow> bool" where
  "wf_listing U minLen es \<longleftrightarrow>
     length es \<le> 2 ^ 32 \<and> distinct (map de_url es) \<and> list_all (\<lambda>e. valid_words U minLen (de_url e)) es"

section \<open>The candidates\<close>

lemma search_candidates_filter:
  "search_candidates U iter idx req =
     filter (\<lambda>h. \<not> misses_exact req h \<and> \<not> has_excluded req h)
       (if sr_words req \<noteq> [] then search_by_prefixes U iter idx (sr_words req)
        else map (\<lambda>i. new_search_hit idx i \<infinity>) (iter (Mapping.keys (entries idx))))"
  by (auto simp: search_candidates_def delete_iter_def misses_exact_def has_excluded_def Let_def
      intro!: filter_cong)

lemma entry_at_new_index:
  "length es \<le> 2 ^ 32 \<Longrightarrow> n < length es \<Longrightarrow>
   entry_at (new_prefix_index U es minLen maxLen) (of_nat n) = new_index_entry (es ! n)"
  by (simp add: entry_at_def new_index_entries unat_of_nat_less)

text \<open>All entries, when the query has no words.\<close>

lemma all_entries_spec:
  assumes it: "map_iteration iter" and len: "length es \<le> 2 ^ 32"
  shows "set (map (\<lambda>i. new_search_hit (new_prefix_index U es minLen maxLen) i \<infinity>)
      (iter (Mapping.keys (entries (new_prefix_index U es minLen maxLen))))) =
    (\<lambda>n. \<lparr>sh_id = of_nat n, sh_score = \<infinity>, sh_path = to_lower U (de_url (es ! n))\<rparr>) ` {n. n < length es}"
    (is "set (map ?f (iter ?K)) = ?g ` ?N")
proof -
  have K: "?K = {i. unat i < length es}" using len by (rule new_index_keys)
  have "set (map ?f (iter ?K)) = ?f ` ?K" using map_iteration.iter_set [OF it, of ?K] by simp
  also have "\<dots> = ?g ` unat ` ?K"
    unfolding image_image K using len
    by (intro image_cong) (simp_all add: new_search_hit_def new_index_path)
  also have "unat ` ?K = ?N"
  proof
    show "?N \<subseteq> unat ` ?K"
    proof
      fix n assume "n \<in> ?N"
      moreover from this len have "unat (of_nat n :: u32) = n" by (simp add: unat_of_nat_less)
      ultimately show "n \<in> unat ` ?K" unfolding K by (intro image_eqI [of _ unat "of_nat n"]) auto
    qed
  qed (auto simp: K)
  finally show ?thesis .
qed

lemma all_entries_distinct:
  "map_iteration iter \<Longrightarrow>
   distinct (map (\<lambda>i. new_search_hit idx i s) (iter (A :: u32 set)))"
  using map_iteration.iter_distinct [of iter A]
  by (simp add: distinct_map inj_on_def new_search_hit_def)

text \<open>The hit of entry \<open>n\<close> for a request.\<close>

definition request_hit ::
  "ucd \<Rightarrow> nat \<Rightarrow> nat \<Rightarrow> dir_entry list \<Rightarrow> search_request \<Rightarrow> nat \<Rightarrow> search_hit" where
  "request_hit U minLen maxLen es req n =
     \<lparr>sh_id = of_nat n, sh_score = entry_score U minLen maxLen req (de_url (es ! n)),
      sh_path = to_lower U (de_url (es ! n))\<rparr>"

lemma candidates_new_index:
  assumes it: "map_iteration iter" and wf: "wf_listing U minLen es" and le: "minLen \<le> maxLen"
    and w: "\<forall>w\<in>set (sr_words req). stable_word U minLen w \<and> minLen \<le> length w"
  shows "set (search_candidates U iter (new_prefix_index U es minLen maxLen) req) =
      request_hit U minLen maxLen es req ` {n. n < length es \<and> entry_matches U minLen req (de_url (es ! n))}"
    and "distinct (search_candidates U iter (new_prefix_index U es minLen maxLen) req)"
proof -
  let ?idx = "new_prefix_index U es minLen maxLen"
  have len: "length es \<le> 2 ^ 32" and v: "\<forall>e\<in>set es. valid_words U minLen (de_url e)"
    using wf by (auto simp: wf_listing_def list_all_iff)
  let ?c = "if sr_words req \<noteq> [] then search_by_prefixes U iter ?idx (sr_words req)
        else map (\<lambda>i. new_search_hit ?idx i \<infinity>) (iter (Mapping.keys (entries ?idx)))"
  let ?h = "request_hit U minLen maxLen es req"
  have c: "set ?c = ?h ` {n. n < length es \<and> path_matches U minLen (sr_words req) (de_url (es ! n))}"
  proof (cases "sr_words req = []")
    case True
    then show ?thesis using all_entries_spec [OF it len, of U minLen maxLen]
      by (simp add: request_hit_def [abs_def] entry_score_def path_matches_def)
  next
    case False
    then show ?thesis using search_by_prefixes_spec(1) [OF it len le False w v]
      by (simp add: request_hit_def [abs_def] entry_score_def spec_hit_def [abs_def])
  qed
  have "distinct ?c"
    using search_by_prefixes_spec(2) [OF it len le _ w v] all_entries_distinct [OF it]
    by (cases "sr_words req = []") auto
  then show "distinct (search_candidates U iter ?idx req)"
    by (simp only: search_candidates_filter distinct_filter)
  have "set (search_candidates U iter ?idx req) =
      {h \<in> set ?c. \<not> misses_exact req h \<and> \<not> has_excluded req h}"
    by (simp only: search_candidates_filter set_filter)
  also have "\<dots> = ?h ` {n. n < length es \<and> entry_matches U minLen req (de_url (es ! n))}"
    unfolding c
    by (auto simp: entry_matches_def misses_exact_def has_excluded_def request_hit_def
        list_all_iff list_ex_iff)
  finally show "set (search_candidates U iter ?idx req) =
      ?h ` {n. n < length es \<and> entry_matches U minLen req (de_url (es ! n))}" .
qed

lemma hit_of_request_hit:
  assumes "length es \<le> 2 ^ 32" "n < length es"
  shows "hit_of (new_prefix_index U es minLen maxLen) (request_hit U minLen maxLen es req n) =
    entry_hit U minLen maxLen req (es ! n)"
  using entry_at_new_index [OF assms, of U minLen maxLen]
  by (simp add: hit_of_def request_hit_def new_index_entry_def entry_hit_def)

lemma spec_hits_paths: "distinct (map de_url es) \<Longrightarrow> distinct (map hit_path (spec_hits U a b es req))"
  by (simp add: spec_hits_def entry_hit_def comp_def distinct_map_filter)

lemma candidates_mset:
  assumes "map_iteration iter" "wf_listing U minLen es" "minLen \<le> maxLen"
    and "\<forall>w\<in>set (sr_words req). stable_word U minLen w \<and> minLen \<le> length w"
  shows "mset (map (hit_of (new_prefix_index U es minLen maxLen))
      (search_candidates U iter (new_prefix_index U es minLen maxLen) req)) =
    mset (spec_hits U minLen maxLen es req)"
proof -
  let ?idx = "new_prefix_index U es minLen maxLen"
  let ?c = "search_candidates U iter ?idx req"
  let ?N = "{n. n < length es \<and> entry_matches U minLen req (de_url (es ! n))}"
  have len: "length es \<le> 2 ^ 32" and d: "distinct (map de_url es)"
    using assms(2) by (auto simp: wf_listing_def)
  note cand = candidates_new_index [OF assms]
  have im: "set (map (hit_of ?idx) ?c) = (\<lambda>n. entry_hit U minLen maxLen req (es ! n)) ` ?N"
    using hit_of_request_hit [OF len] by (simp add: cand(1) image_image cong: image_cong_simp)
  also have "\<dots> = set (spec_hits U minLen maxLen es req)"
    by (auto simp: spec_hits_def in_set_conv_nth)
  finally have s: "set (map (hit_of ?idx) ?c) = set (spec_hits U minLen maxLen es req)" .
  have "inj_on (hit_of ?idx) (set ?c)"
  proof (rule inj_onI)
    fix x y assume "x \<in> set ?c" "y \<in> set ?c" and eq: "hit_of ?idx x = hit_of ?idx y"
    then obtain m n where m: "m < length es" "x = request_hit U minLen maxLen es req m"
      and n: "n < length es" "y = request_hit U minLen maxLen es req n"
      unfolding cand(1) by auto
    then have "de_url (es ! m) = de_url (es ! n)"
      using eq hit_of_request_hit [OF len] by (simp add: entry_hit_def)
    then have "m = n" using d m(1) n(1) nth_eq_iff_index_eq [OF d, of m n] by simp
    then show "x = y" using m n by simp
  qed
  then have "distinct (map (hit_of ?idx) ?c)" using cand(2) by (simp add: distinct_map)
  moreover have "distinct (spec_hits U minLen maxLen es req)"
    using spec_hits_paths [OF d] by (simp only: distinct_map)
  ultimately show ?thesis using s set_eq_iff_mset_eq_distinct by blast
qed

section \<open>Search on a new index\<close>

lemma long_query_words:
  "w \<in> set (sr_words (new_search_request U search n)) \<Longrightarrow> n \<le> length w"
  using wf_new_search_request [of n U search] by (simp add: wf_request_def list_all_iff)

lemma mset_top_hits:
  assumes "mset xs = mset ys"
  shows "mset (top_hits xs) = mset (top_hits ys)"
  unfolding top_hits_def using assms by (metis mset_filter set_mset_mset)

text \<open>The answer to a query: the hits left after compaction, in some order, cut at the limit.\<close>

definition cut_hits :: "hit list \<Rightarrow> int \<Rightarrow> panic + (hit list \<times> nat)" where
  "cut_hits all limit =
     (if limit < 0 \<and> all \<noteq> [] then Inl SliceOutOfRange else Inr (take (nat limit) all, length all))"

lemma finish_search_spec:
  assumes sc: "sort_contract sortf" and d: "distinct (map hit_path hits)"
    and m: "mset res = mset hits"
  obtains all where "mset all = mset (top_hits hits)"
    "finish_search U sortf res limit = cut_hits all limit"
    "(\<forall>h\<in>set hits. canonical_name U (hit_is_dir h) (hit_path h)) \<longrightarrow> sorted_cmp (compare_hits U) all"
proof -
  let ?c = "compact_search_hits sortf res"
  let ?all = "sortf (compare_hits U) ?c"
  have "mset (map hit_path res) = mset (map hit_path hits)" using m by (metis mset_map)
  then have "distinct (map hit_path res)" using d by (metis mset_eq_imp_distinct_iff)
  then have c: "mset ?c = mset (top_hits hits)"
    using compact_search_hits_mset [OF sc] mset_top_hits [OF m] by (simp add: top_hits_def)
  then have 1: "mset ?all = mset (top_hits hits)" using sort_contract.sortf_mset [OF sc] by metis
  have 2: "finish_search U sortf res limit = cut_hits ?all limit"
    by (simp add: finish_search_def cut_hits_def Let_def)
  have "set ?c \<subseteq> set hits" using arg_cong [OF c, of set_mset] by (simp add: top_hits_def)
  then have 3: "(\<forall>h\<in>set hits. canonical_name U (hit_is_dir h) (hit_path h)) \<longrightarrow>
      sorted_cmp (compare_hits U) ?all"
    using swo_compare_hits by (intro impI sort_contract.sortf_sorted [OF sc]) blast
  show ?thesis by (rule that [OF 1 2 3])
qed

lemma search_new_index:
  assumes it: "map_iteration iter" and sc: "sort_contract sortf"
    and wf: "wf_listing U minLen es" and le: "minLen \<le> maxLen"
    and q: "stable_query U minLen search"
    and ne: "\<not> empty_query (new_search_request U search minLen)"
  obtains all where
    "mset all = mset (top_hits (spec_hits U minLen maxLen es (new_search_request U search minLen)))"
    "index_search U iter sortf (new_prefix_index U es minLen maxLen) search limit = cut_hits all limit"
    "(\<forall>e\<in>set es. canonical_name U (de_is_dir e) (de_url e)) \<longrightarrow> sorted_cmp (compare_hits U) all"
proof -
  let ?req = "new_search_request U search minLen"
  let ?idx = "new_prefix_index U es minLen maxLen"
  let ?hits = "spec_hits U minLen maxLen es ?req"
  have w: "\<forall>w\<in>set (sr_words ?req). stable_word U minLen w \<and> minLen \<le> length w"
    using q long_query_words by (auto simp: stable_query_def list_all_iff)
  have d: "distinct (map hit_path ?hits)" using wf by (auto simp: wf_listing_def intro: spec_hits_paths)
  obtain all where all: "mset all = mset (top_hits ?hits)"
    "finish_search U sortf (map (hit_of ?idx) (search_candidates U iter ?idx ?req)) limit = cut_hits all limit"
    "(\<forall>h\<in>set ?hits. canonical_name U (hit_is_dir h) (hit_path h)) \<longrightarrow> sorted_cmp (compare_hits U) all"
    using finish_search_spec [OF sc d candidates_mset [OF it wf le w], of U limit] .
  have "index_search U iter sortf ?idx search limit = cut_hits all limit"
    using index_search_eq [OF sc, of U iter ?idx search limit] ne all(2)
    by (auto simp: empty_query_def Let_def)
  moreover have "(\<forall>e\<in>set es. canonical_name U (de_is_dir e) (de_url e)) \<longrightarrow>
      sorted_cmp (compare_hits U) all"
    using all(3) by (auto simp: spec_hits_def entry_hit_def)
  ultimately show ?thesis using that all(1) by blast
qed

section \<open>ASCII queries\<close>

lemma chunks_ascii: "is_ascii s \<Longrightarrow> chunks s = map (\<lambda>c. (byte c, [c])) s"
  by (induction s) (auto simp: decode_rune_def Let_def)

lemma set_trim_space_ascii: "is_ascii s \<Longrightarrow> set (trim_space s) \<subseteq> set s"
  by (auto simp: trim_space_def Let_def chunks_ascii dest!: set_dropWhileD)

lemma is_ascii_subset: "is_ascii s \<Longrightarrow> set t \<subseteq> set s \<Longrightarrow> is_ascii t"
  by (auto simp: is_ascii_def list_all_iff)

lemma read_until_sets:
  "set (fst (read_until u s)) \<subseteq> set s" "set (snd (read_until u s)) \<subseteq> set s"
  by (auto simp: read_until_def dest: set_takeWhileD set_dropWhileD in_set_dropD)

lemma term_start_set: "term_start c s = (k, u, rest) \<Longrightarrow> set rest \<subseteq> set (c # s)"
  by (auto simp: term_start_def split: if_splits list.splits)

lemma request_loop_ascii:
  "nfkd_ascii U \<Longrightarrow> is_ascii s \<Longrightarrow> list_all (list_all norm_ascii_rune) (sr_words req) \<Longrightarrow>
   list_all (list_all norm_ascii_rune) (sr_words (request_loop U n s req))"
proof (induction U n s req rule: request_loop.induct)
  case (1 U n req)
  then show ?case by simp
next
  case (2 U n c s req)
  obtain k u rest where t: "term_start c s = (k, u, rest)" by (cases "term_start c s")
  obtain w0 rest' where r: "read_until u rest = (w0, rest')" by (cases "read_until u rest")
  have "is_ascii rest" by (rule is_ascii_subset [OF 2(5) term_start_set [OF t]])
  then have a: "is_ascii w0" "is_ascii rest'"
    using read_until_sets [of u rest] r is_ascii_subset by auto
  then have w: "is_ascii (trim_space w0)" using is_ascii_subset set_trim_space_ascii by blast
  have add: "list_all (list_all norm_ascii_rune) (sr_words (add_term U n k (trim_space w0) req))"
    using 2(4,6) w split_words_ascii by (cases k) (auto simp: add_term_def list_all_iff)
  show ?case using 2 t r a add by (auto simp: request_loop.simps(2) Let_def)
qed

lemma ascii_query_words:
  assumes "nfkd_ascii U" "is_ascii search"
  shows "list_all (list_all norm_ascii_rune) (sr_words (new_search_request U search n))"
  unfolding new_search_request_def using assms
  by (intro request_loop_ascii) (auto simp: empty_request_def)

lemma ascii_query_stable:
  assumes "nfkd_ascii U" "is_ascii search"
  shows "stable_query U n search"
  using ascii_query_words [OF assms, of n] long_query_words [of _ U search n] stable_word_ascii [OF assms(1)]
  by (auto simp: stable_query_def list_all_iff)

lemma ascii_valid_words: "nfkd_ascii U \<Longrightarrow> is_ascii path \<Longrightarrow> valid_words U n path"
  using split_words_ascii [of U path _ n] norm_ascii_rune_facts [where U = U]
  by (fastforce simp: valid_words_def list_all_iff)

section \<open>A word of a path finds the path\<close>

lemma string_of_norm_runes:
  "list_all norm_ascii_rune w \<Longrightarrow> c \<in> set (string_of_runes w) \<Longrightarrow> norm_ascii_rune (byte c)"
  by (induction w) (auto simp: string_of_runes_def encode_rune_def norm_ascii_rune_def is_digit_rune_def)

lemma byte_char_of_small [simp]: "byte CHR 0x22 = 34" "byte CHR ''-'' = 45" "byte CHR '' '' = 32"
  by simp_all

lemma query_of_word:
  assumes U: "nfkd_ascii U" and w: "list_all norm_ascii_rune w" "w \<noteq> []" "n \<le> length w"
  shows "new_search_request U (string_of_runes w) n =
    \<lparr>sr_words = [w], sr_exact_matches = [], sr_to_exclude = []\<rparr>"
proof -
  let ?s = "string_of_runes w"
  have b: "norm_ascii_rune (byte c)" if "c \<in> set ?s" for c using that w(1) string_of_norm_runes by blast
  have asc: "is_ascii ?s"
    using b norm_ascii_rune_facts [where U = U] by (auto simp: is_ascii_def list_all_iff)
  have low: "to_lower U ?s = ?s"
    unfolding to_lower_ascii [OF asc]
  proof (rule map_idI)
    fix c assume "c \<in> set ?s"
    then have "\<not> (65 \<le> byte c \<and> byte c \<le> 90)"
      using b [of c] by (auto simp: norm_ascii_rune_def is_digit_rune_def)
    then show "lower_char c = c" by (simp only: lower_char_def if_False)
  qed
  have sp: "\<not> is_space (byte c)" if "c \<in> set ?s" for c
    using b [OF that] by (auto simp: is_space_def norm_ascii_rune_def is_digit_rune_def)
  have dw: "dropWhile (\<lambda>x. is_space (fst x)) (map (\<lambda>c. (byte c, [c])) t) = map (\<lambda>c. (byte c, [c])) t"
    if "set t \<subseteq> set ?s" for t
    using that sp by (cases t) auto
  have trim: "trim_space ?s = ?s"
    using dw [of ?s] dw [of "rev ?s"]
    by (simp add: trim_space_def Let_def chunks_ascii [OF asc] rev_map [symmetric] comp_def)
  have "runes ?s = w"
    using w(1) norm_ascii_rune_facts [where U = U] by (intro runes_string_of_runes) (auto simp: list_all_iff)
  then obtain c t where s: "?s = c # t" using w(2) by (cases ?s) auto
  have c: "c \<noteq> quote" "c \<noteq> CHR ''-''" "c \<noteq> blank" "blank \<notin> set ?s"
    using b [of c] b [of blank] s by (auto simp: norm_ascii_rune_def is_digit_rune_def)
  have "request_loop U n ?s empty_request = add_term U n KWord ?s empty_request"
    using c trim read_until_end [of blank ?s] by (simp add: s request_loop.simps(2) term_start_def)
  then show ?thesis
    using split_words_fixpoint [OF U w(1,3)] low
    by (simp add: new_search_request_def add_term_def empty_request_def)
qed

lemma covered_by_top:
  assumes "distinct (map hit_path hits)" "h \<in> set hits"
  shows "\<exists>d\<in>set (top_hits hits). d = h \<or> merges_into d h"
  using assms(2)
proof (induction "length (hit_path h)" arbitrary: h rule: less_induct)
  case less
  show ?case
  proof (cases "covered (set hits) h")
    case False
    then show ?thesis using less.prems by (auto simp: top_hits_def)
  next
    case True
    then obtain d where d: "d \<in> set hits" "d \<noteq> h" "merges_into d h" by (auto simp: covered_def)
    have p: "prefix (hit_path d) (hit_path h)" using d(3) by (simp add: merges_into_def)
    moreover have "hit_path d \<noteq> hit_path h"
      using assms(1) d(1,2) less.prems by (auto simp: distinct_map inj_on_def)
    ultimately have "length (hit_path d) < length (hit_path h)"
      by (meson prefix_length_less strict_prefixI)
    then show ?thesis using less.hyps d merges_into_trans by metis
  qed
qed

lemma top_hit_of_entry:
  assumes "distinct (map de_url es)" "e \<in> set es" "entry_matches U minLen req (de_url e)"
  shows "\<exists>d\<in>set (top_hits (spec_hits U minLen maxLen es req)). prefix (hit_path d) (de_url e)"
proof -
  have "entry_hit U minLen maxLen req e \<in> set (spec_hits U minLen maxLen es req)"
    using assms(2,3) by (auto simp: spec_hits_def)
  from covered_by_top [OF spec_hits_paths [OF assms(1)] this]
  obtain d where d: "d \<in> set (top_hits (spec_hits U minLen maxLen es req))"
      "d = entry_hit U minLen maxLen req e \<or> merges_into d (entry_hit U minLen maxLen req e)" ..
  from d(2) have "prefix (hit_path d) (de_url e)" by (auto simp: entry_hit_def merges_into_def)
  then show ?thesis using d(1) by blast
qed

lemma length_spec_hits: "length (top_hits (spec_hits U minLen maxLen es req)) \<le> length es"
  by (simp add: top_hits_def spec_hits_def le_trans [OF length_filter_le])

section \<open>The properties\<close>

text \<open>
  C1: Search on the index of a listing with distinct paths answers exactly the specification,
  for every order of map iteration and every sorting routine that keeps slices.SortFunc's
  contract: the entries that match every word, every exact and no exclude term, with their
  scores, without those a matching directory of the same score contains, cut at the limit;
  a negative limit with any result panics. When the paths have no numbers with leading zeros
  or beyond int64, the results are ordered by score and then by name.
\<close>

theorem search_meets_spec:
  assumes "map_iteration iter" "sort_contract sortf" "wf_listing U minLen es" "minLen \<le> maxLen"
    and "stable_query U minLen search" "\<not> empty_query (new_search_request U search minLen)"
  shows "\<exists>all.
    mset all = mset (top_hits (spec_hits U minLen maxLen es (new_search_request U search minLen)))
    \<and> index_search U iter sortf (new_prefix_index U es minLen maxLen) search limit = cut_hits all limit
    \<and> ((\<forall>e\<in>set es. canonical_name U (de_is_dir e) (de_url e)) \<longrightarrow> sorted_cmp (compare_hits U) all)"
  using search_new_index [OF assms] by metis

definition sample_listing :: "dir_entry list" where
  "sample_listing =
     [\<lparr>de_url = ''/cats/'', de_leaf = ''cats'', de_is_dir = True, de_size = 0, de_mod_time = 1\<rparr>,
      \<lparr>de_url = ''/cats/cat.txt'', de_leaf = ''cat.txt'', de_is_dir = False, de_size = 5, de_mod_time = 2\<rparr>]"

definition cat :: "rune list" where
  "cat = [99, 97, 116]"

lemma sample_listing_wf [simp]: "wf_listing ascii_ucd 3 sample_listing"
  by (simp add: wf_listing_def sample_listing_def ascii_valid_words)

lemma cat_norm [simp]: "list_all norm_ascii_rune cat" "cat \<noteq> []" "length cat = 3"
  by (simp_all add: cat_def norm_ascii_rune_def is_digit_rune_def)

lemma cat_query [simp]:
  "new_search_request ascii_ucd (string_of_runes cat) 3 =
     \<lparr>sr_words = [cat], sr_exact_matches = [], sr_to_exclude = []\<rparr>"
  by (rule query_of_word) simp_all

lemma cat_query_stable [simp]: "stable_query ascii_ucd 3 (string_of_runes cat)"
  using stable_word_ascii [of ascii_ucd cat 3] by (simp add: stable_query_def)

lemma search_meets_spec_witness:
  "\<exists>all.
    mset all = mset (top_hits (spec_hits ascii_ucd 3 10 sample_listing
      (new_search_request ascii_ucd (string_of_runes cat) 3)))
    \<and> index_search ascii_ucd sorted_list_of_set insertion_sort
        (new_prefix_index ascii_ucd sample_listing 3 10) (string_of_runes cat) 100 = cut_hits all 100
    \<and> ((\<forall>e\<in>set sample_listing. canonical_name ascii_ucd (de_is_dir e) (de_url e)) \<longrightarrow>
        sorted_cmp (compare_hits ascii_ucd) all)"
  by (rule search_meets_spec [OF word_order.map_iteration_axioms ins_sort.sort_contract_axioms])
    (simp_all add: empty_query_def)

text \<open>
  Every word of at least minLen letters and digits in an ASCII path of the listing is a query
  that finds the path: one of the hits is the path or a directory that contains it. All scores
  are finite.
\<close>

lemma search_finds_own_words:
  assumes "map_iteration iter" "sort_contract sortf" "nfkd_ascii U" "wf_listing U minLen es"
    and "0 < minLen" "minLen \<le> maxLen" "int (length es) \<le> limit"
    and "e \<in> set es" "is_ascii (de_url e)" "w \<in> set (split_to_normalized_words U (de_url e) minLen)"
  shows "\<exists>hits total.
    index_search U iter sortf (new_prefix_index U es minLen maxLen) (string_of_runes w) limit
      = Inr (hits, total)
    \<and> (\<exists>h\<in>set hits. prefix (hit_path h) (de_url e)) \<and> (\<forall>h\<in>set hits. hit_score h \<noteq> \<infinity>)"
proof -
  let ?req = "new_search_request U (string_of_runes w) minLen"
  let ?top = "top_hits (spec_hits U minLen maxLen es ?req)"
  have w: "list_all norm_ascii_rune w" "minLen \<le> length w"
    using split_words_ascii [OF assms(3,9,10)] split_words_length [OF assms(10)] .
  then have req: "?req = \<lparr>sr_words = [w], sr_exact_matches = [], sr_to_exclude = []\<rparr>"
    using assms(3,5) by (intro query_of_word) auto
  then have q: "stable_query U minLen (string_of_runes w)" "\<not> empty_query ?req"
    using stable_word_ascii [OF assms(3) w] by (simp_all add: stable_query_def empty_query_def)
  obtain all where all: "mset all = mset ?top"
    "index_search U iter sortf (new_prefix_index U es minLen maxLen) (string_of_runes w) limit
      = cut_hits all limit"
    using search_new_index [OF assms(1,2,4,6) q] .
  have "entry_matches U minLen ?req (de_url e)"
    using assms(10) split_words_length [OF assms(10)]
    by (auto simp: req entry_matches_def path_matches_def shares_def list_ex_iff)
  then obtain h where h: "h \<in> set ?top" "prefix (hit_path h) (de_url e)"
    using top_hit_of_entry assms(4,8) by (metis wf_listing_def)
  have score: "\<forall>h\<in>set ?top. hit_score h \<noteq> \<infinity>"
    by (auto simp: top_hits_def spec_hits_def entry_hit_def entry_score_def req)
  have "length all = length ?top" "set all = set ?top" using all(1) by (metis size_mset, metis set_mset_mset)
  then have "h \<in> set all" "length all \<le> nat limit" "\<not> limit < 0" "\<forall>h\<in>set all. hit_score h \<noteq> \<infinity>"
    using h(1) score length_spec_hits [of U minLen maxLen es ?req] assms(7) by simp_all
  then show ?thesis using all(2) h(2) by (auto simp: cut_hits_def)
qed

lemma cat_word_of_path [simp]: "cat \<in> set (split_to_normalized_words ascii_ucd ''/cats/cat.txt'' 3)"
  by (simp add: split_to_normalized_words_def runes_ascii cat_def append_word_def is_word_sep_def
      is_digit_rune_def is_space_def is_letter_def lower_rune_def nfkd_ascii_ucd [unfolded nfkd_ascii_def, rule_format])

lemma search_finds_own_words_witness:
  "\<exists>hits total.
    index_search ascii_ucd sorted_list_of_set insertion_sort
      (new_prefix_index ascii_ucd sample_listing 3 10) (string_of_runes cat) 100 = Inr (hits, total)
    \<and> (\<exists>h\<in>set hits. prefix (hit_path h) ''/cats/cat.txt'') \<and> (\<forall>h\<in>set hits. hit_score h \<noteq> \<infinity>)"
  using search_finds_own_words [OF word_order.map_iteration_axioms ins_sort.sort_contract_axioms
      nfkd_ascii_ucd sample_listing_wf, where maxLen = 10 and limit = 100 and w = cat
        and e = "sample_listing ! 1"]
  by (simp add: sample_listing_def)

text \<open>
  C23: Search panics exactly for a negative limit with at least one hit (\<open>res[:limit]\<close>).
\<close>

theorem search_panics_iff:
  assumes "sort_contract sortf"
  shows "index_search U iter sortf idx search limit = Inl p \<longleftrightarrow>
    p = SliceOutOfRange \<and> limit < 0
    \<and> \<not> empty_query (new_search_request U search (min_prefix_len idx))
    \<and> search_candidates U iter idx (new_search_request U search (min_prefix_len idx)) \<noteq> []"
  using sort_contract.sortf_Nil_iff [OF assms] compact_search_hits_Nil_iff [OF assms]
  by (auto simp: index_search_eq [OF assms] Let_def empty_query_def finish_search_def)

lemma search_panics_iff_witness:
  "index_search ascii_ucd sorted_list_of_set insertion_sort
      (new_prefix_index ascii_ucd sample_listing 3 10) (string_of_runes cat) (-1) = Inl SliceOutOfRange \<longleftrightarrow>
    SliceOutOfRange = SliceOutOfRange \<and> (-1 :: int) < 0
    \<and> \<not> empty_query (new_search_request ascii_ucd (string_of_runes cat)
          (min_prefix_len (new_prefix_index ascii_ucd sample_listing 3 10)))
    \<and> search_candidates ascii_ucd sorted_list_of_set (new_prefix_index ascii_ucd sample_listing 3 10)
        (new_search_request ascii_ucd (string_of_runes cat)
          (min_prefix_len (new_prefix_index ascii_ucd sample_listing 3 10))) \<noteq> []"
  by (rule search_panics_iff [OF ins_sort.sort_contract_axioms])

text \<open>
  C3: The index of a listing holds, for every prefix, the identifiers of exactly the entries
  whose path has it, strictly increasing, and for every entry its data and lower-cased path.
\<close>

theorem index_is_exact:
  assumes "length es \<le> 2 ^ 32"
  shows "set (ids_at (prefixes (new_prefix_index U es minLen maxLen)) p) =
      of_nat ` {n. n < length es \<and> p \<in> set (generate_prefixes U (de_url (es ! n)) minLen maxLen)}
    \<and> sorted_wrt (<) (ids_at (prefixes (new_prefix_index U es minLen maxLen)) p)
    \<and> Mapping.lookup (entries (new_prefix_index U es minLen maxLen)) i =
      (if unat i < length es then Some (new_index_entry (es ! unat i)) else None)
    \<and> Mapping.lookup (lower_cased_paths (new_prefix_index U es minLen maxLen)) i =
      (if unat i < length es then Some (to_lower U (de_url (es ! unat i))) else None)"
  using new_index_prefixes [of U es minLen maxLen p] new_index_entries [OF assms]
  by (simp add: new_index_lower_cased new_index_entry_def)

lemma index_is_exact_witness:
  "set (ids_at (prefixes (new_prefix_index ascii_ucd sample_listing 3 10)) ''cat'') =
      of_nat ` {n. n < length sample_listing
        \<and> ''cat'' \<in> set (generate_prefixes ascii_ucd (de_url (sample_listing ! n)) 3 10)}"
  using index_is_exact [of sample_listing ascii_ucd 3 10 "''cat''" 0] by (simp add: sample_listing_def)

text \<open>
  C22: compactSearchHits keeps exactly the hits that no directory of the hits with the same
  score contains, whatever order the hits come in.
\<close>

theorem compaction_keeps_top_hits:
  assumes "sort_contract sortf" "distinct (map hit_path hits)"
  shows "mset (compact_search_hits sortf hits) = mset (top_hits hits)"
  using compact_search_hits_mset [OF assms] by (simp add: top_hits_def)

lemma compaction_keeps_top_hits_witness:
  "mset (compact_search_hits insertion_sort (spec_hits ascii_ucd 3 10 sample_listing empty_request)) =
     mset (top_hits (spec_hits ascii_ucd 3 10 sample_listing empty_request))"
  by (rule compaction_keeps_top_hits [OF ins_sort.sort_contract_axioms])
    (rule spec_hits_paths, simp add: sample_listing_def)

end
