(* ===== verification/GoTime.thy ===== *)
theory GoTime
  imports Misc
begin

text \<open>
  Package time as the program uses it: the civil date of a Unix time, the layouts of
  FormatModTime, of the cache directories and of http.TimeFormat, and time.Parse for the
  latter. Days are counted without bounds.
\<close>

section \<open>The Gregorian calendar\<close>

definition leap_year :: "int \<Rightarrow> bool" where
  "leap_year y \<longleftrightarrow> y mod 4 = 0 \<and> (y mod 100 \<noteq> 0 \<or> y mod 400 = 0)"

definition month_lengths :: "int \<Rightarrow> nat list" where
  "month_lengths y = [31, if leap_year y then 29 else 28, 31, 30, 31, 30, 31, 31, 30, 31, 30, 31]"

text \<open>Days from 0001-01-01 to the first of January of a year.\<close>

definition days_before_year :: "int \<Rightarrow> int" where
  "days_before_year y = 365 * (y - 1) + (y - 1) div 4 - (y - 1) div 100 + (y - 1) div 400"

text \<open>Days from 0001-01-01 to 1970-01-01.\<close>

definition epoch_day :: int where
  "epoch_day = 719162"

text \<open>The year of a day and the day in the year, both from 0001-01-01.\<close>

definition year_of_day :: "int \<Rightarrow> int \<times> int" where
  "year_of_day d =
     (let n400 = d div 146097; r400 = d mod 146097;
          n100 = min 3 (r400 div 36524); r100 = r400 - 36524 * n100;
          n4 = r100 div 1461; r4 = r100 mod 1461;
          n1 = min 3 (r4 div 365)
      in (400 * n400 + 100 * n100 + 4 * n4 + n1 + 1, r4 - 365 * n1))"

fun month_of_day :: "nat \<Rightarrow> nat list \<Rightarrow> nat \<Rightarrow> nat \<times> nat" where
  "month_of_day m [] n = (m, n + 1)"
| "month_of_day m (l # ls) n = (if n < l then (m, n + 1) else month_of_day (m + 1) ls (n - l))"

text \<open>Year, month and day of a day since 1970-01-01, and back.\<close>

definition civil_of_days :: "int \<Rightarrow> int \<times> nat \<times> nat" where
  "civil_of_days days =
     (let (y, n) = year_of_day (days + epoch_day); (m, d) = month_of_day 1 (month_lengths y) (nat n)
      in (y, m, d))"

definition days_of_civil :: "int \<Rightarrow> nat \<Rightarrow> nat \<Rightarrow> int" where
  "days_of_civil y m d =
     days_before_year y + int (sum_list (take (m - 1) (month_lengths y)) + d) - 1 - epoch_day"

lemma days_before_year_parts:
  assumes "0 \<le> b" "b \<le> 3" "0 \<le> c" "c \<le> 24" "0 \<le> e" "e \<le> 3"
  shows "days_before_year (400 * a + 100 * b + 4 * c + e + 1) = 146097 * a + 36524 * b + 1461 * c + 365 * e"
proof -
  let ?y = "400 * a + 100 * b + 4 * c + e"
  have "?y div 4 = 100 * a + 25 * b + c"
    by (rule int_div_pos_eq [of _ _ _ e]) (use assms in simp_all)
  moreover have "?y div 100 = 4 * a + b"
    by (rule int_div_pos_eq [of _ _ _ "4 * c + e"]) (use assms in simp_all)
  moreover have "?y div 400 = a"
    by (rule int_div_pos_eq [of _ _ _ "100 * b + 4 * c + e"]) (use assms in simp_all)
  ultimately show ?thesis by (simp add: days_before_year_def)
qed

lemma leap_parts:
  assumes "0 \<le> b" "b \<le> 3" "0 \<le> c" "c \<le> 24"
  shows "c \<noteq> 24 \<or> b = 3 \<Longrightarrow> leap_year (400 * a + 100 * b + 4 * c + 3 + 1)"
proof -
  assume cb: "c \<noteq> 24 \<or> b = 3"
  let ?y = "400 * a + 100 * b + 4 * c + 3 + 1"
  have 4: "?y mod 4 = 0" by (rule int_mod_pos_eq [of _ _ "100 * a + 25 * b + c + 1"]) simp_all
  show ?thesis
  proof (cases "c = 24")
    case True
    then have "?y mod 400 = 0" using cb int_mod_pos_eq [of ?y 400 "a + 1" 0] by simp
    then show ?thesis using 4 unfolding leap_year_def by blast
  next
    case False
    then have "?y mod 100 = 4 * c + 4"
      using assms by (intro int_mod_pos_eq [of _ _ "4 * a + b"]) simp_all
    then have "?y mod 100 \<noteq> 0" using assms by linarith
    then show ?thesis using 4 unfolding leap_year_def by blast
  qed
qed

text \<open>Four parts of length \<open>k\<close> and one day more in the last of them.\<close>

lemma four_parts:
  fixes r k :: int
  assumes "0 \<le> r" "r \<le> 4 * k" "0 < k"
  defines "b \<equiv> min 3 (r div k)"
  shows "0 \<le> b" "b \<le> 3" "0 \<le> r - k * b" "r - k * b \<le> k" "r - k * b = k \<Longrightarrow> b = 3"
proof -
  have q: "0 \<le> r div k" using assms by (simp add: pos_imp_zdiv_nonneg_iff)
  then show "0 \<le> b" "b \<le> 3" by (simp_all add: b_def)
  have m: "r = k * (r div k) + r mod k" "0 \<le> r mod k" "r mod k < k" using assms by simp_all
  show "0 \<le> r - k * b" "r - k * b \<le> k" "r - k * b = k \<Longrightarrow> b = 3"
  proof (atomize (full), cases "r div k \<le> 3")
    case True
    then have b: "r div k = b" by (simp add: b_def)
    show "0 \<le> r - k * b \<and> r - k * b \<le> k \<and> (r - k * b = k \<longrightarrow> b = 3)"
      using m unfolding b by (intro conjI impI) linarith+
  next
    case False
    then have "k * 3 \<le> k * (r div k)" using assms(3) by (intro mult_left_mono) auto
    then have "k * 3 \<le> r" using m by linarith
    moreover have "b = 3" using False by (simp add: b_def)
    ultimately show "0 \<le> r - k * b \<and> r - k * b \<le> k \<and> (r - k * b = k \<longrightarrow> b = 3)"
      using assms(2) by simp
  qed
qed

lemma year_of_day_correct:
  assumes "year_of_day d = (y, n)"
  shows "days_before_year y + n = d" "0 \<le> n" "n < (if leap_year y then 366 else 365)"
proof -
  define a where "a = d div 146097"
  define r where "r = d mod 146097"
  define b where "b = min 3 (r div 36524)"
  define r1 where "r1 = r - 36524 * b"
  define c where "c = r1 div 1461"
  define r2 where "r2 = r1 mod 1461"
  define e where "e = min 3 (r2 div 365)"
  have y: "y = 400 * a + 100 * b + 4 * c + e + 1" and n: "n = r2 - 365 * e"
    using assms
    unfolding year_of_day_def Let_def a_def [symmetric] r_def [symmetric] b_def [symmetric] r1_def [symmetric]
      c_def [symmetric] r2_def [symmetric] e_def [symmetric]
    by simp_all
  have r: "0 \<le> r" "r \<le> 4 * 36524" and d: "d = 146097 * a + r"
    using pos_mod_bound [of 146097 d] by (simp_all add: r_def a_def)
  have b: "0 \<le> b" "b \<le> 3" and r1: "0 \<le> r1" "r1 \<le> 36524" "r1 = 36524 \<Longrightarrow> b = 3"
    using four_parts [OF r] by (simp_all add: b_def r1_def)
  have r2: "0 \<le> r2" "r2 \<le> 4 * 365" "r1 = 1461 * c + r2"
    using pos_mod_bound [of 1461 r1] by (simp_all add: c_def r2_def)
  have c: "0 \<le> c" "c \<le> 24"
    using r1(1) zdiv_mono1 [OF r1(2), of 1461] by (simp_all add: c_def pos_imp_zdiv_nonneg_iff)
  have e: "0 \<le> e" "e \<le> 3" and n': "0 \<le> n" "n \<le> 365" "n = 365 \<Longrightarrow> e = 3"
    using four_parts [OF r2(1,2)] by (simp_all add: e_def n)
  show "days_before_year y + n = d"
    unfolding y days_before_year_parts [OF b c e] n d using r2(3) r1_def by simp
  show "0 \<le> n" by (rule n'(1))
  show "n < (if leap_year y then 366 else 365)"
  proof (cases "n = 365")
    case True
    then have e3: "e = 3" and r2': "r2 = 1460" using n' n by simp_all
    have "c \<noteq> 24 \<or> b = 3"
    proof (rule disjCI)
      assume "b \<noteq> 3"
      then show "c \<noteq> 24" using r1(2,3) r2(3) r2' by auto
    qed
    then have "leap_year y" using leap_parts [OF b c, of a] y e3 by simp
    then show ?thesis using n' by simp
  next
    case False
    then show ?thesis using n' by simp
  qed
qed

lemma month_of_day_correct:
  "n < sum_list ls \<Longrightarrow> month_of_day m ls n = (m', d) \<Longrightarrow>
   m \<le> m' \<and> m' < m + length ls \<and> 1 \<le> d \<and> d \<le> ls ! (m' - m) \<and> sum_list (take (m' - m) ls) + d = n + 1"
proof (induction m ls n rule: month_of_day.induct)
  case (1 m n)
  then show ?case by simp
next
  case (2 m l ls n)
  show ?case
  proof (cases "n < l")
    case True
    then show ?thesis using 2(3) by auto
  next
    case False
    then have IH: "m + 1 \<le> m' \<and> m' < m + 1 + length ls \<and> 1 \<le> d \<and> d \<le> ls ! (m' - (m + 1))
        \<and> sum_list (take (m' - (m + 1)) ls) + d = n - l + 1"
      using 2 by simp
    then have "m' - m = Suc (m' - (m + 1))" by linarith
    moreover have "sum_list (take (m' - (m + 1)) ls) + d + l = n + 1" using IH False by linarith
    ultimately show ?thesis using IH by simp
  qed
qed

lemma sum_month_lengths: "sum_list (month_lengths y) = (if leap_year y then 366 else 365)"
  by (simp add: month_lengths_def)

text \<open>The date of a day is a valid date, and its day is that day.\<close>

lemma civil_of_days_correct:
  assumes "civil_of_days days = (y, m, d)"
  shows "days_of_civil y m d = days" "1 \<le> m" "m \<le> 12" "1 \<le> d" "d \<le> month_lengths y ! (m - 1)"
proof -
  obtain n where n: "year_of_day (days + epoch_day) = (y, n)" "month_of_day 1 (month_lengths y) (nat n) = (m, d)"
    using assms by (auto simp: civil_of_days_def split: prod.splits)
  note yn = year_of_day_correct [OF n(1)]
  have lt: "nat n < sum_list (month_lengths y)" using yn(2,3) by (auto simp: sum_month_lengths)
  have len: "length (month_lengths y) = 12" by (simp add: month_lengths_def)
  note md = month_of_day_correct [OF lt n(2), unfolded len]
  then show "1 \<le> m" "m \<le> 12" "1 \<le> d" "d \<le> month_lengths y ! (m - 1)" by simp_all
  have "sum_list (take (m - 1) (month_lengths y)) + d = nat n + 1" using md by blast
  then show "days_of_civil y m d = days" using yn(1,2) unfolding days_of_civil_def by linarith
qed

section \<open>Formatting\<close>

text \<open>A number with at least \<open>w\<close> digits, as the layouts 01, 02, 15, 04, 05 and 2006 print it.\<close>

definition pad_nat :: "nat \<Rightarrow> nat \<Rightarrow> string" where
  "pad_nat w n = (let s = format_nat n in replicate (w - length s) (CHR ''0'') @ s)"

definition pad_year :: "int \<Rightarrow> string" where
  "pad_year y = (if y < 0 then CHR ''-'' # pad_nat 4 (nat (- y)) else pad_nat 4 (nat y))"

definition clock_of :: "int \<Rightarrow> nat \<times> nat \<times> nat" where
  "clock_of t = (let r = nat (t mod 86400) in (r div 3600, r div 60 mod 60, r mod 60))"

text \<open>The layout 2006-01, and 2006-01-02 15:04:05, for a Unix time in UTC.\<close>

definition format_month :: "int \<Rightarrow> string" where
  "format_month t = (let (y, m, d) = civil_of_days (t div 86400) in pad_year y @ ''-'' @ pad_nat 2 m)"

definition format_datetime :: "int \<Rightarrow> string" where
  "format_datetime t =
     (let (y, m, d) = civil_of_days (t div 86400); (h, mi, sec) = clock_of t
      in pad_year y @ ''-'' @ pad_nat 2 m @ ''-'' @ pad_nat 2 d @ '' '' @
         pad_nat 2 h @ '':'' @ pad_nat 2 mi @ '':'' @ pad_nat 2 sec)"

text \<open>misc.FormatModTime.\<close>

definition format_mod_time :: "int \<Rightarrow> string" where
  "format_mod_time t = format_datetime t @ '' UTC''"

definition day_names :: "string list" where
  "day_names = [''Sun'', ''Mon'', ''Tue'', ''Wed'', ''Thu'', ''Fri'', ''Sat'']"

definition month_names :: "string list" where
  "month_names =
     [''Jan'', ''Feb'', ''Mar'', ''Apr'', ''May'', ''Jun'', ''Jul'', ''Aug'', ''Sep'', ''Oct'', ''Nov'', ''Dec'']"

definition weekday :: "int \<Rightarrow> nat" where
  "weekday days = nat ((days + 4) mod 7)"

text \<open>http.TimeFormat: Mon, 02 Jan 2006 15:04:05 GMT.\<close>

definition format_http_time :: "int \<Rightarrow> string" where
  "format_http_time t =
     (let days = t div 86400; (y, m, d) = civil_of_days days; (h, mi, sec) = clock_of t
      in day_names ! weekday days @ '', '' @ pad_nat 2 d @ '' '' @ month_names ! (m - 1) @ '' '' @
         pad_year y @ '' '' @ pad_nat 2 h @ '':'' @ pad_nat 2 mi @ '':'' @ pad_nat 2 sec @ '' GMT'')"

section \<open>time.Parse with http.TimeFormat\<close>

text \<open>getnum: two digits, or one where the layout does not fix the width.\<close>

definition get_num :: "bool \<Rightarrow> string \<Rightarrow> (nat \<times> string) option" where
  "get_num fixed s =
     (case s of
        [] \<Rightarrow> None
      | c # t \<Rightarrow>
          if \<not> is_digit c then None
          else case t of
              d # u \<Rightarrow> if is_digit d then Some (10 * (byte c - 48) + (byte d - 48), u)
                       else if fixed then None else Some (byte c - 48, t)
            | [] \<Rightarrow> if fixed then None else Some (byte c - 48, t))"

text \<open>skip: literal text of the layout; a blank of it stands for any number of blanks.\<close>

definition cut_space :: "string \<Rightarrow> string" where
  "cut_space s = dropWhile (\<lambda>c. c = CHR '' '') s"

fun skip :: "string \<Rightarrow> string \<Rightarrow> string option" where
  "skip [] value = Some value"
| "skip (p # ps) value =
     (if p = CHR '' '' then
        (case value of
           c # _ \<Rightarrow> if c \<noteq> CHR '' '' then None else skip ps (cut_space value)
         | [] \<Rightarrow> skip ps [])
      else case value of c # t \<Rightarrow> if c = p then skip ps t else None | [] \<Rightarrow> None)"

definition match_char :: "char \<Rightarrow> char \<Rightarrow> bool" where
  "match_char c d \<longleftrightarrow> c = d \<or> lower_char c = lower_char d"

text \<open>lookup: the index of the first name the text starts with, without regard to case.\<close>

fun lookup_name :: "string list \<Rightarrow> string \<Rightarrow> (nat \<times> string) option" where
  "lookup_name [] s = None"
| "lookup_name (n # ns) s =
     (if length n \<le> length s \<and> list_all2 match_char (take (length n) s) n
      then Some (0, drop (length n) s)
      else map_option (\<lambda>(i, t). (Suc i, t)) (lookup_name ns s))"

definition get_year :: "string \<Rightarrow> (nat \<times> string) option" where
  "get_year s =
     (let y = take 4 s
      in if length y = 4 \<and> list_all is_digit y then Some (digits_value y, drop 4 s) else None)"

text \<open>A fraction of a second is accepted although the layout has none.\<close>

definition skip_fraction :: "string \<Rightarrow> string" where
  "skip_fraction s =
     (case s of
        c # d # t \<Rightarrow> if (c = CHR ''.'' \<or> c = CHR '','') \<and> is_digit d then dropWhile is_digit t else s
      | _ \<Rightarrow> s)"

definition unix_time :: "int \<Rightarrow> nat \<Rightarrow> nat \<Rightarrow> nat \<Rightarrow> nat \<Rightarrow> nat \<Rightarrow> int" where
  "unix_time y m d h mi sec = days_of_civil y m d * 86400 + int (h * 3600 + mi * 60 + sec)"

definition parse_http_time :: "string \<Rightarrow> int option" where
  "parse_http_time s =
     Option.bind (lookup_name day_names s) (\<lambda>(_, s).
     Option.bind (skip '', '' s) (\<lambda>s.
     Option.bind (get_num True s) (\<lambda>(d, s).
     Option.bind (skip '' '' s) (\<lambda>s.
     Option.bind (lookup_name month_names s) (\<lambda>(m, s).
     Option.bind (skip '' '' s) (\<lambda>s.
     Option.bind (get_year s) (\<lambda>(y, s).
     Option.bind (skip '' '' s) (\<lambda>s.
     Option.bind (get_num False s) (\<lambda>(h, s).
     Option.bind (if 24 \<le> h then None else skip '':'' s) (\<lambda>s.
     Option.bind (get_num True s) (\<lambda>(mi, s).
     Option.bind (if 60 \<le> mi then None else skip '':'' s) (\<lambda>s.
     Option.bind (get_num True s) (\<lambda>(sec, s).
     Option.bind (if 60 \<le> sec then None else skip '' GMT'' (skip_fraction s)) (\<lambda>s.
       if s \<noteq> [] \<or> d < 1 \<or> month_lengths (int y) ! m < d then None
       else Some (unix_time (int y) (m + 1) d h mi sec)))))))))))))))"

text \<open>Parsing what the format prints gives the time back, for years of four digits.\<close>

lemma char_of_48: "char_of (48 :: nat) = CHR ''0''"
  by (simp add: char_of_eq_iff)

lemma pad_nat_2: "n < 100 \<Longrightarrow> pad_nat 2 n = [digit_char (n div 10), digit_char (n mod 10)]"
  by (simp add: pad_nat_def Let_def format_nat.simps [of n] format_nat.simps [of "n div 10"]
      digit_char_def char_of_48 less_mult_imp_div_less)

lemma get_num_pad [simp]: "n < 100 \<Longrightarrow> get_num b (pad_nat 2 n @ s) = Some (n, s)"
  by (simp add: pad_nat_2 get_num_def)

lemma format_nat_length: "n < 10 ^ k \<Longrightarrow> 0 < k \<Longrightarrow> length (format_nat n) \<le> k"
proof (induction k arbitrary: n)
  case 0
  then show ?case by simp
next
  case (Suc k)
  show ?case
  proof (cases "n < 10")
    case True
    then show ?thesis by (simp add: format_nat.simps [of n])
  next
    case False
    then have "0 < k" using Suc.prems by (cases k) auto
    moreover have "n div 10 < 10 ^ k" using Suc.prems by (simp add: less_mult_imp_div_less mult.commute)
    ultimately show ?thesis using Suc.IH [of "n div 10"] False by (simp add: format_nat.simps [of n])
  qed
qed

lemma digits_value_zeros: "digits_value (replicate k (CHR ''0'') @ s) = digits_value s"
  by (induction k) (simp_all add: digits_value_def)

lemma get_year_pad [simp]: "n < 10000 \<Longrightarrow> get_year (pad_nat 4 n @ s) = Some (n, s)"
proof -
  assume "n < 10000"
  then have "length (format_nat n) \<le> 4" using format_nat_length [of n 4] by simp
  then have len: "length (pad_nat 4 n) = 4" by (simp add: pad_nat_def Let_def)
  have "list_all is_digit (pad_nat 4 n)" "digits_value (pad_nat 4 n) = n"
    using format_nat_digits [of n]
    by (simp_all add: pad_nat_def Let_def digits_value_zeros digits_value_format list_all_iff
        set_replicate_conv_if) (simp add: is_digit_def)
  then show ?thesis using len by (simp add: get_year_def)
qed

lemma skip_space_digits: "is_digit c \<Longrightarrow> skip '' '' (CHR '' '' # c # s) = Some (c # s)"
  by (auto simp: cut_space_def is_digit_def)

lemma pad_nat_digit:
  assumes "0 < w" obtains c t where "pad_nat w n = c # t" "is_digit c"
proof -
  have "list_all is_digit (pad_nat w n)" using format_nat_digits [of n]
    by (simp add: pad_nat_def Let_def list_all_iff set_replicate_conv_if) (simp add: is_digit_def)
  moreover have "pad_nat w n \<noteq> []" by (simp add: pad_nat_def Let_def)
  ultimately show ?thesis using that by (cases "pad_nat w n") auto
qed

lemma skip_pad [simp]: "0 < w \<Longrightarrow> skip '' '' (CHR '' '' # pad_nat w n @ s) = Some (pad_nat w n @ s)"
  by (metis append_Cons pad_nat_digit skip_space_digits)

lemma lookup_name_nth:
  "i < length ns \<Longrightarrow> list_all (\<lambda>n. length n = 3) ns \<Longrightarrow>
   (\<And>j. j < i \<Longrightarrow> \<not> list_all2 match_char (ns ! i) (ns ! j)) \<Longrightarrow>
   lookup_name ns (ns ! i @ s) = Some (i, s)"
proof (induction ns arbitrary: i)
  case Nil
  then show ?case by simp
next
  case (Cons n ns)
  show ?case
  proof (cases i)
    case 0
    then show ?thesis by (simp add: list_all2_same match_char_def)
  next
    case (Suc k)
    have "\<not> list_all2 match_char (ns ! k) n" using Cons.prems(3) [of 0] Suc by simp
    moreover have "length (ns ! k) = 3" using Cons.prems(1,2) Suc by (simp add: list_all_iff)
    moreover have "lookup_name ns (ns ! k @ s) = Some (k, s)"
    proof (rule Cons.IH)
      show "k < length ns" "list_all (\<lambda>n. length n = 3) ns" using Cons.prems(1,2) Suc by simp_all
      show "\<not> list_all2 match_char (ns ! k) (ns ! j)" if "j < k" for j
        using Cons.prems(3) [of "Suc j"] Suc that by simp
    qed
    ultimately show ?thesis using Suc Cons.prems(2) by simp
  qed
qed

definition names_distinct :: "string list \<Rightarrow> bool" where
  "names_distinct ns \<longleftrightarrow>
     list_all (\<lambda>i. list_all (\<lambda>j. \<not> list_all2 match_char (ns ! i) (ns ! j)) [0..<i]) [0..<length ns]"

lemma names_distinct_lookup:
  assumes "names_distinct ns" "list_all (\<lambda>n. length n = 3) ns" "i < length ns"
  shows "lookup_name ns (ns ! i @ s) = Some (i, s)"
  using assms by (intro lookup_name_nth) (auto simp: names_distinct_def list_all_iff)

lemma names_ok: "names_distinct day_names" "names_distinct month_names"
  by code_simp+

lemma names_lengths:
  "list_all (\<lambda>n. length n = 3) day_names" "list_all (\<lambda>n. length n = 3) month_names"
  "length day_names = 7" "length month_names = 12"
  by (simp_all add: day_names_def month_names_def)

lemma lookup_day_name [simp]: "i < 7 \<Longrightarrow> lookup_name day_names (day_names ! i @ s) = Some (i, s)"
  using names_distinct_lookup [OF names_ok(1) names_lengths(1)] names_lengths(3) by simp

lemma lookup_month_name [simp]: "i < 12 \<Longrightarrow> lookup_name month_names (month_names ! i @ s) = Some (i, s)"
  using names_distinct_lookup [OF names_ok(2) names_lengths(2)] names_lengths(4) by simp

lemma skip_month [simp]:
  assumes "i < 12"
  shows "skip '' '' (CHR '' '' # month_names ! i @ s) = Some (month_names ! i @ s)"
proof -
  have "list_all (\<lambda>n. n \<noteq> [] \<and> hd n \<noteq> CHR '' '') month_names" by (simp add: month_names_def)
  then have "month_names ! i \<noteq> [] \<and> hd (month_names ! i) \<noteq> CHR '' ''"
    using assms names_lengths(4) by (simp add: list_all_length)
  then show ?thesis by (cases "month_names ! i") (auto simp: cut_space_def)
qed

lemma clock_sum: "(r :: nat) div 3600 * 3600 + r div 60 mod 60 * 60 + r mod 60 = r"
proof -
  have "r div 3600 = r div 60 div 60" by (simp add: div_mult2_eq [symmetric])
  then show ?thesis using div_mult_mod_eq [of r 60] div_mult_mod_eq [of "r div 60" 60] by linarith
qed

lemma clock_bounds:
  assumes "clock_of t = (h, mi, sec)"
  shows "h < 24" "mi < 60" "sec < 60"
proof -
  have "nat (t mod 86400) < 86400" by (simp add: nat_less_iff)
  then show "h < 24" "mi < 60" "sec < 60"
    using assms by (auto simp: clock_of_def Let_def less_mult_imp_div_less)
qed

lemma month_lengths_le: "1 \<le> m \<Longrightarrow> m \<le> 12 \<Longrightarrow> month_lengths y ! (m - 1) \<le> 31"
proof -
  have "list_all (\<lambda>l. l \<le> 31) (month_lengths y)" by (simp add: month_lengths_def)
  then show "1 \<le> m \<Longrightarrow> m \<le> 12 \<Longrightarrow> ?thesis" by (simp add: list_all_length month_lengths_def)
qed

lemma unix_time_civil:
  assumes "civil_of_days (t div 86400) = (y, m, d)" "clock_of t = (h, mi, sec)"
  shows "unix_time y m d h mi sec = t"
proof -
  have "h * 3600 + mi * 60 + sec = nat (t mod 86400)"
    using assms(2) clock_sum [of "nat (t mod 86400)"] by (auto simp: clock_of_def Let_def)
  then show ?thesis using civil_of_days_correct(1) [OF assms(1)] by (simp add: unix_time_def)
qed

lemma parse_format_http_time:
  assumes y: "civil_of_days (t div 86400) = (y, m, d)" "0 \<le> y" "y < 10000"
  shows "parse_http_time (format_http_time t) = Some t"
proof -
  obtain h mi sec where c: "clock_of t = (h, mi, sec)" by (cases "clock_of t") auto
  note b = clock_bounds [OF c]
  note cv = civil_of_days_correct [OF y(1)]
  have w: "weekday (t div 86400) < 7" by (simp add: weekday_def nat_less_iff)
  have d: "d < 100" using cv(5) month_lengths_le [OF cv(2,3), of y] by linarith
  have m: "m - 1 < 12" "Suc (m - 1) = m" using cv(2,3) by auto
  have "format_http_time t = day_names ! weekday (t div 86400) @ CHR '','' # CHR '' '' # pad_nat 2 d @ CHR '' '' #
      month_names ! (m - 1) @ CHR '' '' # pad_nat 4 (nat y) @ CHR '' '' # pad_nat 2 h @ CHR '':'' #
      pad_nat 2 mi @ CHR '':'' # pad_nat 2 sec @ '' GMT''"
    using y c by (simp add: format_http_time_def pad_year_def)
  moreover have "skip '', '' (CHR '','' # CHR '' '' # pad_nat 2 d @ s) = Some (pad_nat 2 d @ s)" for s
    using skip_pad [of 2 d s] by simp
  moreover have "skip '':'' (CHR '':'' # s) = Some s" for s by simp
  moreover have "skip '' GMT'' (skip_fraction '' GMT'') = Some []"
    by (simp add: skip_fraction_def cut_space_def)
  ultimately have "parse_http_time (format_http_time t) = Some (unix_time y m d h mi sec)"
    using w d m b y cv by (simp add: parse_http_time_def del: skip.simps)
  also have "unix_time y m d h mi sec = t" using unix_time_civil [OF y(1) c] .
  finally show ?thesis .
qed

end
