(* ===== verification/Json.thy ===== *)
theory Json
  imports GoTime
begin

text \<open>
  What the program uses of encoding/json, on the level of values: a document is a tree, and
  decoding into a struct walks over its fields. A key selects the field with that name, or
  else one that differs only in case; null leaves a value unchanged; unknown keys are
  ignored; a value of the wrong type is an error. Strings are decoded text.
\<close>

datatype json =
    JNull
  | JBool bool
  | JInt int
  | JFloat string
  | JStr string
  | JArr "json list"
  | JObj "(string \<times> json) list"

datatype json_error = TypeMismatch | InvalidTime | InvalidKey

fun map_result :: "('a \<Rightarrow> 'e + 'b) \<Rightarrow> 'a list \<Rightarrow> 'e + 'b list" where
  "map_result f [] = Inr []"
| "map_result f (x # xs) =
     (case f x of
        Inl e \<Rightarrow> Inl e
      | Inr y \<Rightarrow> (case map_result f xs of Inl e \<Rightarrow> Inl e | Inr ys \<Rightarrow> Inr (y # ys)))"

lemma map_result_Inr [simp]:
  "(\<And>x. x \<in> set xs \<Longrightarrow> f x = Inr (g x)) \<Longrightarrow> map_result f xs = Inr (map g xs)"
  by (induction xs) auto

lemma map_result_append:
  "map_result f (xs @ ys) =
     (case map_result f xs of
        Inl e \<Rightarrow> Inl e
      | Inr us \<Rightarrow> (case map_result f ys of Inl e \<Rightarrow> Inl e | Inr vs \<Rightarrow> Inr (us @ vs)))"
  by (induction xs) (auto split: sum.splits)

definition decode_string :: "string \<Rightarrow> json \<Rightarrow> json_error + string" where
  "decode_string old j = (case j of JNull \<Rightarrow> Inr old | JStr s \<Rightarrow> Inr s | _ \<Rightarrow> Inl TypeMismatch)"

definition decode_bool :: "bool \<Rightarrow> json \<Rightarrow> json_error + bool" where
  "decode_bool old j = (case j of JNull \<Rightarrow> Inr old | JBool b \<Rightarrow> Inr b | _ \<Rightarrow> Inl TypeMismatch)"

definition decode_int64 :: "int \<Rightarrow> json \<Rightarrow> json_error + int" where
  "decode_int64 old j =
     (case j of JNull \<Rightarrow> Inr old | JInt i \<Rightarrow> if in_i64 i then Inr i else Inl TypeMismatch | _ \<Rightarrow> Inl TypeMismatch)"

definition decode_list :: "(json \<Rightarrow> json_error + 'a) \<Rightarrow> json \<Rightarrow> json_error + 'a list" where
  "decode_list dec j = (case j of JNull \<Rightarrow> Inr [] | JArr js \<Rightarrow> map_result dec js | _ \<Rightarrow> Inl TypeMismatch)"

lemma decode_simps [simp]:
  "decode_string old (JStr s) = Inr s" "decode_bool oldb (JBool b) = Inr b"
  "in_i64 i \<Longrightarrow> decode_int64 oldi (JInt i) = Inr i" "decode_list dec (JArr js) = map_result dec js"
  by (simp_all add: decode_string_def decode_bool_def decode_int64_def decode_list_def)

text \<open>Structs: a table of field names and setters.\<close>

type_synonym 's fields = "(string \<times> ('s \<Rightarrow> json \<Rightarrow> json_error + 's)) list"

definition find_field :: "'s fields \<Rightarrow> string \<Rightarrow> ('s \<Rightarrow> json \<Rightarrow> json_error + 's) option" where
  "find_field tbl key =
     (case map_of tbl key of
        Some f \<Rightarrow> Some f
      | None \<Rightarrow> map_of (map (\<lambda>(n, f). (map lower_char n, f)) tbl) (map lower_char key))"

fun decode_fields :: "'s fields \<Rightarrow> (string \<times> json) list \<Rightarrow> 's \<Rightarrow> json_error + 's" where
  "decode_fields tbl [] s = Inr s"
| "decode_fields tbl ((key, v) # kvs) s =
     (case find_field tbl key of
        None \<Rightarrow> decode_fields tbl kvs s
      | Some f \<Rightarrow> (case f s v of Inl e \<Rightarrow> Inl e | Inr s' \<Rightarrow> decode_fields tbl kvs s'))"

definition decode_struct :: "'s fields \<Rightarrow> 's \<Rightarrow> json \<Rightarrow> json_error + 's" where
  "decode_struct tbl old j =
     (case j of JNull \<Rightarrow> Inr old | JObj kvs \<Rightarrow> decode_fields tbl kvs old | _ \<Rightarrow> Inl TypeMismatch)"

text \<open>A setter from a decoder and an update function of the record.\<close>

definition setter :: "('s \<Rightarrow> 'a) \<Rightarrow> (('a \<Rightarrow> 'a) \<Rightarrow> 's \<Rightarrow> 's) \<Rightarrow> ('a \<Rightarrow> json \<Rightarrow> json_error + 'a) \<Rightarrow>
    's \<Rightarrow> json \<Rightarrow> json_error + 's" where
  "setter get upd dec s j = (case dec (get s) j of Inl e \<Rightarrow> Inl e | Inr v \<Rightarrow> Inr (upd (\<lambda>_. v) s))"

section \<open>time.Time in JSON: RFC 3339\<close>

definition lit :: "char \<Rightarrow> string \<Rightarrow> string option" where
  "lit c s = (case s of d # t \<Rightarrow> if d = c then Some t else None | [] \<Rightarrow> None)"

definition get_fraction :: "string \<Rightarrow> string option" where
  "get_fraction s =
     (case s of
        c # t \<Rightarrow>
          if c = CHR ''.''
          then (case t of d # u \<Rightarrow> if is_digit d then Some (dropWhile is_digit u) else None | [] \<Rightarrow> None)
          else Some s
      | [] \<Rightarrow> Some s)"

text \<open>The zone: Z, or a sign with hours and minutes; the offset in seconds.\<close>

definition get_zone :: "string \<Rightarrow> (int \<times> string) option" where
  "get_zone s =
     (case s of
        c # t \<Rightarrow>
          if c = CHR ''Z'' then Some (0, t)
          else if c = CHR ''+'' \<or> c = CHR ''-'' then
            Option.bind (get_num True t) (\<lambda>(h, t).
            Option.bind (lit (CHR '':'') t) (\<lambda>t.
            Option.bind (get_num True t) (\<lambda>(m, t).
              if h < 24 \<and> m < 60
              then Some ((if c = CHR ''-'' then -1 else 1) * int (h * 3600 + m * 60), t) else None)))
          else None
      | [] \<Rightarrow> None)"

definition parse_rfc3339 :: "string \<Rightarrow> int option" where
  "parse_rfc3339 s =
     Option.bind (get_year s) (\<lambda>(y, s).
     Option.bind (lit (CHR ''-'') s) (\<lambda>s.
     Option.bind (get_num True s) (\<lambda>(m, s).
     Option.bind (lit (CHR ''-'') s) (\<lambda>s.
     Option.bind (get_num True s) (\<lambda>(d, s).
     Option.bind (lit (CHR ''T'') s) (\<lambda>s.
     Option.bind (get_num True s) (\<lambda>(h, s).
     Option.bind (lit (CHR '':'') s) (\<lambda>s.
     Option.bind (get_num True s) (\<lambda>(mi, s).
     Option.bind (lit (CHR '':'') s) (\<lambda>s.
     Option.bind (get_num True s) (\<lambda>(sec, s).
     Option.bind (get_fraction s) (\<lambda>s.
     Option.bind (get_zone s) (\<lambda>(off, s).
       if s \<noteq> [] \<or> m < 1 \<or> 12 < m \<or> d < 1 \<or> month_lengths (int y) ! (m - 1) < d
          \<or> 24 \<le> h \<or> 60 \<le> mi \<or> 60 \<le> sec then None
       else Some (unix_time (int y) m d h mi sec - off))))))))))))))"

definition decode_time :: "int \<Rightarrow> json \<Rightarrow> json_error + int" where
  "decode_time old j =
     (case j of
        JNull \<Rightarrow> Inr old
      | JStr s \<Rightarrow> (case parse_rfc3339 s of Some t \<Rightarrow> Inr t | None \<Rightarrow> Inl InvalidTime)
      | _ \<Rightarrow> Inl InvalidTime)"

definition format_rfc3339 :: "int \<Rightarrow> string" where
  "format_rfc3339 t =
     (let (y, m, d) = civil_of_days (t div 86400); (h, mi, sec) = clock_of t
      in pad_year y @ ''-'' @ pad_nat 2 m @ ''-'' @ pad_nat 2 d @ ''T'' @
         pad_nat 2 h @ '':'' @ pad_nat 2 mi @ '':'' @ pad_nat 2 sec @ ''Z'')"

text \<open>The zero value of time.Time, as a Unix time.\<close>

definition zero_time :: int where
  "zero_time = - 62135596800"

lemma parse_format_rfc3339:
  assumes y: "civil_of_days (t div 86400) = (y, m, d)" "0 \<le> y" "y < 10000"
  shows "parse_rfc3339 (format_rfc3339 t) = Some t"
proof -
  obtain h mi sec where c: "clock_of t = (h, mi, sec)" by (cases "clock_of t") auto
  note b = clock_bounds [OF c]
  note cv = civil_of_days_correct [OF y(1)]
  have d: "d < 100" using cv(5) month_lengths_le [OF cv(2,3), of y] by linarith
  have m: "m < 100" using cv(3) by simp
  have "format_rfc3339 t = pad_nat 4 (nat y) @ CHR ''-'' # pad_nat 2 m @ CHR ''-'' # pad_nat 2 d @ CHR ''T'' #
      pad_nat 2 h @ CHR '':'' # pad_nat 2 mi @ CHR '':'' # pad_nat 2 sec @ ''Z''"
    using y c by (simp add: format_rfc3339_def pad_year_def)
  then have "parse_rfc3339 (format_rfc3339 t) = Some (unix_time y m d h mi sec)"
    using d m b y cv by (simp add: parse_rfc3339_def lit_def get_fraction_def get_zone_def not_le)
  also have "unix_time y m d h mi sec = t" using unix_time_civil [OF y(1) c] .
  finally show ?thesis .
qed

end
