(* ===== verification/IndexJson.thy ===== *)
theory IndexJson
  imports Json PrefixIndex
begin

text \<open>
  The search index as a JSON document: what encoding/json writes for searchIndex and
  prefixIndex (search/service.go, search/prefix_index.go), and UnmarshalJSON. Strings are
  written as UTF-8, with U+FFFD for bytes that are not; the unexported map of lower-cased
  paths is not written and rebuilt by prepare. Times are in seconds.
\<close>

record search_index =
  si_index :: "prefix_index option"
  si_created_at :: int

section \<open>Encoding\<close>

text \<open>What a string becomes in a JSON document.\<close>

definition utf8 :: "string \<Rightarrow> string" where
  "utf8 s = string_of_runes (runes s)"

definition encode_entry :: "index_entry \<Rightarrow> json" where
  "encode_entry e =
     JObj [(''path'', JStr (utf8 (ie_path e))), (''is_dir'', JBool (ie_is_dir e)),
           (''size'', JInt (ie_size e)), (''mod_time'', JInt (ie_mod_time e))]"

definition encode_id :: "u32 \<Rightarrow> string" where
  "encode_id i = format_nat (unat i)"

text \<open>Maps are written in the order of their keys as text.\<close>

definition encode_entries :: "(u32, index_entry) mapping \<Rightarrow> json" where
  "encode_entries m =
     JObj (map (\<lambda>i. (encode_id i, encode_entry (the (Mapping.lookup m i))))
       (sort_key encode_id (sorted_list_of_set (Mapping.keys m))))"

definition encode_prefixes :: "(string, u32 list) mapping \<Rightarrow> json" where
  "encode_prefixes m =
     JObj (map (\<lambda>p. (utf8 p, JArr (map (\<lambda>i. JInt (uint i)) (ids_at m p))))
       (sorted_list_of_set (Mapping.keys m)))"

definition encode_prefix_index :: "prefix_index \<Rightarrow> json" where
  "encode_prefix_index idx =
     JObj [(''min_prefix_len'', JInt (int (min_prefix_len idx))),
           (''max_prefix_len'', JInt (int (max_prefix_len idx))),
           (''entries'', encode_entries (entries idx)),
           (''prefixes'', encode_prefixes (prefixes idx))]"

definition encode_search_index :: "search_index \<Rightarrow> json" where
  "encode_search_index si =
     JObj [(''index'', case si_index si of None \<Rightarrow> JNull | Some idx \<Rightarrow> encode_prefix_index idx),
           (''created_at'', JStr (format_rfc3339 (si_created_at si)))]"

section \<open>Decoding\<close>

definition decode_u32 :: "json \<Rightarrow> json_error + u32" where
  "decode_u32 j =
     (case j of
        JNull \<Rightarrow> Inr 0
      | JInt i \<Rightarrow> if 0 \<le> i \<and> i < 2 ^ 32 then Inr (of_int i) else Inl TypeMismatch
      | _ \<Rightarrow> Inl TypeMismatch)"

definition decode_id :: "string \<Rightarrow> json_error + u32" where
  "decode_id s =
     (if s \<noteq> [] \<and> list_all is_digit s \<and> digits_value s < 2 ^ 32
      then Inr (of_nat (digits_value s)) else Inl InvalidKey)"

definition entry_json_fields :: "index_entry fields" where
  "entry_json_fields =
     [(''path'', setter ie_path ie_path_update decode_string),
      (''is_dir'', setter ie_is_dir ie_is_dir_update decode_bool),
      (''size'', setter ie_size ie_size_update decode_int64),
      (''mod_time'', setter ie_mod_time ie_mod_time_update decode_int64)]"

definition zero_entry :: index_entry where
  "zero_entry = \<lparr>ie_path = [], ie_is_dir = False, ie_size = 0, ie_mod_time = 0\<rparr>"

fun decode_kvs :: "(string \<Rightarrow> json_error + 'k) \<Rightarrow> (json \<Rightarrow> json_error + 'v) \<Rightarrow>
    (string \<times> json) list \<Rightarrow> ('k, 'v) mapping \<Rightarrow> json_error + ('k, 'v) mapping" where
  "decode_kvs dk dv [] m = Inr m"
| "decode_kvs dk dv ((k, j) # kvs) m =
     (case dk k of
        Inl e \<Rightarrow> Inl e
      | Inr k' \<Rightarrow>
          (case dv j of Inl e \<Rightarrow> Inl e | Inr v \<Rightarrow> decode_kvs dk dv kvs (Mapping.update k' v m)))"

definition decode_map :: "(string \<Rightarrow> json_error + 'k) \<Rightarrow> (json \<Rightarrow> json_error + 'v) \<Rightarrow>
    ('k, 'v) mapping \<Rightarrow> json \<Rightarrow> json_error + ('k, 'v) mapping" where
  "decode_map dk dv old j =
     (case j of JNull \<Rightarrow> Inr Mapping.empty | JObj kvs \<Rightarrow> decode_kvs dk dv kvs old | _ \<Rightarrow> Inl TypeMismatch)"

text \<open>A negative length is read as 0; Check rejects both.\<close>

definition decode_len :: "nat \<Rightarrow> json \<Rightarrow> json_error + nat" where
  "decode_len old j = (case decode_int64 (int old) j of Inl e \<Rightarrow> Inl e | Inr i \<Rightarrow> Inr (nat i))"

definition index_json_fields :: "prefix_index fields" where
  "index_json_fields =
     [(''min_prefix_len'', setter min_prefix_len min_prefix_len_update decode_len),
      (''max_prefix_len'', setter max_prefix_len max_prefix_len_update decode_len),
      (''entries'', setter entries entries_update
         (decode_map decode_id (decode_struct entry_json_fields zero_entry))),
      (''prefixes'', setter prefixes prefixes_update (decode_map Inr (decode_list decode_u32)))]"

definition zero_index :: prefix_index where
  "zero_index =
     \<lparr>min_prefix_len = 0, max_prefix_len = 0, entries = Mapping.empty, prefixes = Mapping.empty,
      lower_cased_paths = Mapping.empty\<rparr>"

definition unmarshal_index :: "ucd \<Rightarrow> json \<Rightarrow> json_error + prefix_index" where
  "unmarshal_index U j =
     (case decode_struct index_json_fields zero_index j of
        Inl e \<Rightarrow> Inl e
      | Inr idx \<Rightarrow> Inr (prepare U idx))"

definition search_index_fields :: "ucd \<Rightarrow> search_index fields" where
  "search_index_fields U =
     [(''index'', setter si_index si_index_update
         (\<lambda>_ j. if j = JNull then Inr None
                 else case unmarshal_index U j of Inl e \<Rightarrow> Inl e | Inr idx \<Rightarrow> Inr (Some idx))),
      (''created_at'', setter si_created_at si_created_at_update decode_time)]"

text \<open>Decoding into a nil pointer: null leaves it nil.\<close>

definition decode_search_index :: "ucd \<Rightarrow> json \<Rightarrow> json_error + search_index option" where
  "decode_search_index U j =
     (if j = JNull then Inr None
      else case decode_struct (search_index_fields U) \<lparr>si_index = None, si_created_at = zero_time\<rparr> j of
          Inl e \<Rightarrow> Inl e
        | Inr si \<Rightarrow> Inr (Some si))"

section \<open>The round trip\<close>

lemma decode_encode_id [simp]: "decode_id (encode_id i) = Inr i"
proof -
  have "unat i < 2 ^ 32" using unsigned_less [of i, where 'a = nat] by simp
  then show ?thesis
    by (simp add: decode_id_def encode_id_def format_nat_digits digits_value_format)
qed

lemma decode_kvs_keys:
  assumes "\<And>x. x \<in> set xs \<Longrightarrow> dk (f x) = Inr x" "\<And>x. x \<in> set xs \<Longrightarrow> dv (g x) = Inr (h x)"
  shows "decode_kvs dk dv (map (\<lambda>x. (f x, g x)) xs) m =
    Inr (fold (\<lambda>x. Mapping.update x (h x)) xs m)"
  using assms by (induction xs arbitrary: m) auto

lemma lookup_fold_update:
  "Mapping.lookup (fold (\<lambda>x. Mapping.update x (h x)) xs m) k =
     (if k \<in> set xs then Some (h k) else Mapping.lookup m k)"
  by (induction xs arbitrary: m) (auto simp: lookup_update')

lemma mapping_rebuild:
  assumes "set xs = Mapping.keys m" "\<And>k v. Mapping.lookup m k = Some v \<Longrightarrow> h k = v"
  shows "fold (\<lambda>x. Mapping.update x (h x)) xs Mapping.empty = m"
proof (rule mapping_eqI)
  fix k
  show "Mapping.lookup (fold (\<lambda>x. Mapping.update x (h x)) xs Mapping.empty) k = Mapping.lookup m k"
    using assms by (cases "Mapping.lookup m k")
      (auto simp: lookup_fold_update lookup_empty keys_dom_lookup)
qed

text \<open>An index that survives encoding: its strings are UTF-8 and its numbers fit.\<close>

definition encodable :: "prefix_index \<Rightarrow> bool" where
  "encodable idx \<longleftrightarrow>
     finite (Mapping.keys (prefixes idx))
     \<and> int (min_prefix_len idx) \<le> max_int64 \<and> int (max_prefix_len idx) \<le> max_int64
     \<and> (\<forall>i e. Mapping.lookup (entries idx) i = Some e \<longrightarrow>
          utf8 (ie_path e) = ie_path e \<and> in_i64 (ie_size e) \<and> in_i64 (ie_mod_time e))
     \<and> (\<forall>p\<in>Mapping.keys (prefixes idx). utf8 p = p)"

lemma decode_encode_entry:
  "utf8 (ie_path e) = ie_path e \<Longrightarrow> in_i64 (ie_size e) \<Longrightarrow> in_i64 (ie_mod_time e) \<Longrightarrow>
   decode_struct entry_json_fields zero_entry (encode_entry e) = Inr e"
  by (simp add: decode_struct_def encode_entry_def find_field_def entry_json_fields_def setter_def zero_entry_def)

lemma decode_encode_entries:
  assumes "\<And>i e. Mapping.lookup m i = Some e \<Longrightarrow>
      utf8 (ie_path e) = ie_path e \<and> in_i64 (ie_size e) \<and> in_i64 (ie_mod_time e)"
  shows "decode_map decode_id (decode_struct entry_json_fields zero_entry) Mapping.empty (encode_entries m) = Inr m"
proof -
  let ?xs = "sort_key encode_id (sorted_list_of_set (Mapping.keys m))"
  have set: "set ?xs = Mapping.keys m" by simp
  have "decode_struct entry_json_fields zero_entry (encode_entry (the (Mapping.lookup m i)))
      = Inr (the (Mapping.lookup m i))" if "i \<in> set ?xs" for i
  proof -
    have "i \<in> Mapping.keys m" using that unfolding set .
    then obtain e where "Mapping.lookup m i = Some e" by (auto simp: keys_dom_lookup)
    then show ?thesis using assms decode_encode_entry by simp
  qed
  then have "decode_kvs decode_id (decode_struct entry_json_fields zero_entry)
      (map (\<lambda>i. (encode_id i, encode_entry (the (Mapping.lookup m i)))) ?xs) Mapping.empty
    = Inr (fold (\<lambda>x. Mapping.update x (the (Mapping.lookup m x))) ?xs Mapping.empty)"
    by (intro decode_kvs_keys) simp_all
  also have "fold (\<lambda>x. Mapping.update x (the (Mapping.lookup m x))) ?xs Mapping.empty = m"
    using set by (intro mapping_rebuild) simp_all
  finally show ?thesis by (simp add: decode_map_def encode_entries_def)
qed

lemma decode_encode_ids: "map_result decode_u32 (map (\<lambda>i. JInt (uint i)) (ids :: u32 list)) = Inr ids"
proof -
  have "decode_u32 (JInt (uint i)) = Inr i" for i :: u32
    using uint_lt2p [of i] by (simp add: decode_u32_def)
  then show ?thesis by (induction ids) simp_all
qed

lemma decode_encode_prefixes:
  assumes "finite (Mapping.keys m)" "\<forall>p\<in>Mapping.keys m. utf8 p = p"
  shows "decode_map Inr (decode_list decode_u32) Mapping.empty (encode_prefixes m) = Inr m"
proof -
  let ?xs = "sorted_list_of_set (Mapping.keys m)"
  have set: "set ?xs = Mapping.keys m" using assms(1) by simp
  have "decode_kvs Inr (decode_list decode_u32)
      (map (\<lambda>p. (utf8 p, JArr (map (\<lambda>i. JInt (uint i)) (ids_at m p)))) ?xs) Mapping.empty
    = Inr (fold (\<lambda>p. Mapping.update p (ids_at m p)) ?xs Mapping.empty)"
    using assms(2) set by (intro decode_kvs_keys) (auto simp: decode_encode_ids)
  also have "fold (\<lambda>p. Mapping.update p (ids_at m p)) ?xs Mapping.empty = m"
    using set by (intro mapping_rebuild) (simp_all add: ids_at_def)
  finally show ?thesis by (simp add: decode_map_def encode_prefixes_def)
qed

lemma unmarshal_encode_index:
  assumes "encodable idx"
  shows "unmarshal_index U (encode_prefix_index idx) = Inr (prepare U idx)"
proof -
  have len: "decode_len n (JInt (int k)) = Inr k" if "int k \<le> max_int64" for n k
    using that by (simp add: decode_len_def in_i64_def min_int64_def)
  have "decode_map decode_id (decode_struct entry_json_fields zero_entry) Mapping.empty (encode_entries (entries idx))
      = Inr (entries idx)"
    using assms by (intro decode_encode_entries) (auto simp: encodable_def)
  moreover have "decode_map Inr (decode_list decode_u32) Mapping.empty (encode_prefixes (prefixes idx))
      = Inr (prefixes idx)"
    using assms by (intro decode_encode_prefixes) (auto simp: encodable_def)
  moreover have "decode_struct tbl old (JObj kvs) = decode_fields tbl kvs old" for tbl :: "prefix_index fields" and old kvs
    by (simp add: decode_struct_def)
  ultimately show ?thesis using assms
    by (simp add: unmarshal_index_def encode_prefix_index_def
        find_field_def index_json_fields_def setter_def zero_index_def len encodable_def prepare_def)
qed

lemma decode_encode_search_index:
  assumes "encodable idx" "civil_of_days (t div 86400) = (y, m, d)" "0 \<le> y" "y < 10000"
  shows "decode_search_index U (encode_search_index \<lparr>si_index = Some idx, si_created_at = t\<rparr>) =
    Inr (Some \<lparr>si_index = Some (prepare U idx), si_created_at = t\<rparr>)"
proof -
  have nn: "encode_prefix_index idx \<noteq> JNull" by (simp add: encode_prefix_index_def)
  have "decode_struct tbl old (JObj kvs) = decode_fields tbl kvs old" for tbl :: "search_index fields" and old kvs
    by (simp add: decode_struct_def)
  then show ?thesis
    using unmarshal_encode_index [OF assms(1), of U] parse_format_rfc3339 [OF assms(2-4)] nn
    by (simp add: decode_search_index_def encode_search_index_def find_field_def search_index_fields_def
        setter_def decode_time_def)
qed

section \<open>The index of a listing can be encoded\<close>

definition fix_rune :: "rune \<Rightarrow> rune" where
  "fix_rune r = (if valid_rune r then r else 0xFFFD)"

lemma encode_fix_rune: "encode_rune (fix_rune r) = encode_rune r"
  by (auto simp: fix_rune_def encode_rune_def valid_rune_def)

lemma valid_fix_rune [simp]: "valid_rune (fix_rune r)"
proof -
  have "valid_rune 0xFFFD" by (simp add: valid_rune_def)
  then show ?thesis by (simp add: fix_rune_def)
qed

lemma utf8_string_of_runes [simp]: "utf8 (string_of_runes rs) = string_of_runes rs"
proof -
  have e: "string_of_runes (map fix_rune rs) = string_of_runes rs"
    by (simp add: string_of_runes_def encode_fix_rune comp_def)
  have "list_all valid_rune (map fix_rune rs)"
    by (simp add: list_all_iff)
  from runes_string_of_runes [OF this] show ?thesis unfolding utf8_def e by (simp add: e)
qed

lemma keys_fold_append: "Mapping.keys (fold (append_id i) ps m) = Mapping.keys m \<union> set ps"
  by (induction ps arbitrary: m) (auto simp: append_id_def)

lemma builder_keys:
  "Mapping.keys (ib_prefixes (fold (add_entry U minLen maxLen) es b)) =
     Mapping.keys (ib_prefixes b) \<union> (\<Union>e\<in>set es. set (generate_prefixes U (de_url e) minLen maxLen))"
  by (induction es arbitrary: b) (auto simp: add_entry_def keys_fold_append)

lemma builder_entries:
  "Mapping.lookup (ib_entries (fold (add_entry U minLen maxLen) es b)) i = Some e \<Longrightarrow>
   e \<in> new_index_entry ` set es \<or> Mapping.lookup (ib_entries b) i = Some e"
  by (induction es arbitrary: b) (fastforce simp: add_entry_def lookup_update' split: if_splits)+

lemma prepare_idem [simp]: "prepare U (prepare U idx) = prepare U idx"
  by (simp add: prepare_def)

lemma prepare_new_index [simp]:
  "prepare U (new_prefix_index U es minLen maxLen) = new_prefix_index U es minLen maxLen"
  by (simp add: new_prefix_index_def Let_def)

text \<open>What a listing needs for its index to survive: UTF-8 paths and 64-bit numbers.\<close>

definition encodable_entry :: "dir_entry \<Rightarrow> bool" where
  "encodable_entry e \<longleftrightarrow> utf8 (de_url e) = de_url e \<and> in_i64 (de_size e) \<and> in_i64 (de_mod_time e)"

lemma new_index_encodable:
  assumes "list_all encodable_entry es" "int minLen \<le> max_int64" "int maxLen \<le> max_int64"
  shows "encodable (new_prefix_index U es minLen maxLen)"
proof -
  let ?b = "fold (add_entry U minLen maxLen) es empty_builder"
  have k: "Mapping.keys (ib_prefixes ?b) = (\<Union>e\<in>set es. set (generate_prefixes U (de_url e) minLen maxLen))"
    by (simp add: builder_keys empty_builder_def)
  have e: "utf8 (ie_path e) = ie_path e \<and> in_i64 (ie_size e) \<and> in_i64 (ie_mod_time e)"
    if "Mapping.lookup (ib_entries ?b) i = Some e" for i e
  proof -
    have "e \<in> new_index_entry ` set es"
      using builder_entries [OF that] by (simp add: empty_builder_def lookup_empty)
    then show ?thesis using assms(1) by (auto simp: new_index_entry_def encodable_entry_def list_all_iff)
  qed
  have p: "utf8 p = p" if "p \<in> Mapping.keys (ib_prefixes ?b)" for p
    using that unfolding k by (auto simp: set_generate_prefixes)
  have f: "finite (Mapping.keys (ib_prefixes ?b))" unfolding k by simp
  show ?thesis
    using e p f assms(2,3)
    by (simp add: encodable_def new_prefix_index_def Let_def prepare_def)
qed

end
