(* ===== verification/DirCache.thy ===== *)
theory DirCache
  imports Json NaturalOrder
begin

text \<open>
  rclone/dir_cache.go: the cache of directory listings, and the listings themselves
  (DirInfo of rclone/rclone.go). A cache item keeps a gob encoding, that is a copy, of the
  listing; it is empty until the first store. Times are nanoseconds; the mutexes of the
  cache and of an item make the operations below atomic.
\<close>

record dir_info =
  di_dir :: string
  di_sort :: string
  di_order :: string
  di_breadcrumbs :: "string list"
  di_entries :: "dir_entry list"

record dir_cache_item =
  dci_ttl :: int
  dci_data :: "dir_info option"
  dci_expires_at :: int

record dir_cache =
  dc_ttl :: int
  dc_cache :: "(string, dir_cache_item) mapping"

definition new_dir_cache :: "int \<Rightarrow> dir_cache" where
  "new_dir_cache ttl = \<lparr>dc_ttl = ttl, dc_cache = Mapping.empty\<rparr>"

definition dir_cache_enabled :: "dir_cache \<Rightarrow> bool" where
  "dir_cache_enabled c \<longleftrightarrow> 0 < dc_ttl c"

definition new_cache_item :: "int \<Rightarrow> dir_cache_item" where
  "new_cache_item ttl = \<lparr>dci_ttl = ttl, dci_data = None, dci_expires_at = 0\<rparr>"

text \<open>Get: the item of a path, which is added when it is missing.\<close>

definition dir_cache_get :: "dir_cache \<Rightarrow> string \<Rightarrow> dir_cache_item \<times> dir_cache" where
  "dir_cache_get c path =
     (case Mapping.lookup (dc_cache c) path of
        Some item \<Rightarrow> (item, c)
      | None \<Rightarrow>
          let item = new_cache_item (dc_ttl c)
          in (item, c\<lparr>dc_cache := Mapping.update path item (dc_cache c)\<rparr>))"

definition load_locked :: "int \<Rightarrow> dir_cache_item \<Rightarrow> dir_info option" where
  "load_locked now item =
     (case dci_data item of
        None \<Rightarrow> None
      | Some info \<Rightarrow> if dci_expires_at item < now then None else Some info)"

definition store_locked :: "int \<Rightarrow> dir_info \<Rightarrow> dir_cache_item \<Rightarrow> dir_cache_item" where
  "store_locked now info item = item\<lparr>dci_data := Some info, dci_expires_at := now + dci_ttl item\<rparr>"

text \<open>Writing an item back: items are pointers, so a store is visible through the map.\<close>

definition put_item :: "string \<Rightarrow> dir_cache_item \<Rightarrow> dir_cache \<Rightarrow> dir_cache" where
  "put_item path item c = c\<lparr>dc_cache := Mapping.update path item (dc_cache c)\<rparr>"

section \<open>The contract of the cache\<close>

text \<open>
  What getDirInfo relies on: a stored listing is found until it expires, a store under one
  path does not touch the others, and every item carries the lifetime of the cache.
\<close>

definition wf_dir_cache :: "dir_cache \<Rightarrow> bool" where
  "wf_dir_cache c \<longleftrightarrow>
     (\<forall>path item. Mapping.lookup (dc_cache c) path = Some item \<longrightarrow> dci_ttl item = dc_ttl c)"

definition cached :: "int \<Rightarrow> dir_cache \<Rightarrow> string \<Rightarrow> dir_info option" where
  "cached now c path =
     (case Mapping.lookup (dc_cache c) path of None \<Rightarrow> None | Some item \<Rightarrow> load_locked now item)"

locale ttl_cache =
  fixes lookup :: "int \<Rightarrow> 'c \<Rightarrow> 'k \<Rightarrow> 'v option"
    and store :: "int \<Rightarrow> 'k \<Rightarrow> 'v \<Rightarrow> 'c \<Rightarrow> 'c"
    and ttl :: "'c \<Rightarrow> int"
    and inv :: "'c \<Rightarrow> bool"
  assumes lookup_store: "inv c \<Longrightarrow> lookup now (store t k v c) k' =
      (if k' = k then (if t + ttl c < now then None else Some v) else lookup now c k')"
    and ttl_store: "ttl (store t k v c) = ttl c"
    and inv_store: "inv c \<Longrightarrow> inv (store t k v c)"
begin

text \<open>A sequence of stores: the latest one decides, and only until it expires.\<close>

fun stores :: "(int \<times> 'k \<times> 'v) list \<Rightarrow> 'c \<Rightarrow> 'c" where
  "stores [] c = c"
| "stores ((t, k, v) # ws) c = stores ws (store t k v c)"

lemma stores_inv: "inv c \<Longrightarrow> inv (stores ws c) \<and> ttl (stores ws c) = ttl c"
  by (induction ws c rule: stores.induct) (simp_all add: inv_store ttl_store)

lemma lookup_stores:
  "inv c \<Longrightarrow> lookup now (stores ws c) k =
     (case filter (\<lambda>w. fst (snd w) = k) (rev ws) of
        [] \<Rightarrow> lookup now c k
      | (t, _, v) # _ \<Rightarrow> if t + ttl c < now then None else Some v)"
proof (induction ws c rule: stores.induct)
  case (1 c)
  then show ?case by simp
next
  case (2 t k' v ws c)
  have "lookup now (stores ws (store t k' v c)) k =
      (case filter (\<lambda>w. fst (snd w) = k) (rev ws) of
        [] \<Rightarrow> lookup now (store t k' v c) k
      | (t', _, v') # _ \<Rightarrow> if t' + ttl c < now then None else Some v')"
    using 2(1) [OF inv_store [OF 2(2)]] unfolding ttl_store .
  then show ?case using lookup_store [OF 2(2)]
    by (cases "filter (\<lambda>w. fst (snd w) = k) (rev ws)") auto
qed

end

text \<open>A store as getDirInfo performs it: get the item, store into it.\<close>

definition dir_cache_store :: "int \<Rightarrow> string \<Rightarrow> dir_info \<Rightarrow> dir_cache \<Rightarrow> dir_cache" where
  "dir_cache_store now path info c =
     (let (item, c') = dir_cache_get c path in put_item path (store_locked now info item) c')"

lemma wf_new_dir_cache [simp, wf_intros]: "wf_dir_cache (new_dir_cache ttl)"
  by (simp add: wf_dir_cache_def new_dir_cache_def lookup_empty)

lemma dir_cache_get_props:
  assumes "wf_dir_cache c" "dir_cache_get c path = (item, c')"
  shows "dci_ttl item = dc_ttl c" "dc_ttl c' = dc_ttl c" "wf_dir_cache c'"
    "Mapping.lookup (dc_cache c') path = Some item" "cached now c' p = cached now c p"
    "load_locked now item = cached now c path"
  using assms
  by (auto simp: dir_cache_get_def Let_def wf_dir_cache_def new_cache_item_def cached_def load_locked_def
      lookup_update' split: option.splits if_splits)

interpretation dir_cache: ttl_cache cached dir_cache_store dc_ttl wf_dir_cache
proof
  fix c :: dir_cache and now t :: int and k k' :: string and v :: dir_info
  obtain item c' where g: "dir_cache_get c k = (item, c')" by (cases "dir_cache_get c k")
  show "dc_ttl (dir_cache_store t k v c) = dc_ttl c"
    by (simp add: dir_cache_store_def dir_cache_get_def put_item_def Let_def split: option.splits)
  assume inv: "wf_dir_cache c"
  note p = dir_cache_get_props [OF inv g]
  show "wf_dir_cache (dir_cache_store t k v c)"
    using p by (auto simp: dir_cache_store_def g put_item_def store_locked_def wf_dir_cache_def lookup_update')
  show "cached now (dir_cache_store t k v c) k' =
      (if k' = k then (if t + dc_ttl c < now then None else Some v) else cached now c k')"
    using p(1,2) p(5) [of now k']
    by (auto simp: dir_cache_store_def g put_item_def store_locked_def cached_def load_locked_def lookup_update')
qed

end
