(* ===== verification/GoHtml.thy ===== *)
theory GoHtml
  imports GoTime GoUrl
begin

text \<open>
  html.UnescapeString, and the escaping that html/template applies to text, which is what
  the rclone template produces. The table of named entities is an argument.
\<close>

definition is_hex :: "char \<Rightarrow> bool" where
  "is_hex c \<longleftrightarrow> hex_value c \<noteq> None"

definition hex_of :: "char \<Rightarrow> int" where
  "hex_of c = (case hex_value c of Some v \<Rightarrow> int v | None \<Rightarrow> 0)"

definition i32 :: "int \<Rightarrow> int" where
  "i32 x = (x + 2 ^ 31) mod 2 ^ 32 - 2 ^ 31"

text \<open>The code points of the bytes 0x80 to 0x9F in Windows-1252.\<close>

definition windows_1252 :: "rune list" where
  "windows_1252 =
     [0x20AC, 0x81, 0x201A, 0x192, 0x201E, 0x2026, 0x2020, 0x2021, 0x2C6, 0x2030, 0x160, 0x2039, 0x152,
      0x8D, 0x17D, 0x8F, 0x90, 0x2018, 0x2019, 0x201C, 0x201D, 0x2022, 0x2013, 0x2014, 0x2DC, 0x2122,
      0x161, 0x203A, 0x153, 0x9D, 0x17E, 0x178]"

definition numeric_rune :: "int \<Rightarrow> rune" where
  "numeric_rune x =
     (if 0x80 \<le> x \<and> x \<le> 0x9F then windows_1252 ! nat (x - 0x80)
      else if x \<le> 0 \<or> 0xD800 \<le> x \<and> x \<le> 0xDFFF \<or> 0x10FFFF < x then 0xFFFD
      else nat x)"

definition semicolon :: "string \<Rightarrow> nat" where
  "semicolon s = (case s of c # _ \<Rightarrow> if c = CHR '';'' then 1 else 0 | [] \<Rightarrow> 0)"

text \<open>
  What stands for the text after an ampersand: the replacement (with the ampersand), and how
  many characters after the ampersand it covers.
\<close>

definition unescape_numeric :: "string \<Rightarrow> string \<times> nat" where
  "unescape_numeric s =
     (if length s \<le> 2 then (''&'', 0)
      else
        let hex = (s ! 1 = CHR ''x'' \<or> s ! 1 = CHR ''X'');
            t = drop (if hex then 2 else 1) s;
            digits = takeWhile (if hex then is_hex else is_digit) t;
            x = foldl (\<lambda>x c. i32 ((if hex then 16 else 10) * x + hex_of c)) 0 digits;
            n = (if hex then 2 else 1) + length digits + semicolon (drop (length digits) t)
        in if n \<le> 2 then (''&'', 0) else (encode_rune (numeric_rune x), n))"

definition unescape_named :: "(string \<Rightarrow> string option) \<Rightarrow> string \<Rightarrow> string \<times> nat" where
  "unescape_named ents s =
     (let w = takeWhile is_alnum s;
          name = take (length w + semicolon (drop (length w) s)) s
      in case ents name of
           Some out \<Rightarrow> (out, length name)
         | None \<Rightarrow>
             (case filter (\<lambda>j. ents (take j name) \<noteq> None) (rev [2..<Suc (min 6 (length name - 1))]) of
                j # _ \<Rightarrow> (the (ents (take j name)), j)
              | [] \<Rightarrow> (CHR ''&'' # name, length name)))"

definition unescape_entity :: "(string \<Rightarrow> string option) \<Rightarrow> string \<Rightarrow> string \<times> nat" where
  "unescape_entity ents s =
     (case s of
        [] \<Rightarrow> (''&'', 0)
      | c # _ \<Rightarrow> if c = CHR ''#'' then unescape_numeric s else unescape_named ents s)"

function html_unescape :: "(string \<Rightarrow> string option) \<Rightarrow> string \<Rightarrow> string" where
  "html_unescape ents [] = []"
| "html_unescape ents (c # s) =
     (if c = CHR ''&''
      then let (out, n) = unescape_entity ents s in out @ html_unescape ents (drop n s)
      else c # html_unescape ents s)"
  by pat_completeness auto
termination
  by (relation "measure (\<lambda>(e, s). length s)") auto

section \<open>The escaping of html/template\<close>

definition html_escape_char :: "char \<Rightarrow> string" where
  "html_escape_char c =
     (if c = CHR 0x00 then encode_rune 0xFFFD
      else if c = CHR 0x22 then ''&#34;''
      else if c = CHR ''&'' then ''&amp;''
      else if c = CHR 0x27 then ''&#39;''
      else if c = CHR ''+'' then ''&#43;''
      else if c = CHR ''<'' then ''&lt;''
      else if c = CHR ''>'' then ''&gt;''
      else [c])"

definition html_escape :: "string \<Rightarrow> string" where
  "html_escape s = concat (map html_escape_char s)"

text \<open>The entities the escaping uses.\<close>

definition basic_entities :: "(string \<Rightarrow> string option) \<Rightarrow> bool" where
  "basic_entities ents \<longleftrightarrow>
     ents ''amp;'' = Some ''&'' \<and> ents ''lt;'' = Some ''<'' \<and> ents ''gt;'' = Some ''>''"

lemma unescape_numeric_2:
  assumes "is_digit a" "is_digit b"
  shows "unescape_entity ents (CHR ''#'' # a # b # CHR '';'' # s) =
    (encode_rune (numeric_rune (10 * int (byte a - 48) + int (byte b - 48))), 4)"
proof -
  have x: "a \<noteq> CHR ''x''" "a \<noteq> CHR ''X''" using assms(1) by (auto simp: is_digit_def)
  have v: "hex_of c = int (byte c - 48)" if "is_digit c" for c
    using that by (auto simp: hex_of_def hex_value_def is_digit_def Let_def)
  have ba: "byte a - 48 \<le> 9" "byte b - 48 \<le> 9" using assms by (auto simp: is_digit_def)
  then have "i32 (int (byte a - 48)) = int (byte a - 48)"
    "i32 (10 * int (byte a - 48) + int (byte b - 48)) = 10 * int (byte a - 48) + int (byte b - 48)"
    by (simp_all add: i32_def)
  then show ?thesis
    using assms x by (simp add: unescape_entity_def unescape_numeric_def v semicolon_def is_digit_def Let_def)
qed

lemma unescape_name:
  assumes "ents (w @ '';'') = Some out" "list_all is_alnum w" "w \<noteq> []"
  shows "unescape_entity ents (w @ CHR '';'' # s) = (out, length w + 1)"
proof -
  have "\<not> is_alnum (CHR '';'')" by (simp add: is_alnum_def)
  then have t: "takeWhile is_alnum (w @ CHR '';'' # s) = w"
    using assms(2) by (simp add: takeWhile_append list_all_iff)
  obtain c v where w: "w = c # v" using assms(3) by (cases w) auto
  then have "c \<noteq> CHR ''#''" using assms(2) by (auto simp: is_alnum_def)
  then have "unescape_entity ents (w @ CHR '';'' # s) = unescape_named ents (w @ CHR '';'' # s)"
    using w by (simp add: unescape_entity_def)
  then show ?thesis using t assms(1) by (simp add: unescape_named_def semicolon_def Let_def)
qed

lemma unescape_escape_html_char:
  assumes "basic_entities ents" "c \<noteq> CHR 0x00"
  shows "html_unescape ents (html_escape_char c @ s) = c # html_unescape ents s"
proof -
  have al: "is_alnum (CHR ''a'')" "is_alnum (CHR ''m'')" "is_alnum (CHR ''p'')" "is_alnum (CHR ''l'')"
    "is_alnum (CHR ''t'')" "is_alnum (CHR ''g'')" by (simp_all add: is_alnum_def)
  have named: "unescape_entity ents (''amp;'' @ s) = (''&'', 4)" "unescape_entity ents (''lt;'' @ s) = (''<'', 3)"
    "unescape_entity ents (''gt;'' @ s) = (''>'', 3)"
    using assms(1) al unescape_name [of ents "''amp''" "''&''" s] unescape_name [of ents "''lt''" "''<''" s]
      unescape_name [of ents "''gt''" "''>''" s] by (simp_all add: basic_entities_def)
  have num: "unescape_entity ents (''#34;'' @ s) = ([CHR 0x22], 4)" "unescape_entity ents (''#39;'' @ s) = ([CHR 0x27], 4)"
    "unescape_entity ents (''#43;'' @ s) = (''+'', 4)"
    using unescape_numeric_2 [of "CHR ''3''" "CHR ''4''" ents s] unescape_numeric_2 [of "CHR ''3''" "CHR ''9''" ents s]
      unescape_numeric_2 [of "CHR ''4''" "CHR ''3''" ents s]
    by (simp_all add: is_digit_def numeric_rune_def encode_rune_def)
      (simp_all add: char_of_eq_iff)
  show ?thesis using assms(2) named num by (simp add: html_escape_char_def)
qed

lemma unescape_escape_html:
  "basic_entities ents \<Longrightarrow> CHR 0x00 \<notin> set s \<Longrightarrow> html_unescape ents (html_escape s) = s"
proof (induction s)
  case Nil
  then show ?case by (simp add: html_escape_def)
next
  case (Cons c s)
  then have "c \<noteq> CHR 0x00" by auto
  then show ?case using Cons unescape_escape_html_char [of ents c "html_escape s"]
    by (simp add: html_escape_def)
qed

end
