(* ===== verification/Rclone.thy ===== *)
theory Rclone
  imports DirCache GoHtml FileId
begin

text \<open>
  The client of rclone/rclone.go: requests and the checks of their answers, opening a file,
  a range of it and proxying it, listing a directory through the cache, and listing all
  files. The HTTP transport, the JSON syntax and the table of HTML entities are arguments.
\<close>

section \<open>Requests and errors\<close>

record http_request =
  rq_method :: string
  rq_url :: url
  rq_range :: "string option"

text \<open>The body of a response is the sequence of its chunks, as reads return them.\<close>

record http_response =
  rs_status :: nat
  rs_header :: "string \<Rightarrow> string"
  rs_body :: "string list"

datatype rclone_error =
    RcloneStatus nat string
  | RequestFailed
  | InvalidModTime
  | DifferentModTime int int
  | InvalidSize
  | DifferentSize int int
  | DecodeFailed
  | RclonePanic panic

text \<open>A transport answers a request with an error (Inl) or a response.\<close>

type_synonym transport = "http_request \<Rightarrow> unit + http_response"

definition new_rclone_error :: "http_response \<Rightarrow> rclone_error" where
  "new_rclone_error resp =
     RcloneStatus (rs_status resp) (case rs_body resp of [] \<Rightarrow> [] | chunk # _ \<Rightarrow> take 128 chunk)"

definition is_not_found_error :: "rclone_error option \<Rightarrow> bool" where
  "is_not_found_error err = (case err of Some (RcloneStatus code _) \<Rightarrow> code = 404 | _ \<Rightarrow> False)"

record rclone =
  rc_url :: url
  rc_target :: string
  rc_dir_cache :: dir_cache

definition target_url :: "rclone \<Rightarrow> string \<Rightarrow> url" where
  "target_url r path = join_path (rc_url r) [''['' @ rc_target r @ '']'', path]"

definition make_request :: "transport \<Rightarrow> string \<Rightarrow> url \<Rightarrow> rclone_error + http_response" where
  "make_request http rmethod u =
     (case http \<lparr>rq_method = rmethod, rq_url = u, rq_range = None\<rparr> of
        Inl _ \<Rightarrow> Inl RequestFailed
      | Inr resp \<Rightarrow> if rs_status resp \<noteq> 200 then Inl (new_rclone_error resp) else Inr resp)"

section \<open>Checks of a response against the identifier of the file\<close>

definition check_mod_time :: "file_id \<Rightarrow> (string \<Rightarrow> string) \<Rightarrow> rclone_error option" where
  "check_mod_time fid hdr =
     (case parse_http_time (hdr ''Last-Modified'') of
        None \<Rightarrow> Some InvalidModTime
      | Some t \<Rightarrow> if t \<noteq> fid_mod_time fid then Some (DifferentModTime t (fid_mod_time fid)) else None)"

definition check_size :: "file_id \<Rightarrow> string \<Rightarrow> rclone_error option" where
  "check_size fid raw =
     (case parse_int raw of
        Inl _ \<Rightarrow> Some InvalidSize
      | Inr n \<Rightarrow> if n \<noteq> fid_size fid then Some (DifferentSize n (fid_size fid)) else None)"

definition check_content_length :: "file_id \<Rightarrow> (string \<Rightarrow> string) \<Rightarrow> rclone_error option" where
  "check_content_length fid hdr = check_size fid (hdr ''Content-Length'')"

definition check_content_range :: "file_id \<Rightarrow> (string \<Rightarrow> string) \<Rightarrow> rclone_error option" where
  "check_content_range fid hdr = check_size fid (cut_after slash (hdr ''Content-Range''))"

text \<open>Two checks in sequence, as the callers run them.\<close>

definition checked :: "rclone_error option \<Rightarrow> rclone_error option \<Rightarrow> 'a \<Rightarrow> rclone_error + 'a" where
  "checked e1 e2 v =
     (case e1 of Some e \<Rightarrow> Inl e | None \<Rightarrow> (case e2 of Some e \<Rightarrow> Inl e | None \<Rightarrow> Inr v))"

lemma checked_Inr [simp]: "checked e1 e2 v = Inr w \<longleftrightarrow> e1 = None \<and> e2 = None \<and> w = v"
  by (auto simp: checked_def split: option.splits)

definition open_file :: "transport \<Rightarrow> rclone \<Rightarrow> file_id \<Rightarrow> rclone_error + string" where
  "open_file http r fid =
     (case make_request http ''GET'' (target_url r (get_escaped_path fid)) of
        Inl e \<Rightarrow> Inl e
      | Inr resp \<Rightarrow>
          checked (check_mod_time fid (rs_header resp)) (check_content_length fid (rs_header resp))
            (concat (rs_body resp)))"

definition range_header :: "int \<Rightarrow> int \<Rightarrow> string" where
  "range_header rangeStart rangeEnd = ''bytes='' @ format_int rangeStart @ ''-'' @ format_int rangeEnd"

definition request_file_range ::
  "transport \<Rightarrow> rclone \<Rightarrow> file_id \<Rightarrow> int \<Rightarrow> int \<Rightarrow> rclone_error + string" where
  "request_file_range http r fid rangeStart rangeEnd =
     (case http \<lparr>rq_method = ''GET'', rq_url = target_url r (get_escaped_path fid),
                 rq_range = Some (range_header rangeStart rangeEnd)\<rparr> of
        Inl _ \<Rightarrow> Inl RequestFailed
      | Inr resp \<Rightarrow>
          if rs_status resp \<noteq> 206 then Inl (new_rclone_error resp)
          else checked (check_mod_time fid (rs_header resp)) (check_content_range fid (rs_header resp))
            (concat (rs_body resp)))"

text \<open>
  ProxyFileRequest: the rewritten URL, ModifyResponse, and what the client gets: the response
  or an error with status 500. The user information moves from the URL to a header.
\<close>

definition proxy_url :: "rclone \<Rightarrow> file_id \<Rightarrow> url" where
  "proxy_url r fid =
     (let u = target_url r (get_escaped_path fid) in u\<lparr>u_path := ensure_prefix (u_path u) ''/''\<rparr>)"

definition modify_response :: "file_id \<Rightarrow> http_response \<Rightarrow> rclone_error option" where
  "modify_response fid resp =
     (if rs_status resp \<noteq> 200 then None
      else case check_mod_time fid (rs_header resp) of
          Some e \<Rightarrow> Some e
        | None \<Rightarrow> check_content_length fid (rs_header resp))"

datatype proxy_result = ProxyResponse http_response | ProxyError "rclone_error"

definition proxy_file_request ::
  "transport \<Rightarrow> rclone \<Rightarrow> file_id \<Rightarrow> string option \<Rightarrow> proxy_result" where
  "proxy_file_request http r fid rng =
     (case http \<lparr>rq_method = ''GET'', rq_url = proxy_url r fid, rq_range = rng\<rparr> of
        Inl _ \<Rightarrow> ProxyError RequestFailed
      | Inr resp \<Rightarrow>
          (case modify_response fid resp of Some e \<Rightarrow> ProxyError e | None \<Rightarrow> ProxyResponse resp))"

section \<open>Directory listings\<close>

definition empty_entry :: dir_entry where
  "empty_entry = \<lparr>de_url = [], de_leaf = [], de_is_dir = False, de_size = 0, de_mod_time = 0\<rparr>"

definition entry_fields :: "dir_entry fields" where
  "entry_fields =
     [(''url'', setter de_url de_url_update decode_string),
      (''leaf'', setter de_leaf de_leaf_update decode_string),
      (''is_dir'', setter de_is_dir de_is_dir_update decode_bool),
      (''size'', setter de_size de_size_update decode_int64),
      (''mod_time'', setter de_mod_time de_mod_time_update decode_int64)]"

definition breadcrumb_fields :: "string fields" where
  "breadcrumb_fields = [(''text'', decode_string)]"

definition list_setter :: "(('a list \<Rightarrow> 'a list) \<Rightarrow> 's \<Rightarrow> 's) \<Rightarrow> (json \<Rightarrow> json_error + 'a) \<Rightarrow>
    's \<Rightarrow> json \<Rightarrow> json_error + 's" where
  "list_setter upd dec s j = (case decode_list dec j of Inl e \<Rightarrow> Inl e | Inr v \<Rightarrow> Inr (upd (\<lambda>_. v) s))"

definition dir_info_fields :: "dir_info fields" where
  "dir_info_fields =
     [(''dir'', setter di_dir di_dir_update decode_string),
      (''sort'', setter di_sort di_sort_update decode_string),
      (''order'', setter di_order di_order_update decode_string),
      (''breadcrumbs'', list_setter di_breadcrumbs_update (decode_struct breadcrumb_fields [])),
      (''entries'', list_setter di_entries_update (decode_struct entry_fields empty_entry))]"

definition empty_dir_info :: dir_info where
  "empty_dir_info = \<lparr>di_dir = [], di_sort = [], di_order = [], di_breadcrumbs = [], di_entries = []\<rparr>"

text \<open>Decoding into a nil pointer: null leaves it nil, and the next line dereferences it.\<close>

definition decode_dir_info :: "json option \<Rightarrow> rclone_error + dir_info" where
  "decode_dir_info doc =
     (case doc of
        None \<Rightarrow> Inl DecodeFailed
      | Some JNull \<Rightarrow> Inl (RclonePanic NilDereference)
      | Some j \<Rightarrow>
          (case decode_struct dir_info_fields empty_dir_info j of
             Inl _ \<Rightarrow> Inl DecodeFailed
           | Inr info \<Rightarrow> Inr info))"

text \<open>The clean-up of a decoded listing.\<close>

definition fix_entry :: "(string \<Rightarrow> string option) \<Rightarrow> string \<Rightarrow> dir_entry \<Rightarrow> dir_entry" where
  "fix_entry ents dir v =
     (let v = v\<lparr>de_leaf := html_unescape ents (de_leaf v)\<rparr>;
          v = v\<lparr>de_url := path_join [dir, de_leaf v]\<rparr>
      in if de_is_dir v then v\<lparr>de_url := ensure_suffix (de_url v) ''/'', de_size := 0\<rparr> else v)"

definition fix_dir_info :: "(string \<Rightarrow> string option) \<Rightarrow> dir_info \<Rightarrow> dir_info" where
  "fix_dir_info ents info =
     (let bs = filter (\<lambda>v. v \<noteq> []) (di_breadcrumbs info);
          es = filter (\<lambda>v. de_leaf v \<noteq> []) (di_entries info);
          dir = ensure_suffix (html_unescape ents (di_dir info)) ''/''
      in info\<lparr>di_dir := dir, di_breadcrumbs := map (html_unescape ents) bs,
              di_entries := map (fix_entry ents dir) es\<rparr>)"

text \<open>What the modelled functions take from outside.\<close>

record rclone_env =
  re_http :: transport
  re_json :: "string \<Rightarrow> json option"
  re_entities :: "string \<Rightarrow> string option"

definition request_dir :: "rclone_env \<Rightarrow> rclone \<Rightarrow> string \<Rightarrow> rclone_error + dir_info" where
  "request_dir env r path =
     (case make_request (re_http env) ''GET'' (target_url r path) of
        Inl e \<Rightarrow> Inl e
      | Inr resp \<Rightarrow>
          (case decode_dir_info (re_json env (concat (rs_body resp))) of
             Inl e \<Rightarrow> Inl e
           | Inr info \<Rightarrow> Inr (fix_dir_info (re_entities env) info)))"

text \<open>
  getDirInfo. \<open>now\<close> is the time of the load and \<open>later\<close> that of the store. The item is locked
  from the load to the store.
\<close>

definition get_dir_info_unsorted ::
  "rclone_env \<Rightarrow> rclone \<Rightarrow> string \<Rightarrow> int \<Rightarrow> int \<Rightarrow> (rclone_error + dir_info) \<times> rclone" where
  "get_dir_info_unsorted env r path now later =
     (if \<not> dir_cache_enabled (rc_dir_cache r) then (request_dir env r path, r)
      else
        let (item, c) = dir_cache_get (rc_dir_cache r) path in
        case load_locked now item of
          Some info \<Rightarrow> (Inr info, r\<lparr>rc_dir_cache := c\<rparr>)
        | None \<Rightarrow>
            (case request_dir env r path of
               Inl e \<Rightarrow> (Inl e, r\<lparr>rc_dir_cache := c\<rparr>)
             | Inr info \<Rightarrow>
                 (Inr info, r\<lparr>rc_dir_cache := put_item path (store_locked later info item) c\<rparr>)))"

definition sort_fn :: "ucd \<Rightarrow> string \<Rightarrow> (dir_entry \<Rightarrow> dir_entry \<Rightarrow> int) option" where
  "sort_fn U srt =
     (if srt = ''namedirfirst'' then Some (compare_dir_entry_by_name U)
      else if srt = ''size'' then Some (compare_dir_entry_by_size U)
      else if srt = ''time'' then Some (compare_dir_entry_by_time U)
      else None)"

definition sort_dir_info :: "ucd \<Rightarrow> ((dir_entry \<Rightarrow> dir_entry \<Rightarrow> int) \<Rightarrow> dir_entry list \<Rightarrow> dir_entry list) \<Rightarrow>
    string \<Rightarrow> string \<Rightarrow> dir_info \<Rightarrow> dir_info" where
  "sort_dir_info U sortf srt order info =
     (let (srt, f) = (case sort_fn U srt of
                         None \<Rightarrow> (''namedirfirst'', compare_dir_entry_by_name U)
                       | Some f \<Rightarrow> (srt, f));
          es = sortf f (di_entries info)
      in if order = ''desc'' then info\<lparr>di_sort := srt, di_order := ''desc'', di_entries := rev es\<rparr>
         else info\<lparr>di_sort := srt, di_order := ''asc'', di_entries := es\<rparr>)"

definition get_dir_info :: "ucd \<Rightarrow> ((dir_entry \<Rightarrow> dir_entry \<Rightarrow> int) \<Rightarrow> dir_entry list \<Rightarrow> dir_entry list) \<Rightarrow>
    rclone_env \<Rightarrow> rclone \<Rightarrow> string \<Rightarrow> string \<Rightarrow> string \<Rightarrow> int \<Rightarrow> int \<Rightarrow>
    (rclone_error + dir_info) \<times> rclone" where
  "get_dir_info U sortf env r path srt order now later =
     (case get_dir_info_unsorted env r path now later of
        (Inl e, r') \<Rightarrow> (Inl e, r')
      | (Inr info, r') \<Rightarrow> (Inr (sort_dir_info U sortf srt order info), r'))"

section \<open>All files\<close>

record list_item =
  li_path :: string
  li_is_dir :: bool
  li_size :: int
  li_mod_time :: int

definition empty_item :: list_item where
  "empty_item = \<lparr>li_path = [], li_is_dir = False, li_size = 0, li_mod_time = zero_time\<rparr>"

definition item_fields :: "list_item fields" where
  "item_fields =
     [(''Path'', setter li_path li_path_update decode_string),
      (''IsDir'', setter li_is_dir li_is_dir_update decode_bool),
      (''Size'', setter li_size li_size_update decode_int64),
      (''ModTime'', setter li_mod_time li_mod_time_update decode_time)]"

definition list_fields :: "list_item list fields" where
  "list_fields = [(''list'', \<lambda>_ j. decode_list (decode_struct item_fields empty_item) j)]"

definition list_query :: "string \<Rightarrow> string" where
  "list_query target =
     ''fs='' @ url_escape EncQuery target @ ''&opt='' @
     url_escape EncQuery (''{'' @ CHR 0x22 # ''noMimeType'' @ CHR 0x22 # '':true,'' @
       CHR 0x22 # ''recurse'' @ CHR 0x22 # '':true}'') @
     ''&remote=''"

definition list_entry :: "list_item \<Rightarrow> dir_entry" where
  "list_entry v =
     (let p = ensure_prefix (li_path v) ''/'';
          p = (if li_is_dir v then ensure_suffix p ''/'' else p)
      in \<lparr>de_url = p, de_leaf = path_base p, de_is_dir = li_is_dir v,
          de_size = (if li_is_dir v then 0 else li_size v), de_mod_time = li_mod_time v\<rparr>)"

definition get_all_files :: "rclone_env \<Rightarrow> rclone \<Rightarrow> rclone_error + dir_entry list" where
  "get_all_files env r =
     (let u = (join_path (rc_url r) [''operations/list''])\<lparr>u_raw_query := list_query (rc_target r)\<rparr> in
      case make_request (re_http env) ''POST'' u of
        Inl e \<Rightarrow> Inl e
      | Inr resp \<Rightarrow>
          (case re_json env (concat (rs_body resp)) of
             None \<Rightarrow> Inl DecodeFailed
           | Some j \<Rightarrow>
               (case decode_struct list_fields [] j of
                  Inl _ \<Rightarrow> Inl DecodeFailed
                | Inr items \<Rightarrow> Inr (map list_entry items))))"

section \<open>Paths of entries\<close>

lemma clean_comps_filter:
  "list_all (\<lambda>w. w = [] \<or> proper_elem w) ws \<Longrightarrow>
   clean_comps rooted st ws = rev st @ filter (\<lambda>w. w \<noteq> []) ws"
  by (induction ws arbitrary: st) (auto simp: proper_elem_def)

lemma path_clean_split:
  assumes "list_all (\<lambda>w. slash \<notin> set w) ws" "list_all (\<lambda>w. w = [] \<or> proper_elem w) ws"
    and "filter (\<lambda>w. w \<noteq> []) ws \<noteq> []"
  shows "path_clean (rooted_join ws) = rooted_join (filter (\<lambda>w. w \<noteq> []) ws)"
proof -
  have "ws \<noteq> []" using assms(3) by auto
  then have r: "is_rooted (rooted_join ws)" by (cases ws) (auto simp: is_rooted_def)
  have "path_comps (rooted_join ws) = filter (\<lambda>w. w \<noteq> []) ws"
    using assms(2) clean_comps_filter [of ws True "[]"]
    by (simp add: path_comps_def r split_on_rooted_join [OF assms(1)])
  then show ?thesis
    using r assms(3) rooted_join_join [of "filter (\<lambda>w. w \<noteq> []) ws"] by (simp add: path_clean_comps)
qed

text \<open>The path of a directory, with the trailing slash the program gives it.\<close>

definition dir_path :: "string list \<Rightarrow> string" where
  "dir_path ws = rooted_join ws @ ''/''"

lemma path_join_dir:
  assumes "list_all proper_elem (ws @ [w])"
  shows "path_join [dir_path ws, w] = rooted_join (ws @ [w])"
    and "path_join [dir_path ws, w @ ''/''] = rooted_join (ws @ [w])"
proof -
  have ns: "list_all (\<lambda>w. slash \<notin> set w) (ws @ [w])" and ne: "list_all (\<lambda>w. w \<noteq> []) (ws @ [w])"
    using assms by (auto simp: list_all_iff proper_elem_def)
  have f: "filter (\<lambda>w. w \<noteq> []) ws = ws" and w: "w \<noteq> []" using ne by (auto simp: filter_id_conv list_all_iff)
  have a: "path_clean (rooted_join (ws @ [[], w])) = rooted_join (ws @ [w])"
    by (subst path_clean_split) (use assms ns f w in \<open>auto simp: list_all_iff\<close>)
  have b: "path_clean (rooted_join (ws @ [[], w, []])) = rooted_join (ws @ [w])"
    by (subst path_clean_split) (use assms ns f w in \<open>auto simp: list_all_iff\<close>)
  show "path_join [dir_path ws, w] = rooted_join (ws @ [w])"
    using a w by (simp add: path_join_def dir_path_def)
  show "path_join [dir_path ws, w @ ''/''] = rooted_join (ws @ [w])"
    using b w by (simp add: path_join_def dir_path_def)
qed

lemma rooted_join_suffix: "list_all proper_elem ws \<Longrightarrow> \<not> suffix ''/'' (rooted_join ws)"
proof (cases ws rule: rev_cases)
  case Nil
  then show ?thesis by simp
next
  case (snoc vs v)
  assume "list_all proper_elem ws"
  then have v: "v \<noteq> []" "slash \<notin> set v" using snoc by (auto simp: proper_elem_def)
  then obtain u c where u: "v = u @ [c]" by (cases v rule: rev_cases) auto
  then have "c \<noteq> slash" using v by auto
  then show ?thesis using snoc u by (auto simp: suffix_def)
qed

section \<open>The template of rclone and its decoding\<close>

text \<open>
  rclone/rclone.gotmpl, executed on a directory: its path, the breadcrumbs and the entries
  (the leaf of a directory ends with a slash). Text is escaped for HTML. The result is the
  JSON document, for text without backslashes, quotes and control characters, which the
  template does not escape for JSON.
\<close>

record served_entry =
  se_name :: string
  se_is_dir :: bool
  se_size :: int
  se_mod_time :: int

definition served_leaf :: "served_entry \<Rightarrow> string" where
  "served_leaf e = (if se_is_dir e then se_name e @ ''/'' else se_name e)"

definition extra_object :: json where
  "extra_object = JObj [(''_c'', JStr ''extra object to fix trailing comma'')]"

definition template_entry :: "served_entry \<Rightarrow> json" where
  "template_entry e =
     JObj [(''leaf'', JStr (html_escape (served_leaf e))), (''is_dir'', JBool (se_is_dir e)),
           (''size'', JInt (se_size e)), (''mod_time'', JInt (se_mod_time e))]"

definition template_listing :: "string \<Rightarrow> string \<Rightarrow> string \<Rightarrow> string list \<Rightarrow> served_entry list \<Rightarrow> json" where
  "template_listing dir srt order crumbs es =
     JObj [(''dir'', JStr (html_escape dir)), (''sort'', JStr (html_escape srt)),
           (''order'', JStr (html_escape order)),
           (''breadcrumbs'', JArr (map (\<lambda>c. JObj [(''text'', JStr (html_escape c))]) crumbs @ [extra_object])),
           (''entries'', JArr (map template_entry es @ [extra_object]))]"

definition json_safe :: "string \<Rightarrow> bool" where
  "json_safe s \<longleftrightarrow> list_all (\<lambda>c. 0x20 \<le> byte c \<and> c \<noteq> CHR 0x5C) s"

definition wf_served :: "served_entry \<Rightarrow> bool" where
  "wf_served e \<longleftrightarrow>
     proper_elem (se_name e) \<and> json_safe (se_name e) \<and> in_i64 (se_size e) \<and> in_i64 (se_mod_time e)"

text \<open>The entry the listing of the directory \<open>ws\<close> has for it.\<close>

definition listed_entry :: "string list \<Rightarrow> served_entry \<Rightarrow> dir_entry" where
  "listed_entry ws e =
     \<lparr>de_url = (if se_is_dir e then dir_path (ws @ [se_name e]) else rooted_join (ws @ [se_name e])),
      de_leaf = served_leaf e, de_is_dir = se_is_dir e,
      de_size = (if se_is_dir e then 0 else se_size e), de_mod_time = se_mod_time e\<rparr>"

lemma html_escape_Nil_iff [simp]: "html_escape s = [] \<longleftrightarrow> s = []"
proof (cases s)
  case (Cons c t)
  have "html_escape_char c \<noteq> []" by (simp add: html_escape_char_def encode_rune_def)
  then show ?thesis using Cons by (simp add: html_escape_def)
qed (simp add: html_escape_def)

lemma json_safe_no_nul:
  assumes "json_safe s"
  shows "CHR 0x00 \<notin> set s"
proof
  assume c: "CHR 0x00 \<in> set s"
  have "\<forall>c\<in>set s. 32 \<le> byte c" using assms by (simp add: json_safe_def list_all_iff)
  from bspec [OF this c] show False by simp
qed

lemma json_safe_append [simp]: "json_safe (s @ t) \<longleftrightarrow> json_safe s \<and> json_safe t"
  by (simp add: json_safe_def)

lemma json_safe_slash [simp]: "json_safe ''/''"
  by (simp add: json_safe_def)

definition decoded_entry :: "served_entry \<Rightarrow> dir_entry" where
  "decoded_entry e =
     \<lparr>de_url = [], de_leaf = html_escape (served_leaf e), de_is_dir = se_is_dir e,
      de_size = se_size e, de_mod_time = se_mod_time e\<rparr>"

lemma decode_struct_JObj: "decode_struct tbl old (JObj kvs) = decode_fields tbl kvs old"
  by (simp add: decode_struct_def)

lemma decode_template_entry:
  "in_i64 (se_size e) \<Longrightarrow> in_i64 (se_mod_time e) \<Longrightarrow>
   decode_struct entry_fields empty_entry (template_entry e) = Inr (decoded_entry e)"
  by (simp add: decode_struct_def template_entry_def find_field_def entry_fields_def setter_def
      empty_entry_def decoded_entry_def)

lemma decode_extra_entry: "decode_struct entry_fields empty_entry extra_object = Inr empty_entry"
  by (simp add: decode_struct_def extra_object_def find_field_def entry_fields_def lower_char_def)

lemma decode_crumb: "decode_struct breadcrumb_fields [] (JObj [(''text'', JStr s)]) = Inr s"
  by (simp add: decode_struct_def find_field_def breadcrumb_fields_def)

lemma decode_extra_crumb: "decode_struct breadcrumb_fields [] extra_object = Inr []"
  by (simp add: decode_struct_def extra_object_def find_field_def breadcrumb_fields_def lower_char_def)

lemma decode_template_listing:
  assumes "list_all (\<lambda>e. in_i64 (se_size e) \<and> in_i64 (se_mod_time e)) es"
  shows "decode_dir_info (Some (template_listing dir srt order crumbs es)) =
    Inr \<lparr>di_dir = html_escape dir, di_sort = html_escape srt, di_order = html_escape order,
         di_breadcrumbs = map html_escape crumbs @ [[]], di_entries = map decoded_entry es @ [empty_entry]\<rparr>"
proof -
  have "map_result (decode_struct entry_fields empty_entry) (map template_entry es) =
      Inr (map decoded_entry es)"
    using assms decode_template_entry by (induction es) auto
  moreover have "map_result (decode_struct breadcrumb_fields []) (map (\<lambda>c. JObj [(''text'', JStr (html_escape c))]) crumbs)
      = Inr (map html_escape crumbs)"
    using decode_crumb by (induction crumbs) auto
  ultimately show ?thesis
    by (simp add: decode_dir_info_def template_listing_def decode_struct_JObj
        find_field_def dir_info_fields_def setter_def list_setter_def empty_dir_info_def map_result_append
        decode_extra_entry decode_extra_crumb)
qed

lemma fix_decoded_entry:
  assumes "basic_entities ents" "wf_served e" "list_all proper_elem ws"
  shows "fix_entry ents (dir_path ws) (decoded_entry e) = listed_entry ws e"
proof -
  have "json_safe (served_leaf e)" using assms(2) by (simp add: served_leaf_def wf_served_def)
  then have u: "html_unescape ents (html_escape (served_leaf e)) = served_leaf e"
    using assms(1) by (intro unescape_escape_html json_safe_no_nul)
  have p: "list_all proper_elem (ws @ [se_name e])" using assms by (simp add: wf_served_def)
  note s = rooted_join_suffix [OF p]
  show ?thesis
    using u path_join_dir [OF p] s
    by (simp add: fix_entry_def decoded_entry_def listed_entry_def Let_def ensure_suffix_def dir_path_def
        served_leaf_def)
qed

lemma fix_template_listing:
  assumes ents: "basic_entities ents" and es: "list_all wf_served es" and ws: "list_all proper_elem ws"
    and dir: "json_safe (rooted_join ws)" and crumbs: "list_all (\<lambda>c. c \<noteq> [] \<and> json_safe c) crumbs"
  shows "\<exists>info. decode_dir_info (Some (template_listing (rooted_join ws) srt order crumbs es)) = Inr info
    \<and> fix_dir_info ents info =
       \<lparr>di_dir = dir_path ws, di_sort = html_escape srt, di_order = html_escape order,
        di_breadcrumbs = crumbs, di_entries = map (listed_entry ws) es\<rparr>"
proof -
  have d: "ensure_suffix (html_unescape ents (html_escape (rooted_join ws))) ''/'' = dir_path ws"
  proof -
    have "\<not> suffix ''/'' (rooted_join ws)" using ws by (rule rooted_join_suffix)
    then show ?thesis using dir ents
      by (simp add: unescape_escape_html json_safe_no_nul ensure_suffix_def dir_path_def)
  qed
  have c: "map (html_unescape ents) (filter (\<lambda>v. v \<noteq> []) (map html_escape crumbs @ [[]])) = crumbs"
    using crumbs ents by (induction crumbs) (simp_all add: unescape_escape_html json_safe_no_nul)
  have e: "map (fix_entry ents (dir_path ws)) (filter (\<lambda>v. de_leaf v \<noteq> []) (map decoded_entry es @ [empty_entry]))
      = map (listed_entry ws) es"
    using es ws ents
    by (induction es)
      (simp_all add: empty_entry_def fix_decoded_entry, auto simp: decoded_entry_def served_leaf_def wf_served_def
        proper_elem_def)
  have "list_all (\<lambda>e. in_i64 (se_size e) \<and> in_i64 (se_mod_time e)) es"
    using es by (auto simp: list_all_iff wf_served_def)
  then show ?thesis using d c e by (simp add: decode_template_listing fix_dir_info_def Let_def)
qed

section \<open>The cache in getDirInfo\<close>

text \<open>The cache after a request: the answer is stored when it came from a successful request.\<close>

lemma get_dir_info_unsorted_disabled:
  "\<not> dir_cache_enabled (rc_dir_cache r) \<Longrightarrow>
   get_dir_info_unsorted env r path now later = (request_dir env r path, r)"
  by (simp add: get_dir_info_unsorted_def)

lemma get_dir_info_unsorted_cases:
  assumes "wf_dir_cache (rc_dir_cache r)" "dir_cache_enabled (rc_dir_cache r)"
    and "get_dir_info_unsorted env r path now later = (res, r')"
  shows "rc_url r' = rc_url r" "rc_target r' = rc_target r"
    and "wf_dir_cache (rc_dir_cache r')" "dc_ttl (rc_dir_cache r') = dc_ttl (rc_dir_cache r)"
    and "res = (case cached now (rc_dir_cache r) path of Some info \<Rightarrow> Inr info | None \<Rightarrow> request_dir env r path)"
    and "cached t (rc_dir_cache r') p =
      (case (cached now (rc_dir_cache r) path, res) of
         (None, Inr info) \<Rightarrow> cached t (dir_cache_store later path info (rc_dir_cache r)) p
       | _ \<Rightarrow> cached t (rc_dir_cache r) p)"
proof -
  let ?c = "rc_dir_cache r"
  obtain item c where g: "dir_cache_get ?c path = (item, c)" by (cases "dir_cache_get ?c path")
  note gp = dir_cache_get_props [OF assms(1) g]
  have st: "put_item path (store_locked later info item) c = dir_cache_store later path info ?c" for info
    by (simp add: dir_cache_store_def g)
  have "rc_url r' = rc_url r \<and> rc_target r' = rc_target r \<and>
      rc_dir_cache r' = (case (cached now ?c path, request_dir env r path) of
         (None, Inr info) \<Rightarrow> dir_cache_store later path info ?c | _ \<Rightarrow> c) \<and>
      res = (case cached now ?c path of Some info \<Rightarrow> Inr info | None \<Rightarrow> request_dir env r path)"
    using assms(2,3) gp(6)
    by (auto simp: get_dir_info_unsorted_def g st split: option.splits sum.splits)
  then show "rc_url r' = rc_url r" "rc_target r' = rc_target r"
    and "wf_dir_cache (rc_dir_cache r')" "dc_ttl (rc_dir_cache r') = dc_ttl ?c"
    and "res = (case cached now ?c path of Some info \<Rightarrow> Inr info | None \<Rightarrow> request_dir env r path)"
    and "cached t (rc_dir_cache r') p =
      (case (cached now ?c path, res) of
         (None, Inr info) \<Rightarrow> cached t (dir_cache_store later path info ?c) p
       | _ \<Rightarrow> cached t ?c p)"
    using gp dir_cache.inv_store [OF assms(1)] dir_cache.ttl_store
    by (auto split: option.splits sum.splits)
qed

section \<open>The chosen order\<close>

definition chosen_order :: "ucd \<Rightarrow> string \<Rightarrow> dir_entry \<Rightarrow> dir_entry \<Rightarrow> int" where
  "chosen_order U srt = (case sort_fn U srt of None \<Rightarrow> compare_dir_entry_by_name U | Some f \<Rightarrow> f)"

lemma sort_dir_info_sel:
  "di_dir (sort_dir_info U sortf srt order info) = di_dir info"
  "di_breadcrumbs (sort_dir_info U sortf srt order info) = di_breadcrumbs info"
  "di_entries (sort_dir_info U sortf srt order info) =
     (if order = ''desc'' then rev (sortf (chosen_order U srt) (di_entries info))
      else sortf (chosen_order U srt) (di_entries info))"
  by (cases "sort_fn U srt"; simp add: sort_dir_info_def chosen_order_def Let_def)+

lemma ensure_prefix_not_rooted: "\<not> is_rooted p \<Longrightarrow> ensure_prefix p ''/'' = slash # p"
  by (cases p) (auto simp: ensure_prefix_def is_rooted_def)

section \<open>The properties\<close>

text \<open>
  C27: A directory that rclone serves through the template of rclone.gotmpl is listed as it is:
  GetDirInfo undoes the escaping of names, drops the artefacts of the template, gives every
  entry its path and a directory its trailing slash and size 0, and sorts by the chosen key
  when the names have no leading zeros.
\<close>

theorem dir_listing_roundtrip:
  assumes "sort_contract sortf" "basic_entities (re_entities env)" "wf_dir_cache (rc_dir_cache r)"
    and "cached now (rc_dir_cache r) (dir_path ws) = None"
    and "make_request (re_http env) ''GET'' (target_url r (dir_path ws)) = Inr resp"
    and "re_json env (concat (rs_body resp)) = Some (template_listing (rooted_join ws) srv_sort srv_order crumbs es)"
    and "list_all wf_served es" "list_all proper_elem ws" "json_safe (rooted_join ws)"
    and "list_all (\<lambda>c. c \<noteq> [] \<and> json_safe c) crumbs"
  shows "\<exists>info r'. get_dir_info U sortf env r (dir_path ws) srt order now later = (Inr info, r')
    \<and> di_dir info = dir_path ws \<and> di_breadcrumbs info = crumbs
    \<and> mset (di_entries info) = mset (map (listed_entry ws) es)
    \<and> (list_all (\<lambda>e. canonical_entry U (listed_entry ws e)) es \<longrightarrow>
        sorted_cmp (chosen_order U srt) (if order = ''desc'' then rev (di_entries info) else di_entries info))"
proof -
  let ?f = "chosen_order U srt"
  obtain raw where raw: "decode_dir_info (Some (template_listing (rooted_join ws) srv_sort srv_order crumbs es)) = Inr raw"
    "fix_dir_info (re_entities env) raw =
       \<lparr>di_dir = dir_path ws, di_sort = html_escape srv_sort, di_order = html_escape srv_order,
        di_breadcrumbs = crumbs, di_entries = map (listed_entry ws) es\<rparr>" (is "_ = ?info")
    using fix_template_listing [OF assms(2,7,8,9,10)] by blast
  have req: "request_dir env r (dir_path ws) = Inr ?info"
    using assms(5,6) raw by (simp add: request_dir_def)
  obtain res r' where g: "get_dir_info_unsorted env r (dir_path ws) now later = (res, r')"
    by (cases "get_dir_info_unsorted env r (dir_path ws) now later")
  have "res = Inr ?info"
  proof (cases "dir_cache_enabled (rc_dir_cache r)")
    case True
    then show ?thesis using get_dir_info_unsorted_cases(5) [OF assms(3) True g] assms(4) req by simp
  next
    case False
    then show ?thesis using g req by (simp add: get_dir_info_unsorted_disabled)
  qed
  then have e: "get_dir_info U sortf env r (dir_path ws) srt order now later =
      (Inr (sort_dir_info U sortf srt order ?info), r')"
    by (simp add: get_dir_info_def g)
  have m: "mset (sortf ?f (map (listed_entry ws) es)) = mset (map (listed_entry ws) es)"
    by (rule sort_contract.sortf_mset [OF assms(1)])
  have s: "sorted_cmp ?f (sortf ?f (map (listed_entry ws) es))"
    if "list_all (\<lambda>e. canonical_entry U (listed_entry ws e)) es"
  proof (rule sort_contract.sortf_sorted [OF assms(1)])
    have c: "\<forall>e\<in>set (map (listed_entry ws) es). canonical_entry U e" using that by (simp add: list_all_iff)
    show "swo_on (set (map (listed_entry ws) es)) ?f"
      using swo_entries [OF c] by (auto simp: sort_fn_def chosen_order_def)
  qed
  show ?thesis
    unfolding e using m s by (simp add: sort_dir_info_sel)
qed

definition sample_entries :: "served_entry list" where
  "sample_entries =
     [\<lparr>se_name = ''a+b.txt'', se_is_dir = False, se_size = 5, se_mod_time = 1700000000\<rparr>,
      \<lparr>se_name = ''sub'', se_is_dir = True, se_size = -1, se_mod_time = 0\<rparr>]"

definition sample_env :: rclone_env where
  "sample_env =
     \<lparr>re_http = (\<lambda>_. Inr \<lparr>rs_status = 200, rs_header = (\<lambda>_. []), rs_body = [''body'']\<rparr>),
      re_json = (\<lambda>_. Some (template_listing (rooted_join [''docs'']) ''namedirfirst'' ''asc'' [''/'', ''docs''] sample_entries)),
      re_entities = [''amp;'' \<mapsto> ''&'', ''lt;'' \<mapsto> ''<'', ''gt;'' \<mapsto> ''>'']\<rparr>"

definition sample_rclone :: rclone where
  "sample_rclone = \<lparr>rc_url = parse_path_url [], rc_target = ''remote:'', rc_dir_cache = new_dir_cache 10\<rparr>"

lemma sample_rclone_simps [simp]:
  "wf_dir_cache (rc_dir_cache sample_rclone)" "dir_cache_enabled (rc_dir_cache sample_rclone)"
  "cached now (rc_dir_cache sample_rclone) path = None" "dc_ttl (rc_dir_cache sample_rclone) = 10"
  by (simp_all add: sample_rclone_def dir_cache_enabled_def cached_def new_dir_cache_def lookup_empty)
    (simp add: wf_new_dir_cache [unfolded new_dir_cache_def])

lemma sample_entries_wf [simp]: "list_all wf_served sample_entries"
  by (simp add: sample_entries_def wf_served_def proper_elem_def json_safe_def in_i64_def
      max_int64_def min_int64_def)

lemma dir_listing_roundtrip_witness:
  "\<exists>info r'. get_dir_info ascii_ucd insertion_sort sample_env sample_rclone (dir_path [''docs'']) ''size'' ''desc'' 0 1
      = (Inr info, r')
    \<and> di_dir info = dir_path [''docs''] \<and> di_breadcrumbs info = [''/'', ''docs'']
    \<and> mset (di_entries info) = mset (map (listed_entry [''docs'']) sample_entries)
    \<and> (list_all (\<lambda>e. canonical_entry ascii_ucd (listed_entry [''docs''] e)) sample_entries \<longrightarrow>
        sorted_cmp (chosen_order ascii_ucd ''size'')
          (if ''desc'' = ''desc'' then rev (di_entries info) else di_entries info))"
  by (rule dir_listing_roundtrip [OF ins_sort.sort_contract_axioms, where
        resp = "\<lparr>rs_status = 200, rs_header = (\<lambda>_. []), rs_body = [''body'']\<rparr>" and
        srv_sort = "''namedirfirst''" and srv_order = "''asc''"])
    (simp_all add: sample_env_def basic_entities_def make_request_def proper_elem_def json_safe_def)



text \<open>
  A failed request leaves every cached listing as it was, and so does a listing that came
  from the cache.
\<close>

theorem dir_cache_keeps_no_errors:
  assumes "wf_dir_cache (rc_dir_cache r)"
    and "get_dir_info_unsorted env r path now later = (res, r')"
    and "cached now (rc_dir_cache r) path \<noteq> None \<or> (\<exists>e. res = Inl e)"
  shows "cached t (rc_dir_cache r') p = cached t (rc_dir_cache r) p \<and> wf_dir_cache (rc_dir_cache r')"
proof (cases "dir_cache_enabled (rc_dir_cache r)")
  case True
  show ?thesis using get_dir_info_unsorted_cases(3) [OF assms(1) True assms(2)]
      get_dir_info_unsorted_cases(6) [OF assms(1) True assms(2), of t p] assms(3)
    by (auto split: option.splits sum.splits)
next
  case False
  then show ?thesis using assms(1,2) by (simp add: get_dir_info_unsorted_disabled)
qed

lemma dir_cache_keeps_no_errors_witness:
  "cached 5 (rc_dir_cache (snd (get_dir_info_unsorted (sample_env\<lparr>re_http := (\<lambda>_. Inl ())\<rparr>) sample_rclone ''/'' 0 1))) ''/''
      = cached 5 (rc_dir_cache sample_rclone) ''/''
    \<and> wf_dir_cache (rc_dir_cache
        (snd (get_dir_info_unsorted (sample_env\<lparr>re_http := (\<lambda>_. Inl ())\<rparr>) sample_rclone ''/'' 0 1)))"
proof -
  let ?env = "sample_env\<lparr>re_http := (\<lambda>_. Inl ())\<rparr>"
  obtain res r' where g: "get_dir_info_unsorted ?env sample_rclone ''/'' 0 1 = (res, r')"
    by (cases "get_dir_info_unsorted ?env sample_rclone ''/'' 0 1")
  have "res = Inl RequestFailed"
    using get_dir_info_unsorted_cases(5) [OF sample_rclone_simps(1,2) g]
    by (simp add: request_dir_def make_request_def)
  then show ?thesis
    using dir_cache_keeps_no_errors [OF sample_rclone_simps(1) g] g by simp
qed

text \<open>
  C29: OpenFile returns content exactly when rclone answers 200 with the modification time and
  the size of the identifier, and then it is the whole body.
\<close>

theorem open_file_checks:
  "open_file http r fid = Inr body \<longleftrightarrow>
     (\<exists>resp. http \<lparr>rq_method = ''GET'', rq_url = target_url r (get_escaped_path fid), rq_range = None\<rparr> = Inr resp
       \<and> rs_status resp = 200
       \<and> parse_http_time (rs_header resp ''Last-Modified'') = Some (fid_mod_time fid)
       \<and> parse_int (rs_header resp ''Content-Length'') = Inr (fid_size fid)
       \<and> body = concat (rs_body resp))"
  by (auto simp: open_file_def make_request_def check_mod_time_def check_content_length_def check_size_def
      split: sum.splits option.splits if_splits)



end
