(* ===== verification/SearchService.thy ===== *)
theory SearchService
  imports SearchSpec IndexJson Rclone
begin

text \<open>
  The search service of search/service.go: loading the saved index, refreshing it, the start
  with its retries, the background refresh and Shutdown, and the step relation of a running
  service with concurrent refreshes. The index file is what reading it as gzipped JSON gives;
  what the disk does in a write is an input. Times are in seconds, waits in milliseconds.
\<close>

section \<open>State\<close>

datatype index_file = NoFile | Unreadable | Document json

record search_service =
  ss_index :: "search_index option"
  ss_min_prefix_len :: nat
  ss_max_prefix_len :: nat
  ss_file :: index_file

datatype mkdir_result = MkdirOk | MkdirExists | MkdirFails

datatype new_service_error = CouldNotCreateDir | CouldNotOpenRoot

definition new_search_service :: "mkdir_result \<Rightarrow> bool \<Rightarrow> index_file \<Rightarrow> new_service_error + search_service" where
  "new_search_service mkdir root_opens file =
     (if mkdir = MkdirFails then Inl CouldNotCreateDir
      else if \<not> root_opens then Inl CouldNotOpenRoot
      else Inr \<lparr>ss_index = None, ss_min_prefix_len = 3, ss_max_prefix_len = 10, ss_file = file\<rparr>)"

section \<open>Loading and saving the index\<close>

datatype load_error = CouldNotOpen | CouldNotDecode | IndexNotReady | IndexMismatch check_error

definition load_index_from_cache :: "ucd \<Rightarrow> search_service \<Rightarrow> load_error + search_index" where
  "load_index_from_cache U st =
     (case ss_file st of
        NoFile \<Rightarrow> Inl CouldNotOpen
      | Unreadable \<Rightarrow> Inl CouldNotDecode
      | Document j \<Rightarrow>
          (case decode_search_index U j of
             Inl _ \<Rightarrow> Inl CouldNotDecode
           | Inr None \<Rightarrow> Inl IndexNotReady
           | Inr (Some si) \<Rightarrow>
               (case si_index si of
                  None \<Rightarrow> Inl IndexNotReady
                | Some idx \<Rightarrow>
                    (case check_index idx (ss_min_prefix_len st) (ss_max_prefix_len st) of
                       Some e \<Rightarrow> Inl (IndexMismatch e)
                     | None \<Rightarrow> Inr si))))"

text \<open>
  How a write ends. Create truncates the file; a write or close that fails (an encoding error
  reaches it through the pipe) leaves the content given.
\<close>

datatype disk_outcome = DiskOk | CreateFails | WriteFails index_file | CloseFails index_file

datatype save_error = CouldNotCreate | CouldNotWrite | CouldNotClose

definition save_index_to_cache :: "disk_outcome \<Rightarrow> search_index \<Rightarrow> index_file \<Rightarrow> save_error option \<times> index_file" where
  "save_index_to_cache disk si file =
     (case disk of
        CreateFails \<Rightarrow> (Some CouldNotCreate, file)
      | WriteFails f \<Rightarrow> (Some CouldNotWrite, f)
      | CloseFails f \<Rightarrow> (Some CouldNotClose, f)
      | DiskOk \<Rightarrow> (None, Document (encode_search_index si)))"

section \<open>Refreshing\<close>

text \<open>What a refresh meets: the answer of rclone, the time and the disk.\<close>

record attempt =
  at_files :: "rclone_error + dir_entry list"
  at_now :: int
  at_disk :: disk_outcome

datatype refresh_error = NoFiles rclone_error | NotSaved save_error

definition new_search_index :: "ucd \<Rightarrow> search_service \<Rightarrow> dir_entry list \<Rightarrow> int \<Rightarrow> search_index" where
  "new_search_index U st es now =
     \<lparr>si_index = Some (new_prefix_index U es (ss_min_prefix_len st) (ss_max_prefix_len st)),
      si_created_at = now\<rparr>"

definition refresh_index :: "ucd \<Rightarrow> attempt \<Rightarrow> search_service \<Rightarrow> refresh_error option \<times> search_service" where
  "refresh_index U a st =
     (case at_files a of
        Inl e \<Rightarrow> (Some (NoFiles e), st)
      | Inr es \<Rightarrow>
          let si = new_search_index U st es (at_now a) in
          (case save_index_to_cache (at_disk a) si (ss_file st) of
             (Some e, f) \<Rightarrow> (Some (NotSaved e), st\<lparr>ss_file := f\<rparr>)
           | (None, f) \<Rightarrow> (None, st\<lparr>ss_file := f, ss_index := Some si\<rparr>)))"

section \<open>Start\<close>

text \<open>100ms times 1.7 to the i, rounded down: \<open>time.Duration(math.Pow(1.7, float64(i)))\<close>.\<close>

definition backoff :: "nat \<Rightarrow> nat" where
  "backoff i = 100 * (17 ^ i div 10 ^ i)"

function start_tries :: "ucd \<Rightarrow> (nat \<Rightarrow> attempt) \<Rightarrow> nat \<Rightarrow> search_service \<Rightarrow>
    (nat \<times> refresh_error) option \<times> nat list \<times> search_service" where
  "start_tries U env i st =
     (case refresh_index U (env i) st of
        (None, st') \<Rightarrow> (None, [], st')
      | (Some e, st') \<Rightarrow>
          if i > 5 then (Some (i, e), [], st')
          else
            (case start_tries U env (i + 1) st' of
               (res, waits, st'') \<Rightarrow> (res, backoff i # waits, st'')))"
  by pat_completeness auto

termination start_tries
  by (relation "measure (\<lambda>(U, env, i, st). 6 - i)") auto

datatype start_result = Loaded | Built | StartFailed nat refresh_error

definition start_service :: "ucd \<Rightarrow> (nat \<Rightarrow> attempt) \<Rightarrow> search_service \<Rightarrow>
    start_result \<times> nat list \<times> search_service" where
  "start_service U env st =
     (case load_index_from_cache U st of
        Inr si \<Rightarrow> (Loaded, [], st\<lparr>ss_index := Some si\<rparr>)
      | Inl _ \<Rightarrow>
          (case start_tries U env 1 (st\<lparr>ss_index := None\<rparr>) of
             (None, waits, st') \<Rightarrow> (Built, waits, st')
           | (Some (i, e), waits, st') \<Rightarrow> (StartFailed i e, waits, st')))"

section \<open>Background refresh and search\<close>

datatype tick_result = TickPanic panic | TickSkipped | TickRefreshed "refresh_error option"

definition background_tick :: "ucd \<Rightarrow> attempt \<Rightarrow> int \<Rightarrow> search_service \<Rightarrow> tick_result \<times> search_service" where
  "background_tick U a now st =
     (case ss_index st of
        None \<Rightarrow> (TickPanic NilDereference, st)
      | Some si \<Rightarrow>
          if now - si_created_at si < 24 * 3600 then (TickSkipped, st)
          else case refresh_index U a st of (e, st') \<Rightarrow> (TickRefreshed e, st'))"

definition service_index :: "search_service \<Rightarrow> prefix_index option" where
  "service_index st = Option.bind (ss_index st) si_index"

datatype search_error = NotReady

definition service_search :: "ucd \<Rightarrow> (u32 set \<Rightarrow> u32 list) \<Rightarrow>
    ((hit \<Rightarrow> hit \<Rightarrow> int) \<Rightarrow> hit list \<Rightarrow> hit list) \<Rightarrow> search_service \<Rightarrow> string \<Rightarrow> int \<Rightarrow>
    search_error + (panic + (hit list \<times> nat))" where
  "service_search U iter sortf st search limit =
     (case service_index st of
        None \<Rightarrow> Inl NotReady
      | Some idx \<Rightarrow> Inr (index_search U iter sortf idx search limit))"

definition get_min_search_length :: "search_service \<Rightarrow> nat" where
  "get_min_search_length st = ss_min_prefix_len st"

section \<open>The outcome of a start\<close>

definition attempt_ok :: "attempt \<Rightarrow> bool" where
  "attempt_ok a \<longleftrightarrow> \<not> isl (at_files a) \<and> at_disk a = DiskOk"

lemma refresh_index_ok: "fst (refresh_index U a st) = None \<longleftrightarrow> attempt_ok a"
  by (cases "at_files a"; cases "at_disk a")
    (simp_all add: refresh_index_def attempt_ok_def save_index_to_cache_def Let_def)

lemma start_tries_outcome:
  assumes "i \<le> 6" "start_tries U env i st = (res, waits, st')"
  shows "\<exists>n. i \<le> n \<and> n \<le> 6 \<and> list_all (\<lambda>k. \<not> attempt_ok (env k)) [i..<n]
    \<and> waits = map backoff [i..<n]
    \<and> (if attempt_ok (env n) then res = None else n = 6 \<and> (\<exists>e. res = Some (6, e)))"
  using assms
proof (induction U env i st arbitrary: res waits st' rule: start_tries.induct)
  case (1 U env i st)
  obtain r st1 where r: "refresh_index U (env i) st = (r, st1)" by fastforce
  show ?case
  proof (cases r)
    case None
    then have "attempt_ok (env i)" using refresh_index_ok [of U "env i" st] r by simp
    then show ?thesis using 1(2,3) r None by (intro exI [of _ i]) simp
  next
    case (Some e)
    then have no: "\<not> attempt_ok (env i)" using refresh_index_ok [of U "env i" st] r by simp
    show ?thesis
    proof (cases "i > 5")
      case True
      then have "i = 6" using 1(2) by simp
      then show ?thesis using 1(3) r Some no by (intro exI [of _ i]) auto
    next
      case False
      obtain res1 ws st2 where w: "start_tries U env (i + 1) st1 = (res1, ws, st2)"
        by (metis prod.exhaust)
      have eq: "res = res1" "waits = backoff i # ws"
        using 1(3) r Some False w by simp_all
      obtain n where n: "i + 1 \<le> n" "n \<le> 6"
        "list_all (\<lambda>k. \<not> attempt_ok (env k)) [i + 1..<n]" "ws = map backoff [i + 1..<n]"
        "if attempt_ok (env n) then res1 = None else n = 6 \<and> (\<exists>e. res1 = Some (6, e))"
        using 1(1) [OF r [symmetric] Some False _ w] False by auto
      have "[i..<n] = i # [i + 1..<n]" using n(1) upt_conv_Cons by auto
      then show ?thesis using n eq no by (intro exI [of _ n]) (auto split: if_splits)
    qed
  qed
qed

text \<open>The longest a start can wait: all five pauses.\<close>

lemma sum_backoff: "1 \<le> n \<Longrightarrow> n \<le> 6 \<Longrightarrow> sum_list (map backoff [1..<n]) \<le> 2900"
proof -
  assume "1 \<le> n" "n \<le> 6"
  then have "[1..<6] = [1..<n] @ [n..<6]" using upt_add_eq_append [of 1 n "6 - n"] by simp
  then have "sum_list (map backoff [1..<n]) \<le> sum_list (map backoff [1..<6])" by simp
  also have "\<dots> = 2900" by (simp add: backoff_def upt_rec)
  finally show ?thesis .
qed

text \<open>
  C6: Start returns after at most six attempts. When the saved index cannot be loaded it
  tries to build one, stops at the first attempt whose request and write succeed, fails with
  the error of the sixth attempt if none does, and between the attempts it waits the pauses
  of the backoff, 2.9 seconds at most in all.
\<close>

theorem start_returns_after_six_tries:
  "(\<exists>si. load_index_from_cache U st = Inr si \<and> start_service U env st = (Loaded, [], st\<lparr>ss_index := Some si\<rparr>))
   \<or> (\<exists>e n res waits st'. load_index_from_cache U st = Inl e
      \<and> start_service U env st = (res, waits, st') \<and> 1 \<le> n \<and> n \<le> 6
      \<and> list_all (\<lambda>k. \<not> attempt_ok (env k)) [1..<n]
      \<and> waits = map backoff [1..<n] \<and> sum_list waits \<le> 2900
      \<and> (if attempt_ok (env n) then res = Built else n = 6 \<and> (\<exists>e. res = StartFailed 6 e)))"
proof (cases "load_index_from_cache U st")
  case (Inr si)
  then show ?thesis by (simp add: start_service_def)
next
  case (Inl e)
  obtain r waits st' where t: "start_tries U env 1 (st\<lparr>ss_index := None\<rparr>) = (r, waits, st')"
    by (metis prod.exhaust)
  obtain n where n: "1 \<le> n" "n \<le> 6" "list_all (\<lambda>k. \<not> attempt_ok (env k)) [1..<n]"
      "waits = map backoff [1..<n]"
      "if attempt_ok (env n) then r = None else n = 6 \<and> (\<exists>e. r = Some (6, e))"
    using start_tries_outcome [OF _ t] by auto
  obtain res where res: "start_service U env st = (res, waits, st')"
      "if attempt_ok (env n) then res = Built else n = 6 \<and> (\<exists>e. res = StartFailed 6 e)"
    using n(5) Inl t by (cases "attempt_ok (env n)") (auto simp: start_service_def)
  show ?thesis
  proof (rule disjI2, intro exI conjI)
    show "load_index_from_cache U st = Inl e" by (rule Inl)
    show "start_service U env st = (res, waits, st')" by (rule res)
    show "sum_list waits \<le> 2900" using sum_backoff n by simp
  qed (use n res in auto)
qed

section \<open>The saved index comes back\<close>

text \<open>A time whose year has four digits, so that it can be written as JSON.\<close>

definition four_digit_year :: "int \<Rightarrow> bool" where
  "four_digit_year t \<longleftrightarrow> (case civil_of_days (t div 86400) of (y, _) \<Rightarrow> 0 \<le> y \<and> y < 10000)"

lemma refresh_index_state:
  assumes "at_files a = Inr es" "at_disk a = DiskOk"
  shows "refresh_index U a st =
    (None, st\<lparr>ss_file := Document (encode_search_index (new_search_index U st es (at_now a))),
              ss_index := Some (new_search_index U st es (at_now a))\<rparr>)"
  using assms by (simp add: refresh_index_def save_index_to_cache_def Let_def)

lemma load_saved_index:
  assumes "list_all encodable_entry es" "four_digit_year now"
    and "ss_min_prefix_len st = 3" "ss_max_prefix_len st = 10"
    and "ss_file st = Document (encode_search_index (new_search_index U st es now))"
  shows "load_index_from_cache U st = Inr (new_search_index U st es now)"
proof -
  obtain y m d where c: "civil_of_days (now div 86400) = (y, m, d)" by (metis prod.exhaust)
  then have y: "0 \<le> y" "y < 10000" using assms(2) by (simp_all add: four_digit_year_def)
  have enc: "encodable (new_prefix_index U es 3 10)"
    by (rule new_index_encodable [OF assms(1)]) (simp_all add: max_int64_def)
  have chk: "check_index (new_prefix_index U es 3 10) 3 10 = None"
    by (simp add: check_index_def new_prefix_index_def Let_def prepare_def)
  show ?thesis
    using decode_encode_search_index [OF enc c y, of U] assms(3-5)
    by (simp add: load_index_from_cache_def new_search_index_def chk)
qed

text \<open>
  C5: A successful refresh survives a restart: a new service on the same directory loads
  from the file the index that the old one had in memory, with its time, and asks rclone for
  nothing (the attempts of the start are not used).
\<close>

theorem restart_loads_the_refreshed_index:
  assumes "new_search_service mkdir root_opens file = Inr st"
    and "at_files a = Inr es" "at_disk a = DiskOk" "list_all encodable_entry es" "four_digit_year (at_now a)"
    and "refresh_index U a st = (res, st')"
    and "new_search_service MkdirExists True (ss_file st') = Inr fresh"
  shows "res = None \<and> start_service U env fresh = (Loaded, [], st')
    \<and> (\<exists>si. ss_index st' = Some si \<and> si_index si = Some (new_prefix_index U es 3 10))"
proof -
  let ?si = "new_search_index U st es (at_now a)"
  have st: "st = \<lparr>ss_index = None, ss_min_prefix_len = 3, ss_max_prefix_len = 10, ss_file = file\<rparr>"
    using assms(1) by (simp add: new_search_service_def split: if_splits)
  have st': "st' = st\<lparr>ss_file := Document (encode_search_index ?si), ss_index := Some ?si\<rparr>" "res = None"
    using assms(6) refresh_index_state [OF assms(2,3), of U st] by simp_all
  have fresh: "fresh = st'\<lparr>ss_index := None\<rparr>"
    using assms(7) unfolding st st' by (auto simp: new_search_service_def)
  have same: "new_search_index U fresh es (at_now a) = ?si"
    unfolding fresh st' by (simp add: new_search_index_def)
  have "load_index_from_cache U fresh = Inr ?si"
    using load_saved_index [OF assms(4,5), of fresh U] unfolding same by (simp add: fresh st' st)
  then show ?thesis
    by (simp add: start_service_def fresh st' new_search_index_def) (simp add: st)
qed

lemma restart_loads_the_refreshed_index_witness:
  "\<exists>st' si. start_service ascii_ucd (\<lambda>_. undefined)
      \<lparr>ss_index = None, ss_min_prefix_len = 3, ss_max_prefix_len = 10, ss_file = ss_file st'\<rparr>
     = (Loaded, [], st')
    \<and> ss_index st' = Some si
    \<and> si_index si = Some (new_prefix_index ascii_ucd sample_listing 3 10)"
proof -
  let ?st = "\<lparr>ss_index = None, ss_min_prefix_len = 3, ss_max_prefix_len = 10, ss_file = NoFile\<rparr>"
  let ?a = "\<lparr>at_files = Inr sample_listing, at_now = 1700000000, at_disk = DiskOk\<rparr>"
  have enc: "list_all encodable_entry sample_listing" by code_simp
  have y: "four_digit_year (at_now ?a)" by code_simp
  obtain res st' where r: "refresh_index ascii_ucd ?a ?st = (res, st')" by fastforce
  show ?thesis
    using restart_loads_the_refreshed_index [of MkdirOk True NoFile ?st ?a sample_listing ascii_ucd res st' _ "\<lambda>_. undefined", OF _ _ _ enc y r]
    by (auto simp: new_search_service_def)
qed

end
