(* ===== verification/SearchSteps.thy ===== *)
theory SearchSteps
  imports SearchService
begin

text \<open>
  The running search service as a step relation: its start, one attempt per step, the ticks
  of the background refresh, the refreshes that requests run beside them (writing the file
  and publishing the index are separate steps, since only the second takes the lock),
  and Shutdown.
\<close>

datatype service_phase =
    Created
  | Starting nat
  | Running
  | Finished
  | Crashed panic

record running_service =
  sv_service :: search_service
  sv_phase :: service_phase
  sv_stop :: bool
  sv_saved :: "search_index list"

definition initial_service :: "search_service \<Rightarrow> running_service" where
  "initial_service st = \<lparr>sv_service = st, sv_phase = Created, sv_stop = False, sv_saved = []\<rparr>"

inductive service_step :: "ucd \<Rightarrow> running_service \<Rightarrow> running_service \<Rightarrow> bool" for U :: ucd where
  start_loaded:
    "sv_phase s = Created \<Longrightarrow> load_index_from_cache U (sv_service s) = Inr si \<Longrightarrow>
     service_step U s (s\<lparr>sv_phase := Running, sv_service := (sv_service s)\<lparr>ss_index := Some si\<rparr>\<rparr>)"
| start_not_loaded:
    "sv_phase s = Created \<Longrightarrow> load_index_from_cache U (sv_service s) = Inl e \<Longrightarrow>
     service_step U s (s\<lparr>sv_phase := Starting 1, sv_service := (sv_service s)\<lparr>ss_index := None\<rparr>\<rparr>)"
| start_built:
    "sv_phase s = Starting i \<Longrightarrow> refresh_index U a (sv_service s) = (None, st) \<Longrightarrow>
     service_step U s (s\<lparr>sv_phase := Running, sv_service := st\<rparr>)"
| start_again:
    "sv_phase s = Starting i \<Longrightarrow> refresh_index U a (sv_service s) = (Some e, st) \<Longrightarrow> \<not> i > 5 \<Longrightarrow>
     service_step U s (s\<lparr>sv_phase := Starting (i + 1), sv_service := st\<rparr>)"
| start_failed:
    "sv_phase s = Starting i \<Longrightarrow> refresh_index U a (sv_service s) = (Some e, st) \<Longrightarrow> i > 5 \<Longrightarrow>
     service_step U s (s\<lparr>sv_phase := Finished, sv_service := st\<rparr>)"
| tick:
    "sv_phase s = Running \<Longrightarrow> background_tick U a now (sv_service s) = (res, st) \<Longrightarrow>
     service_step U s
       (s\<lparr>sv_phase := (case res of TickPanic p \<Rightarrow> Crashed p | _ \<Rightarrow> Running), sv_service := st\<rparr>)"
| background_stop:
    "sv_phase s = Running \<Longrightarrow> sv_stop s \<Longrightarrow> service_step U s (s\<lparr>sv_phase := Finished\<rparr>)"
| refresh_saved:
    "si = new_search_index U (sv_service s) es now \<Longrightarrow>
     save_index_to_cache disk si (ss_file (sv_service s)) = (None, f) \<Longrightarrow>
     service_step U s (s\<lparr>sv_service := (sv_service s)\<lparr>ss_file := f\<rparr>, sv_saved := si # sv_saved s\<rparr>)"
| refresh_not_saved:
    "si = new_search_index U (sv_service s) es now \<Longrightarrow>
     save_index_to_cache disk si (ss_file (sv_service s)) = (Some e, f) \<Longrightarrow>
     service_step U s (s\<lparr>sv_service := (sv_service s)\<lparr>ss_file := f\<rparr>\<rparr>)"
| refresh_published:
    "si \<in> set (sv_saved s) \<Longrightarrow>
     service_step U s
       (s\<lparr>sv_service := (sv_service s)\<lparr>ss_index := Some si\<rparr>, sv_saved := remove1 si (sv_saved s)\<rparr>)"
| stop_closed:
    "\<not> sv_stop s \<Longrightarrow> service_step U s (s\<lparr>sv_stop := True\<rparr>)"

inductive_cases start_step: "service_step U s t"

definition reachable_service :: "ucd \<Rightarrow> index_file \<Rightarrow> running_service \<Rightarrow> bool" where
  "reachable_service U file s \<longleftrightarrow>
     (\<exists>st. new_search_service MkdirExists True file = Inr st \<and> (service_step U)\<^sup>*\<^sup>* (initial_service st) s)"

section \<open>A decoded index is prepared\<close>

lemma find_field_in: "find_field tbl key = Some f \<Longrightarrow> f \<in> snd ` set tbl"
proof (cases "map_of tbl key")
  case (Some g)
  assume "find_field tbl key = Some f"
  then show ?thesis using Some map_of_SomeD [OF Some] by (force simp: find_field_def)
next
  case None
  assume "find_field tbl key = Some f"
  then have "map_of (map (\<lambda>(n, f). (map lower_char n, f)) tbl) (map lower_char key) = Some f"
    using None by (simp add: find_field_def)
  from map_of_SomeD [OF this] show ?thesis by force
qed

lemma decode_fields_induct:
  assumes "decode_fields tbl kvs s = Inr t" "P s"
    and "\<And>f s j t. f \<in> snd ` set tbl \<Longrightarrow> f s j = Inr t \<Longrightarrow> P s \<Longrightarrow> P t"
  shows "P t"
  using assms
proof (induction tbl kvs s rule: decode_fields.induct)
  case (2 tbl key v kvs s)
  show ?case
  proof (cases "find_field tbl key")
    case None
    then show ?thesis using 2 by simp
  next
    case (Some f)
    then obtain s' where s': "f s v = Inr s'" "decode_fields tbl kvs s' = Inr t"
      using 2(3) by (auto split: sum.splits)
    have "P s'" using 2(5) [OF find_field_in [OF Some] s'(1) 2(4)] .
    then show ?thesis using 2(2) [OF Some s'(1,2)] 2(5) by blast
  qed
qed simp

text \<open>What Search relies on: the sizes of the service, and the lower-cased paths.\<close>

definition wf_search_index :: "ucd \<Rightarrow> search_index \<Rightarrow> bool" where
  "wf_search_index U si \<longleftrightarrow>
     (\<exists>idx. si_index si = Some idx \<and> check_index idx 3 10 = None \<and> prepare U idx = idx)"

definition prepared_index :: "ucd \<Rightarrow> search_index \<Rightarrow> bool" where
  "prepared_index U si \<longleftrightarrow> (\<forall>idx. si_index si = Some idx \<longrightarrow> prepare U idx = idx)"

lemma unmarshal_index_prepared: "unmarshal_index U j = Inr idx \<Longrightarrow> prepare U idx = idx"
  by (auto simp: unmarshal_index_def split: sum.splits)

lemma decode_search_index_prepared:
  "decode_search_index U j = Inr (Some si) \<Longrightarrow> prepared_index U si"
proof -
  assume d: "decode_search_index U j = Inr (Some si)"
  have "decode_struct (search_index_fields U) \<lparr>si_index = None, si_created_at = zero_time\<rparr> j = Inr si"
    using d by (auto simp: decode_search_index_def split: if_splits sum.splits)
  then consider "si = \<lparr>si_index = None, si_created_at = zero_time\<rparr>"
    | kvs where "decode_fields (search_index_fields U) kvs \<lparr>si_index = None, si_created_at = zero_time\<rparr> = Inr si"
    by (cases j) (simp_all add: decode_struct_def)
  then show ?thesis
  proof cases
    case 1
    then show ?thesis by (simp add: prepared_index_def)
  next
    case 2
    then show ?thesis
    proof (rule decode_fields_induct)
      fix f s j t
      assume f: "f \<in> snd ` set (search_index_fields U)" "f s j = Inr t" "prepared_index U s"
      then consider "f = setter si_index si_index_update
          (\<lambda>_ j. if j = JNull then Inr None
                 else case unmarshal_index U j of Inl e \<Rightarrow> Inl e | Inr idx \<Rightarrow> Inr (Some idx))"
        | "f = setter si_created_at si_created_at_update decode_time"
        by (auto simp: search_index_fields_def)
      then show "prepared_index U t"
        using f(2,3) unmarshal_index_prepared
        by cases (auto simp: setter_def prepared_index_def split: if_splits sum.splits)
    qed (simp add: prepared_index_def)
  qed
qed

lemma load_wf:
  assumes "load_index_from_cache U st = Inr si" "ss_min_prefix_len st = 3" "ss_max_prefix_len st = 10"
  shows "wf_search_index U si"
  using assms decode_search_index_prepared
  by (fastforce simp: load_index_from_cache_def wf_search_index_def prepared_index_def
      split: index_file.splits sum.splits option.splits)

lemma new_search_index_wf:
  "ss_min_prefix_len st = 3 \<Longrightarrow> ss_max_prefix_len st = 10 \<Longrightarrow> wf_search_index U (new_search_index U st es now)"
  by (simp add: wf_search_index_def new_search_index_def check_index_def new_prefix_index_def Let_def prepare_def)

section \<open>The invariant\<close>

text \<open>What holds of the data of a service, and of a service in its phase.\<close>

definition wf_service :: "ucd \<Rightarrow> search_service \<Rightarrow> bool" where
  "wf_service U st \<longleftrightarrow> ss_min_prefix_len st = 3 \<and> ss_max_prefix_len st = 10 \<and>
     (\<forall>si. ss_index st = Some si \<longrightarrow> wf_search_index U si)"

definition service_inv :: "ucd \<Rightarrow> running_service \<Rightarrow> bool" where
  "service_inv U s \<longleftrightarrow> wf_service U (sv_service s) \<and> list_all (wf_search_index U) (sv_saved s) \<and>
     (case sv_phase s of
        Running \<Rightarrow> ss_index (sv_service s) \<noteq> None
      | Starting i \<Rightarrow> i \<le> 6
      | Crashed _ \<Rightarrow> False
      | _ \<Rightarrow> True)"

lemma wf_service_update [simp, wf_intros]:
  "wf_service U st \<Longrightarrow> wf_service U (st\<lparr>ss_file := f\<rparr>)"
  "wf_service U st \<Longrightarrow> wf_service U (st\<lparr>ss_index := None\<rparr>)"
  "wf_service U st \<Longrightarrow> wf_search_index U si \<Longrightarrow> wf_service U (st\<lparr>ss_index := Some si\<rparr>)"
  by (simp_all add: wf_service_def)

lemma wf_service_new_index: "wf_service U st \<Longrightarrow> wf_search_index U (new_search_index U st es now)"
  by (simp add: wf_service_def new_search_index_wf)

lemma wf_service_load: "wf_service U st \<Longrightarrow> load_index_from_cache U st = Inr si \<Longrightarrow> wf_search_index U si"
  by (simp add: wf_service_def load_wf)

lemma refresh_index_wf:
  assumes "refresh_index U a st = (res, st')" "wf_service U st"
  shows "wf_service U st'" and "res = None \<Longrightarrow> ss_index st' \<noteq> None"
    and "ss_index st \<noteq> None \<Longrightarrow> ss_index st' \<noteq> None"
  using assms wf_service_new_index [OF assms(2)]
  by (auto simp: refresh_index_def Let_def split: sum.splits prod.splits option.splits)

lemma background_tick_wf:
  assumes "background_tick U a now st = (res, st')" "wf_service U st" "ss_index st \<noteq> None"
  shows "wf_service U st'" "ss_index st' \<noteq> None" "\<And>p. res \<noteq> TickPanic p"
  using assms refresh_index_wf
  by (fastforce simp: background_tick_def split: option.splits if_splits prod.splits)+

lemma service_inv_step:
  assumes "service_step U s t" "service_inv U s"
  shows "service_inv U t"
  using assms
proof (cases rule: service_step.cases)
  case (start_loaded si)
  then show ?thesis using assms(2) wf_service_load [OF _ start_loaded(3)] by (simp add: service_inv_def)
next
  case (start_not_loaded e)
  then show ?thesis using assms(2) by (simp add: service_inv_def)
next
  case (start_built i a st)
  then show ?thesis using assms(2) refresh_index_wf [OF start_built(3)] by (simp add: service_inv_def)
next
  case (start_again i a e st)
  then show ?thesis using assms(2) refresh_index_wf(1) [OF start_again(3)] by (simp add: service_inv_def)
next
  case (start_failed i a e st)
  then show ?thesis using assms(2) refresh_index_wf(1) [OF start_failed(3)] by (simp add: service_inv_def)
next
  case (tick a now res st)
  then have "wf_service U st" "ss_index st \<noteq> None" "\<forall>p. res \<noteq> TickPanic p"
    using assms(2) background_tick_wf [OF tick(3)] by (simp_all add: service_inv_def)
  then show ?thesis using assms(2) tick by (cases res) (simp_all add: service_inv_def)
next
  case background_stop
  then show ?thesis using assms(2) by (simp add: service_inv_def)
next
  case (refresh_saved si es now disk f)
  then show ?thesis using assms(2) wf_service_new_index
    by (simp add: service_inv_def split: service_phase.splits)
next
  case (refresh_not_saved si es now disk e f)
  then show ?thesis using assms(2) by (simp add: service_inv_def split: service_phase.splits)
next
  case (refresh_published si)
  then have "wf_search_index U si" "list_all (wf_search_index U) (remove1 si (sv_saved s))"
    using assms(2) by (auto simp: service_inv_def list_all_iff dest: notin_set_remove1)
  then show ?thesis using assms(2) refresh_published
    by (simp add: service_inv_def split: service_phase.splits)
next
  case stop_closed
  then show ?thesis using assms(2) by (simp add: service_inv_def split: service_phase.splits)
qed

lemma reachable_service_inv: "reachable_service U file s \<Longrightarrow> service_inv U s"
proof -
  assume "reachable_service U file s"
  then obtain st where st: "new_search_service MkdirExists True file = Inr st"
      "(service_step U)\<^sup>*\<^sup>* (initial_service st) s"
    by (auto simp: reachable_service_def)
  from st(2) show ?thesis
  proof (induction rule: rtranclp_induct)
    case base
    then show ?case using st(1)
      by (auto simp: service_inv_def initial_service_def wf_service_def new_search_service_def)
  next
    case (step s t)
    then show ?case using service_inv_step by blast
  qed
qed

text \<open>
  C4: Whatever the index file holds, whatever rclone and the disk answer, and however
  refreshes interleave with the background loop, the search service never dereferences a nil
  index; once Start has returned without error, every search is answered by an index with
  the service's prefix lengths and with the lower-cased path of every entry.
\<close>

theorem search_service_never_crashes:
  assumes "reachable_service U file s"
  shows "(\<forall>p. sv_phase s \<noteq> Crashed p)
    \<and> (sv_phase s = Running \<longrightarrow>
        (\<exists>idx. service_index (sv_service s) = Some idx
          \<and> service_search U iter sortf (sv_service s) search limit = Inr (index_search U iter sortf idx search limit)
          \<and> min_prefix_len idx = 3 \<and> max_prefix_len idx = 10 \<and> prepare U idx = idx))"
proof -
  have inv: "service_inv U s" by (rule reachable_service_inv [OF assms])
  show ?thesis
  proof (intro conjI impI)
    show "\<forall>p. sv_phase s \<noteq> Crashed p" using inv by (auto simp: service_inv_def)
  next
    assume "sv_phase s = Running"
    then obtain si where si: "ss_index (sv_service s) = Some si" "wf_search_index U si"
      using inv by (auto simp: service_inv_def wf_service_def)
    then show "\<exists>idx. service_index (sv_service s) = Some idx
          \<and> service_search U iter sortf (sv_service s) search limit = Inr (index_search U iter sortf idx search limit)
          \<and> min_prefix_len idx = 3 \<and> max_prefix_len idx = 10 \<and> prepare U idx = idx"
      by (auto simp: wf_search_index_def service_index_def service_search_def check_index_def split: if_splits)
  qed
qed

definition sample_attempt :: "dir_entry list \<Rightarrow> int \<Rightarrow> attempt" where
  "sample_attempt es t = \<lparr>at_files = Inr es, at_now = t, at_disk = DiskOk\<rparr>"

definition sample_service :: search_service where
  "sample_service = \<lparr>ss_index = None, ss_min_prefix_len = 3, ss_max_prefix_len = 10, ss_file = NoFile\<rparr>"

abbreviation sample_index :: "ucd \<Rightarrow> dir_entry list \<Rightarrow> int \<Rightarrow> search_index" where
  "sample_index U es t \<equiv> new_search_index U sample_service es t"

text \<open>A service that found no file, built its index and is running.\<close>

definition sample_running :: "ucd \<Rightarrow> running_service" where
  "sample_running U =
     \<lparr>sv_service = sample_service\<lparr>ss_file := Document (encode_search_index (sample_index U [] 0)),
        ss_index := Some (sample_index U [] 0)\<rparr>,
      sv_phase = Running, sv_stop = False, sv_saved = []\<rparr>"

lemma reachable_sample_running: "reachable_service U NoFile (sample_running U)"
proof -
  let ?s1 = "(initial_service sample_service)\<lparr>sv_phase := Starting 1,
    sv_service := sample_service\<lparr>ss_index := None\<rparr>\<rparr>"
  have "service_step U (initial_service sample_service) ?s1"
    using service_step.start_not_loaded [of "initial_service sample_service" U CouldNotOpen]
    by (simp add: initial_service_def load_index_from_cache_def sample_service_def)
  moreover have "service_step U ?s1 (sample_running U)"
  proof -
    have "refresh_index U (sample_attempt [] 0) (sv_service ?s1) = (None, sv_service (sample_running U))"
      using refresh_index_state [of "sample_attempt [] 0" "[]" U sample_service]
      by (simp add: sample_attempt_def sample_running_def) (simp add: sample_service_def)
    then have "service_step U ?s1 (?s1\<lparr>sv_phase := Running, sv_service := sv_service (sample_running U)\<rparr>)"
      by (intro service_step.start_built [where i = 1]) simp_all
    then show ?thesis by (simp add: sample_running_def initial_service_def)
  qed
  ultimately have "(service_step U)\<^sup>*\<^sup>* (initial_service sample_service) (sample_running U)"
    by (blast intro: converse_rtranclp_into_rtranclp)
  then show ?thesis
    by (auto simp: reachable_service_def new_search_service_def sample_service_def)
qed

lemma search_service_never_crashes_witness:
  "\<exists>idx. service_index (sv_service (sample_running ascii_ucd)) = Some idx \<and> min_prefix_len idx = 3"
  using search_service_never_crashes [OF reachable_sample_running [of ascii_ucd],
      of sorted_list_of_set insertion_sort "[]" 1]
  by (auto simp: sample_running_def)

text \<open>
  C7: Two refreshes at the same time can leave the disk and the memory apart: from a running
  service there are steps to one that is running, with no refresh under way, whose file is
  the encoding of one new index while searches are answered by another.
\<close>

theorem concurrent_refreshes_diverge:
  "\<exists>s. reachable_service U NoFile s \<and> sv_phase s = Running \<and> sv_saved s = []
     \<and> (\<exists>si1 si2. ss_index (sv_service s) = Some si1 \<and> ss_file (sv_service s) = Document (encode_search_index si2)
        \<and> si_created_at si1 = 1 \<and> si_created_at si2 = 2)"
proof -
  let ?a = "sample_index U [] 1" and ?b = "sample_index U [] 2" and ?r = "sample_running U"
  let ?f = "\<lambda>si. Document (encode_search_index si)"
  let ?s1 = "?r\<lparr>sv_service := (sv_service ?r)\<lparr>ss_file := ?f ?a\<rparr>, sv_saved := [?a]\<rparr>"
  let ?s2 = "?s1\<lparr>sv_service := (sv_service ?r)\<lparr>ss_file := ?f ?b\<rparr>, sv_saved := [?b, ?a]\<rparr>"
  let ?s3 = "?s2\<lparr>sv_service := (sv_service ?s2)\<lparr>ss_index := Some ?b\<rparr>, sv_saved := [?a]\<rparr>"
  let ?s4 = "?s3\<lparr>sv_service := (sv_service ?s3)\<lparr>ss_index := Some ?a\<rparr>, sv_saved := []\<rparr>"
  have new: "new_search_index U st [] t = sample_index U [] t"
    if "ss_min_prefix_len st = 3" "ss_max_prefix_len st = 10" for st t
    using that by (simp add: new_search_index_def sample_service_def)
  have na: "?a = new_search_index U (sv_service ?r) [] 1" and nb: "?b = new_search_index U (sv_service ?s1) [] 2"
    by (rule new [symmetric]; simp add: sample_running_def sample_service_def)+
  have "service_step U ?r ?s1"
    using service_step.refresh_saved [OF na, of DiskOk "?f ?a"]
    by (simp add: save_index_to_cache_def sample_running_def)
  moreover have "service_step U ?s1 ?s2"
    using service_step.refresh_saved [OF nb, of DiskOk "?f ?b"]
    by (simp add: save_index_to_cache_def sample_running_def)
  moreover have "service_step U ?s2 ?s3"
    using service_step.refresh_published [of ?b ?s2 U] by simp
  moreover have "service_step U ?s3 ?s4"
    using service_step.refresh_published [of ?a ?s3 U] by simp
  ultimately have "(service_step U)\<^sup>*\<^sup>* ?r ?s4"
    by (meson converse_rtranclp_into_rtranclp rtranclp.rtrancl_refl)
  then have "reachable_service U NoFile ?s4"
    using reachable_sample_running [of U] by (auto simp: reachable_service_def)
  then show ?thesis
    by (intro exI [of _ ?s4]) (auto simp: sample_running_def new_search_index_def)
qed

end
