(* ===== verification/Cleaner.thy ===== *)
theory Cleaner
  imports Prelude
begin

text \<open>
  pkg/cache/cleaner.go: which files a cleanup removes, and the files that are left. The files
  under the cache directory are a list; the walk over it and each removal may fail as the
  arguments say. Sizes are int64 values, modification times are nanoseconds.
\<close>

record file_info =
  fi_path :: string
  fi_mod_time :: int
  fi_size :: int

record cleaner =
  cl_cache_name :: string
  cl_abs_dir :: string
  cl_max_total_size :: int

datatype cleaner_error = DirNotAbsolute

definition is_abs :: "string \<Rightarrow> bool" where
  "is_abs p = prefix ''/'' p"

definition new_cleaner :: "string \<Rightarrow> string \<Rightarrow> int \<Rightarrow> cleaner_error + cleaner" where
  "new_cleaner cacheName absDir maxSize =
     (if \<not> is_abs absDir then Inl DirNotAbsolute
      else Inr \<lparr>cl_cache_name = cacheName, cl_abs_dir = absDir, cl_max_total_size = maxSize\<rparr>)"

section \<open>Which files to remove\<close>

definition add_sizes :: "file_info list \<Rightarrow> int" where
  "add_sizes files = fold (\<lambda>f tot. i64 (tot + fi_size f)) files 0"

definition compare_mod_time :: "file_info \<Rightarrow> file_info \<Rightarrow> int" where
  "compare_mod_time a b = cmp (fi_mod_time a) (fi_mod_time b)"

text \<open>The loop that gives up files until the rest is below the limit; 0 when none is enough.\<close>

fun cut_index :: "int \<Rightarrow> int \<Rightarrow> nat \<Rightarrow> file_info list \<Rightarrow> nat" where
  "cut_index limit tot i [] = 0"
| "cut_index limit tot i (f # fs) =
     (let tot = i64 (tot - fi_size f)
      in if tot < limit then i + 1 else cut_index limit tot (i + 1) fs)"

definition get_files_to_remove ::
    "((file_info \<Rightarrow> file_info \<Rightarrow> int) \<Rightarrow> file_info list \<Rightarrow> file_info list) \<Rightarrow>
     cleaner \<Rightarrow> file_info list \<Rightarrow> file_info list" where
  "get_files_to_remove sortf c files =
     (let tot = add_sizes files
      in if tot < cl_max_total_size c then []
         else
           let files = sortf compare_mod_time files;
               k = cut_index (cl_max_total_size c) tot 0 files;
               k = (if k = 0 then length files else k)
           in take k files)"

section \<open>Removing\<close>

record removal =
  rm_count :: nat
  rm_space :: int
  rm_errors :: "string list"

fun remove_files :: "(string \<Rightarrow> bool) \<Rightarrow> file_info list \<Rightarrow> removal \<times> file_info list \<Rightarrow> removal \<times> file_info list" where
  "remove_files removable [] st = st"
| "remove_files removable (f # fs) (r, files) =
     (if removable (fi_path f)
      then remove_files removable fs
        (r\<lparr>rm_count := rm_count r + 1, rm_space := i64 (rm_space r + fi_size f)\<rparr>,
         filter (\<lambda>g. fi_path g \<noteq> fi_path f) files)
      else remove_files removable fs (r\<lparr>rm_errors := rm_errors r @ [fi_path f]\<rparr>, files))"

definition no_removal :: removal where
  "no_removal = \<lparr>rm_count = 0, rm_space = 0, rm_errors = []\<rparr>"

text \<open>How walking the directory ends: a directory that is not there has no files.\<close>

datatype walk_result = WalkOk | WalkNotExist | WalkFails

definition load_all_files :: "walk_result \<Rightarrow> file_info list \<Rightarrow> unit + file_info list" where
  "load_all_files w files =
     (case w of WalkOk \<Rightarrow> Inr files | WalkNotExist \<Rightarrow> Inr [] | WalkFails \<Rightarrow> Inl ())"

text \<open>
  The size that the metric reports (if any), what was removed, and the files left. The log line
  at the end is left out (FormatFileSize fails in it once 1024 PiB are removed).
\<close>

definition cleanup ::
    "((file_info \<Rightarrow> file_info \<Rightarrow> int) \<Rightarrow> file_info list \<Rightarrow> file_info list) \<Rightarrow> (string \<Rightarrow> bool) \<Rightarrow>
     walk_result \<Rightarrow> cleaner \<Rightarrow> file_info list \<Rightarrow> int option \<times> removal \<times> file_info list" where
  "cleanup sortf removable w c files =
     (case load_all_files w files of
        Inl _ \<Rightarrow> (None, no_removal, files)
      | Inr all \<Rightarrow>
          let toRemove = get_files_to_remove sortf c all
          in if toRemove = [] then (Some (add_sizes all), no_removal, files)
             else (Some (add_sizes all), remove_files removable toRemove (no_removal, files)))"

section \<open>Sums without overflow\<close>

definition total_size :: "file_info list \<Rightarrow> int" where
  "total_size files = sum_list (map fi_size files)"

definition sizes_fit :: "file_info list \<Rightarrow> bool" where
  "sizes_fit files \<longleftrightarrow> list_all (\<lambda>f. 0 \<le> fi_size f) files \<and> total_size files \<le> max_int64"

lemma total_size_simps [simp]:
  "total_size [] = 0" "total_size (f # fs) = fi_size f + total_size fs"
  "total_size (fs @ gs) = total_size fs + total_size gs"
  by (simp_all add: total_size_def)

lemma total_size_nonneg: "list_all (\<lambda>f. 0 \<le> fi_size f) files \<Longrightarrow> 0 \<le> total_size files"
  by (induction files) auto

lemma total_size_mset: "mset xs = mset ys \<Longrightarrow> total_size xs = total_size ys"
  unfolding total_size_def by (metis mset_map sum_mset_sum_list)

lemma sizes_fit_mset: "mset xs = mset ys \<Longrightarrow> sizes_fit xs = sizes_fit ys"
  using total_size_mset [of xs ys] mset_eq_setD [of xs ys] by (simp add: sizes_fit_def list_all_iff)

lemma fold_add_sizes:
  "list_all (\<lambda>f. 0 \<le> fi_size f) files \<Longrightarrow> 0 \<le> t \<Longrightarrow> t + total_size files \<le> max_int64 \<Longrightarrow>
   fold (\<lambda>f tot. i64 (tot + fi_size f)) files t = t + total_size files"
proof (induction files arbitrary: t)
  case (Cons f files)
  have "0 \<le> total_size files" using Cons.prems(1) total_size_nonneg by simp
  then have "in_i64 (t + fi_size f)"
    using Cons.prems by (simp add: in_i64_def min_int64_def)
  then show ?case using Cons.IH [of "t + fi_size f"] Cons.prems by simp
qed simp

lemma add_sizes_total: "sizes_fit files \<Longrightarrow> add_sizes files = total_size files"
  using fold_add_sizes [of files 0] by (simp add: sizes_fit_def add_sizes_def)

text \<open>Where the loop stops: the first prefix whose removal leaves less than the limit.\<close>

lemma cut_index_spec:
  assumes "list_all (\<lambda>f. 0 \<le> fi_size f) fs" "total_size fs \<le> t" "t \<le> max_int64"
  shows "(cut_index limit t i fs = 0 \<and> (\<forall>k. 1 \<le> k \<longrightarrow> k \<le> length fs \<longrightarrow> limit \<le> t - total_size (take k fs)))
    \<or> (\<exists>k. 1 \<le> k \<and> k \<le> length fs \<and> cut_index limit t i fs = i + k \<and> t - total_size (take k fs) < limit
        \<and> (\<forall>j. 1 \<le> j \<longrightarrow> j < k \<longrightarrow> limit \<le> t - total_size (take j fs)))"
  using assms
proof (induction fs arbitrary: t i)
  case Nil
  then show ?case by simp
next
  case (Cons f fs)
  have nn: "0 \<le> total_size fs" using Cons.prems(1) total_size_nonneg by simp
  then have w: "i64 (t - fi_size f) = t - fi_size f"
    using Cons.prems by (intro i64_in_range) (simp add: in_i64_def min_int64_def)
  show ?case
  proof (cases "t - fi_size f < limit")
    case True
    then show ?thesis using w by (intro disjI2 exI [of _ 1]) simp
  next
    case False
    let ?t = "t - fi_size f"
    have step: "limit \<le> t - total_size (take k (f # fs))"
      if "1 \<le> k" "\<And>j. 1 \<le> j \<Longrightarrow> Suc j = k \<Longrightarrow> limit \<le> ?t - total_size (take j fs)" for k
      using that False by (cases k; cases "k - 1") (auto simp: algebra_simps)
    have IH: "list_all (\<lambda>f. 0 \<le> fi_size f) fs" "total_size fs \<le> ?t" "?t \<le> max_int64"
      using Cons.prems by simp_all
    from Cons.IH [OF IH, of "i + 1"] show ?thesis
    proof
      assume a: "cut_index limit ?t (i + 1) fs = 0 \<and>
        (\<forall>k. 1 \<le> k \<longrightarrow> k \<le> length fs \<longrightarrow> limit \<le> ?t - total_size (take k fs))"
      show ?thesis using a w False step by (intro disjI1) (auto simp: Let_def)
    next
      assume "\<exists>k. 1 \<le> k \<and> k \<le> length fs \<and> cut_index limit ?t (i + 1) fs = i + 1 + k
        \<and> ?t - total_size (take k fs) < limit
        \<and> (\<forall>j. 1 \<le> j \<longrightarrow> j < k \<longrightarrow> limit \<le> ?t - total_size (take j fs))"
      then obtain k where k: "1 \<le> k" "k \<le> length fs" "cut_index limit ?t (i + 1) fs = i + 1 + k"
        "?t - total_size (take k fs) < limit" "\<forall>j. 1 \<le> j \<longrightarrow> j < k \<longrightarrow> limit \<le> ?t - total_size (take j fs)"
        by auto
      show ?thesis
      proof (intro disjI2 exI [of _ "Suc k"] conjI allI impI)
        show "cut_index limit t i (f # fs) = i + Suc k" using k(3) w False by (simp add: Let_def)
        show "t - total_size (take (Suc k) (f # fs)) < limit" using k(4) by simp
        fix j :: nat assume "1 \<le> j" "j < Suc k"
        then show "limit \<le> t - total_size (take j (f # fs))" using k(5) step by auto
      qed (use k in auto)
    qed
  qed
qed

section \<open>What a cleanup achieves\<close>

lemma swo_mod_time: "swo_on A compare_mod_time"
  by (rule swo_on_key [where key = fi_mod_time]) (simp add: compare_mod_time_def)

lemma get_files_to_remove_take:
  assumes "sort_contract sortf" "sizes_fit files"
  defines "S \<equiv> sortf compare_mod_time files"
  shows "\<exists>k \<le> length S. get_files_to_remove sortf c files = take k S
    \<and> (total_size files - total_size (take k S) < cl_max_total_size c \<or> k = length S)
    \<and> (\<forall>j<k. cl_max_total_size c \<le> total_size files - total_size (take j S))"
proof (cases "total_size files < cl_max_total_size c")
  case True
  then show ?thesis
    using add_sizes_total [OF assms(2)] by (intro exI [of _ 0]) (simp add: get_files_to_remove_def)
next
  case False
  have m: "mset S = mset files" unfolding S_def by (rule sort_contract.sortf_mset [OF assms(1)])
  then have tot: "total_size S = total_size files" and fit: "sizes_fit S"
    using total_size_mset sizes_fit_mset assms(2) by blast+
  have len: "length files = length S" using m by (metis size_mset)
  have get: "get_files_to_remove sortf c files =
      (let k = cut_index (cl_max_total_size c) (total_size files) 0 S
       in take (if k = 0 then length S else k) S)"
    using False add_sizes_total [OF assms(2)] len
    by (simp add: get_files_to_remove_def S_def Let_def)
  have zero: "cl_max_total_size c \<le> total_size files - total_size (take 0 S)" using False by simp
  from cut_index_spec [of S "total_size files" "cl_max_total_size c" 0] show ?thesis
  proof
    assume "cut_index (cl_max_total_size c) (total_size files) 0 S = 0 \<and>
      (\<forall>k. 1 \<le> k \<longrightarrow> k \<le> length S \<longrightarrow> cl_max_total_size c \<le> total_size files - total_size (take k S))"
    then have c0: "cut_index (cl_max_total_size c) (total_size files) 0 S = 0"
      and lim: "\<And>k. 1 \<le> k \<Longrightarrow> k \<le> length S \<Longrightarrow> cl_max_total_size c \<le> total_size files - total_size (take k S)"
      by blast+
    have "cl_max_total_size c \<le> total_size files - total_size (take j S)" if "j < length S" for j
      using lim [of j] zero that by (cases j) auto
    then show ?thesis using get c0 by (intro exI [of _ "length S"]) simp
  next
    assume "\<exists>k. 1 \<le> k \<and> k \<le> length S \<and> cut_index (cl_max_total_size c) (total_size files) 0 S = 0 + k
      \<and> total_size files - total_size (take k S) < cl_max_total_size c
      \<and> (\<forall>j. 1 \<le> j \<longrightarrow> j < k \<longrightarrow> cl_max_total_size c \<le> total_size files - total_size (take j S))"
    then obtain k where k: "1 \<le> k" "k \<le> length S"
      "cut_index (cl_max_total_size c) (total_size files) 0 S = k"
      "total_size files - total_size (take k S) < cl_max_total_size c"
      "\<forall>j. 1 \<le> j \<longrightarrow> j < k \<longrightarrow> cl_max_total_size c \<le> total_size files - total_size (take j S)"
      by auto
    have "cl_max_total_size c \<le> total_size files - total_size (take j S)" if "j < k" for j
      using k(5) zero that by (cases j) auto
    then show ?thesis using k get by (intro exI [of _ k]) simp
  qed (use fit tot in \<open>auto simp: sizes_fit_def\<close>)
qed

lemma files_to_remove_spec:
  assumes "sort_contract sortf" "sizes_fit files"
  obtains kept where
    "mset (get_files_to_remove sortf c files @ kept) = mset files"
    "\<And>r k. r \<in> set (get_files_to_remove sortf c files) \<Longrightarrow> k \<in> set kept \<Longrightarrow> fi_mod_time r \<le> fi_mod_time k"
    "total_size kept < cl_max_total_size c \<or> kept = []"
    "get_files_to_remove sortf c files \<noteq> [] \<Longrightarrow>
      cl_max_total_size c \<le> fi_size (List.last (get_files_to_remove sortf c files)) + total_size kept"
proof -
  let ?S = "sortf compare_mod_time files"
  obtain k where k: "k \<le> length ?S" "get_files_to_remove sortf c files = take k ?S"
    "total_size files - total_size (take k ?S) < cl_max_total_size c \<or> k = length ?S"
    "\<forall>j<k. cl_max_total_size c \<le> total_size files - total_size (take j ?S)"
    using get_files_to_remove_take [OF assms] by blast
  have m: "mset ?S = mset files" by (rule sort_contract.sortf_mset [OF assms(1)])
  have "total_size files = total_size (take k ?S @ drop k ?S)"
    using total_size_mset [OF m] by simp
  then have tot: "total_size files = total_size (take k ?S) + total_size (drop k ?S)"
    by (simp only: total_size_simps)
  have "sorted_cmp compare_mod_time (take k ?S @ drop k ?S)"
    using sort_contract.sortf_sorted [OF assms(1) swo_mod_time] by simp
  then have old: "fi_mod_time r \<le> fi_mod_time g" if "r \<in> set (take k ?S)" "g \<in> set (drop k ?S)" for r g
    using that unfolding sorted_cmp_def sorted_wrt_append by (simp add: compare_mod_time_def not_less)
  show ?thesis
  proof (rule that [of "drop k ?S"])
    show "mset (get_files_to_remove sortf c files @ drop k ?S) = mset files" using k(2) m by simp
    show "total_size (drop k ?S) < cl_max_total_size c \<or> drop k ?S = []" using k(3) tot by auto
  next
    assume ne: "get_files_to_remove sortf c files \<noteq> []"
    then obtain j where j: "k = Suc j" using k(2) by (cases k) auto
    then have "take k ?S = take j ?S @ [?S ! j]" using k(1) by (simp add: take_Suc_conv_app_nth)
    moreover have "cl_max_total_size c \<le> total_size files - total_size (take j ?S)" using k(4) j by simp
    ultimately show "cl_max_total_size c \<le> fi_size (List.last (get_files_to_remove sortf c files)) + total_size (drop k ?S)"
      using k(2) tot by simp
  qed (use old k(2) in auto)
qed

lemma remove_files_left:
  "snd (remove_files removable rm (r, files)) =
     filter (\<lambda>g. \<not> (\<exists>f\<in>set rm. removable (fi_path f) \<and> fi_path f = fi_path g)) files"
  by (induction rm arbitrary: r files) (auto intro!: filter_cong)

lemma mset_filter_kept:
  assumes "distinct (map fi_path files)" "mset (rm @ kept) = mset files"
  shows "mset (filter (\<lambda>g. \<not> (\<exists>f\<in>set rm. fi_path f = fi_path g)) files) = mset kept"
proof -
  let ?P = "\<lambda>g. \<not> (\<exists>f\<in>set rm. fi_path f = fi_path g)"
  have "mset (map fi_path (rm @ kept)) = mset (map fi_path files)" using assms(2) by (metis mset_map)
  then have d: "distinct (map fi_path (rm @ kept))" using assms(1) by (metis mset_eq_imp_distinct_iff)
  have "mset (filter ?P files) = filter_mset ?P (mset (rm @ kept))" using assms(2) by simp
  also have "\<dots> = mset (filter ?P rm @ filter ?P kept)" by simp
  also have "filter ?P rm = []" by (auto simp: filter_empty_conv)
  also have "filter ?P kept = kept" using d by (auto simp: filter_id_conv)
  finally show ?thesis by simp
qed

text \<open>
  C10: A cleanup whose removals succeed leaves the cache below its limit (or empty), removes
  the oldest files only, and no more of them than it must: putting the youngest removed file
  back would reach the limit again. Nothing is removed from a cache below the limit.
\<close>

theorem cleanup_keeps_the_limit:
  assumes "sort_contract sortf" "sizes_fit files" "distinct (map fi_path files)"
    and "cleanup sortf (\<lambda>_. True) WalkOk c files = (metric, r, left)"
  shows "metric = Some (total_size files)
    \<and> (total_size left < cl_max_total_size c \<or> left = [])
    \<and> set left \<subseteq> set files
    \<and> (\<forall>f\<in>set files - set left. \<forall>g\<in>set left. fi_mod_time f \<le> fi_mod_time g)
    \<and> (if total_size files < cl_max_total_size c \<or> files = [] then left = files
       else \<exists>f\<in>set files - set left. cl_max_total_size c \<le> fi_size f + total_size left)"
proof -
  let ?rm = "get_files_to_remove sortf c files"
  obtain kept where kept: "mset (?rm @ kept) = mset files"
    "\<And>r k. r \<in> set ?rm \<Longrightarrow> k \<in> set kept \<Longrightarrow> fi_mod_time r \<le> fi_mod_time k"
    "total_size kept < cl_max_total_size c \<or> kept = []"
    "?rm \<noteq> [] \<Longrightarrow> cl_max_total_size c \<le> fi_size (List.last ?rm) + total_size kept"
    using files_to_remove_spec [OF assms(1,2)] by blast
  have left: "left = filter (\<lambda>g. \<not> (\<exists>f\<in>set ?rm. fi_path f = fi_path g)) files"
    using assms(4) remove_files_left [of "\<lambda>_. True" ?rm no_removal files]
    by (auto simp: cleanup_def load_all_files_def Let_def split: if_splits)
  have ml: "mset left = mset kept" using mset_filter_kept [OF assms(3) kept(1)] left by simp
  then have sl: "set left = set kept" "total_size left = total_size kept"
    by (auto dest: mset_eq_setD total_size_mset)
  have all: "set files = set ?rm \<union> set kept" using mset_eq_setD [OF kept(1)] by auto
  have disj: "set ?rm \<inter> set left = {}" using left by auto
  have none: "?rm = []" if "total_size files < cl_max_total_size c"
    using that add_sizes_total [OF assms(2)] by (simp add: get_files_to_remove_def)
  have some: "?rm \<noteq> []" if "\<not> total_size files < cl_max_total_size c" "files \<noteq> []"
  proof
    assume "?rm = []"
    then have "mset kept = mset files" using kept(1) by simp
    then have "total_size kept = total_size files" "kept \<noteq> []"
      using total_size_mset [of kept files] that(2) by (simp, force)
    then show False using kept(3) that(1) by simp
  qed
  have "metric = Some (total_size files)"
    using assms(4) add_sizes_total [OF assms(2)]
    by (auto simp: cleanup_def load_all_files_def Let_def split: if_splits)
  moreover have "\<exists>f\<in>set files - set left. cl_max_total_size c \<le> fi_size f + total_size left"
    if "\<not> total_size files < cl_max_total_size c" "files \<noteq> []"
    using some [OF that] kept(4) all disj sl(2) last_in_set by (metis Diff_iff Int_iff Un_iff empty_iff)
  moreover have "left = files" if "total_size files < cl_max_total_size c"
    using left none [OF that] by simp
  ultimately show ?thesis
    using kept(2,3) sl all left ml by auto
qed

lemma cleanup_keeps_the_limit_witness:
  "let f = (\<lambda>p t s. \<lparr>fi_path = p, fi_mod_time = t, fi_size = s\<rparr>);
       (metric, r, left) = cleanup insertion_sort (\<lambda>_. True) WalkOk
         \<lparr>cl_cache_name = ''c'', cl_abs_dir = ''/c'', cl_max_total_size = 100\<rparr>
         [f ''/c/b'' 3 60, f ''/c/a'' 1 50, f ''/c/d'' 2 10]
   in metric = Some 120 \<and> total_size left < 100 \<and> left \<noteq> []"
proof -
  let ?f = "\<lambda>p t s. \<lparr>fi_path = p, fi_mod_time = t, fi_size = s\<rparr>"
  let ?files = "[?f ''/c/b'' 3 60, ?f ''/c/a'' 1 50, ?f ''/c/d'' 2 10]"
  let ?c = "\<lparr>cl_cache_name = ''c'', cl_abs_dir = ''/c'', cl_max_total_size = 100\<rparr>"
  have fit: "sizes_fit ?files" by code_simp
  have d: "distinct (map fi_path ?files)" by simp
  have e: "cleanup insertion_sort (\<lambda>_. True) WalkOk ?c ?files =
      (Some 120, \<lparr>rm_count = 1, rm_space = 50, rm_errors = []\<rparr>, [?f ''/c/b'' 3 60, ?f ''/c/d'' 2 10])"
    by code_simp
  show ?thesis
    using cleanup_keeps_the_limit [OF ins_sort.sort_contract_axioms fit d e] unfolding Let_def e by simp
qed

text \<open>
  A walk that fails removes nothing, a directory that does not exist yet has nothing to
  remove, and a removal that fails leaves its file.
\<close>

lemma cleanup_errors:
  "cleanup sortf removable WalkFails c files = (None, no_removal, files)"
  "0 < cl_max_total_size c \<Longrightarrow> cleanup sortf removable WalkNotExist c files = (Some 0, no_removal, files)"
  "f \<in> set files \<Longrightarrow> \<not> removable (fi_path f) \<Longrightarrow> f \<in> set (snd (snd (cleanup sortf removable w c files)))"
  by (auto simp: cleanup_def load_all_files_def get_files_to_remove_def add_sizes_def remove_files_left Let_def
      split: walk_result.splits)

end
