(* ===== verification/CleanerProcess.thy ===== *)
theory CleanerProcess
  imports Cleaner
begin

text \<open>
  The goroutine and Shutdown of pkg/cache/cleaner.go: cleanups once at the start and at every tick,
  until Shutdown has closed stopCh. A step relation: a cleanup is one step, other parts of the
  program and the system may change the files between any two steps.
\<close>

datatype cleaner_phase = Cleaning | Waiting | CleanerStopped

datatype cleaner_shutdown = NotShutDown | AwaitsCleaner | ShutDown "bool" | ShutdownPanics

record cleaner_process =
  cr_phase :: cleaner_phase
  cr_stop_closed :: bool
  cr_finished_closed :: bool
  cr_shutdown :: cleaner_shutdown
  cr_files :: "file_info list"

definition new_cleaner_process :: "file_info list \<Rightarrow> cleaner_process" where
  "new_cleaner_process files =
     \<lparr>cr_phase = Cleaning, cr_stop_closed = False, cr_finished_closed = False,
      cr_shutdown = NotShutDown, cr_files = files\<rparr>"

text \<open>
  In \<open>cleaned\<close> the walk over the directory and each removal may fail. The select of the loop
  may take a tick though stopCh is closed; the one of Shutdown may give up at any time, even
  when the cleaner has finished, and a second Shutdown closes a closed channel.
\<close>

inductive cleaner_step ::
  "((file_info \<Rightarrow> file_info \<Rightarrow> int) \<Rightarrow> file_info list \<Rightarrow> file_info list) \<Rightarrow> cleaner \<Rightarrow> cleaner_process \<Rightarrow> cleaner_process \<Rightarrow> bool"
  for sortf c where
  cleaned: "cr_phase p = Cleaning \<Longrightarrow> cleanup sortf removable w c (cr_files p) = (metric, r, left) \<Longrightarrow>
     cleaner_step sortf c p (p\<lparr>cr_phase := Waiting, cr_files := left\<rparr>)"
| ticked: "cr_phase p = Waiting \<Longrightarrow> cleaner_step sortf c p (p\<lparr>cr_phase := Cleaning\<rparr>)"
| finished: "cr_phase p = Waiting \<Longrightarrow> cr_stop_closed p \<Longrightarrow>
     cleaner_step sortf c p (p\<lparr>cr_phase := CleanerStopped, cr_finished_closed := True\<rparr>)"
| files_change: "cleaner_step sortf c p (p\<lparr>cr_files := files\<rparr>)"
| shutdown_begins: "cr_shutdown p = NotShutDown \<Longrightarrow>
     cleaner_step sortf c p (p\<lparr>cr_stop_closed := True, cr_shutdown := AwaitsCleaner\<rparr>)"
| shutdown_done: "cr_shutdown p = AwaitsCleaner \<Longrightarrow> cr_finished_closed p \<Longrightarrow>
     cleaner_step sortf c p (p\<lparr>cr_shutdown := ShutDown True\<rparr>)"
| shutdown_expires: "cr_shutdown p = AwaitsCleaner \<Longrightarrow>
     cleaner_step sortf c p (p\<lparr>cr_shutdown := ShutDown False\<rparr>)"
| shutdown_again: "cr_shutdown p = ShutDown ok \<Longrightarrow>
     cleaner_step sortf c p (p\<lparr>cr_shutdown := ShutdownPanics\<rparr>)"

inductive_cases cleaner_stepE: "cleaner_step sortf c p q"

text \<open>The channels are closed by Shutdown and by the end of the loop, and by nothing else.\<close>

definition cleaner_inv :: "cleaner_process \<Rightarrow> bool" where
  "cleaner_inv p \<longleftrightarrow>
     (cr_stop_closed p \<longleftrightarrow> cr_shutdown p \<noteq> NotShutDown)
     \<and> (cr_finished_closed p \<longleftrightarrow> cr_phase p = CleanerStopped)
     \<and> (cr_finished_closed p \<longrightarrow> cr_stop_closed p)
     \<and> (cr_shutdown p = ShutDown True \<longrightarrow> cr_finished_closed p)"

lemma cleaner_inv_new: "cleaner_inv (new_cleaner_process files)"
  by (simp add: cleaner_inv_def new_cleaner_process_def)

lemma cleaner_inv_step: "cleaner_step sortf c p q \<Longrightarrow> cleaner_inv p \<Longrightarrow> cleaner_inv q"
  by (induction rule: cleaner_step.induct) (auto simp: cleaner_inv_def)

lemma cleaner_inv_steps: "(cleaner_step sortf c)\<^sup>*\<^sup>* p q \<Longrightarrow> cleaner_inv p \<Longrightarrow> cleaner_inv q"
  by (induction rule: rtranclp_induct) (auto intro: cleaner_inv_step)

text \<open>A cleaner that has stopped never cleans again.\<close>

lemma stopped_cleaner_steps:
  "(cleaner_step sortf c)\<^sup>*\<^sup>* p q \<Longrightarrow> cr_phase p = CleanerStopped \<Longrightarrow> cr_phase q = CleanerStopped"
proof (induction rule: rtranclp_induct)
  case (step q r)
  from step(2) show ?case using step.IH [OF step.prems] by (auto elim!: cleaner_stepE)
qed simp

text \<open>
  Once Shutdown has returned without an error the cleaner removes nothing any more; while it waits,
  the loop can always go on to the end, in at most two steps.
\<close>

lemma no_cleanup_after_shutdown:
  assumes "(cleaner_step sortf c)\<^sup>*\<^sup>* (new_cleaner_process files) p" "cr_shutdown p = ShutDown True"
  shows "\<forall>q. (cleaner_step sortf c)\<^sup>*\<^sup>* p q \<longrightarrow> cr_phase q = CleanerStopped"
proof -
  have "cr_phase p = CleanerStopped"
    using cleaner_inv_steps [OF assms(1) cleaner_inv_new] assms(2) by (auto simp: cleaner_inv_def)
  then show ?thesis using stopped_cleaner_steps by blast
qed

lemma shutdown_can_finish:
  assumes "(cleaner_step sortf c)\<^sup>*\<^sup>* (new_cleaner_process files) p" "cr_shutdown p = AwaitsCleaner"
  shows "\<exists>q. (cleaner_step sortf c)\<^sup>*\<^sup>* p q \<and> cr_shutdown q = ShutDown True"
proof -
  have stop: "cr_stop_closed p" and fin: "cr_finished_closed p \<longleftrightarrow> cr_phase p = CleanerStopped"
    using cleaner_inv_steps [OF assms(1) cleaner_inv_new] assms(2) by (auto simp: cleaner_inv_def)
  have wait: "\<exists>q. (cleaner_step sortf c)\<^sup>*\<^sup>* p q \<and> cr_shutdown q = ShutDown True"
    if "cr_phase p = Waiting" "cr_stop_closed p" "cr_shutdown p = AwaitsCleaner" for p
  proof -
    let ?p = "p\<lparr>cr_phase := CleanerStopped, cr_finished_closed := True\<rparr>"
    have "cleaner_step sortf c p ?p" using finished that(1,2) by blast
    moreover have "cleaner_step sortf c ?p (?p\<lparr>cr_shutdown := ShutDown True\<rparr>)"
      using shutdown_done [of ?p] that(3) by simp
    ultimately have steps: "(cleaner_step sortf c)\<^sup>*\<^sup>* p (?p\<lparr>cr_shutdown := ShutDown True\<rparr>)"
      by (rule converse_rtranclp_into_rtranclp [OF _ r_into_rtranclp])
    show ?thesis by (rule exI, rule conjI [OF steps]) simp
  qed
  show ?thesis
  proof (cases "cr_phase p")
    case Cleaning
    obtain m r left where "cleanup sortf (\<lambda>_. True) WalkOk c (cr_files p) = (m, r, left)" by (metis prod.exhaust)
    then have first: "cleaner_step sortf c p (p\<lparr>cr_phase := Waiting, cr_files := left\<rparr>)" using cleaned Cleaning by blast
    obtain q where "(cleaner_step sortf c)\<^sup>*\<^sup>* (p\<lparr>cr_phase := Waiting, cr_files := left\<rparr>) q" "cr_shutdown q = ShutDown True"
      using wait [of "p\<lparr>cr_phase := Waiting, cr_files := left\<rparr>"] stop assms(2) by auto
    then show ?thesis using converse_rtranclp_into_rtranclp [of "cleaner_step sortf c", OF first] by blast
  next
    case Waiting
    then show ?thesis using wait stop assms(2) by blast
  next
    case CleanerStopped
    then have "cleaner_step sortf c p (p\<lparr>cr_shutdown := ShutDown True\<rparr>)" using shutdown_done assms(2) fin by blast
    note steps = r_into_rtranclp [of "cleaner_step sortf c", OF this]
    show ?thesis by (rule exI, rule conjI [OF steps]) simp
  qed
qed

end
