(* ===== verification/Md5.thy ===== *)
theory Md5
  imports Prelude
begin

text \<open>
  crypto/md5 (RFC 1321) and encoding/hex, as pkg/cache/disk.go uses them for the names of
  cache files.
\<close>

unbundle bit_operations_syntax

section \<open>Padding and words\<close>

definition byte_of :: "char \<Rightarrow> u32" where
  "byte_of c = of_nat (of_char c)"

definition le_bytes :: "nat \<Rightarrow> int \<Rightarrow> char list" where
  "le_bytes k n = map (\<lambda>i. char_of (n div 256 ^ i)) [0..<k]"

definition md5_pad :: "string \<Rightarrow> string" where
  "md5_pad msg =
     msg @ CHR 0x80 # replicate ((119 - length msg mod 64) mod 64) (CHR 0x00)
         @ le_bytes 8 (8 * int (length msg) mod 2 ^ 64)"

fun le_words :: "string \<Rightarrow> u32 list" where
  "le_words (a # b # c # d # rest) =
     (byte_of a + 0x100 * byte_of b + 0x10000 * byte_of c + 0x1000000 * byte_of d) # le_words rest"
| "le_words _ = []"

section \<open>Rounds\<close>

definition md5_k :: "u32 list" where
  "md5_k =
     [0xD76AA478, 0xE8C7B756, 0x242070DB, 0xC1BDCEEE, 0xF57C0FAF, 0x4787C62A,
      0xA8304613, 0xFD469501, 0x698098D8, 0x8B44F7AF, 0xFFFF5BB1, 0x895CD7BE,
      0x6B901122, 0xFD987193, 0xA679438E, 0x49B40821, 0xF61E2562, 0xC040B340,
      0x265E5A51, 0xE9B6C7AA, 0xD62F105D, 0x02441453, 0xD8A1E681, 0xE7D3FBC8,
      0x21E1CDE6, 0xC33707D6, 0xF4D50D87, 0x455A14ED, 0xA9E3E905, 0xFCEFA3F8,
      0x676F02D9, 0x8D2A4C8A, 0xFFFA3942, 0x8771F681, 0x6D9D6122, 0xFDE5380C,
      0xA4BEEA44, 0x4BDECFA9, 0xF6BB4B60, 0xBEBFBC70, 0x289B7EC6, 0xEAA127FA,
      0xD4EF3085, 0x04881D05, 0xD9D4D039, 0xE6DB99E5, 0x1FA27CF8, 0xC4AC5665,
      0xF4292244, 0x432AFF97, 0xAB9423A7, 0xFC93A039, 0x655B59C3, 0x8F0CCC92,
      0xFFEFF47D, 0x85845DD1, 0x6FA87E4F, 0xFE2CE6E0, 0xA3014314, 0x4E0811A1,
      0xF7537E82, 0xBD3AF235, 0x2AD7D2BB, 0xEB86D391]"

definition md5_s :: "nat list" where
  "md5_s =
     concat (replicate 4 [7, 12, 17, 22]) @ concat (replicate 4 [5, 9, 14, 20])
     @ concat (replicate 4 [4, 11, 16, 23]) @ concat (replicate 4 [6, 10, 15, 21])"

type_synonym md5_state = "u32 \<times> u32 \<times> u32 \<times> u32"

fun md5_round :: "u32 list \<Rightarrow> nat \<Rightarrow> md5_state \<Rightarrow> md5_state" where
  "md5_round M i (a, b, c, d) =
     (let (f, g) =
        (if i < 16 then ((b AND c) OR (NOT b AND d), i)
         else if i < 32 then ((d AND b) OR (NOT d AND c), (5 * i + 1) mod 16)
         else if i < 48 then (xor (xor b c) d, (3 * i + 5) mod 16)
         else (xor c (b OR NOT d), (7 * i) mod 16))
      in (d, b + word_rotl (md5_s ! i) (f + a + md5_k ! i + M ! g), b, c))"

fun add_state :: "md5_state \<Rightarrow> md5_state \<Rightarrow> md5_state" where
  "add_state (a, b, c, d) (a', b', c', d') = (a + a', b + b', c + c', d + d')"

function md5_blocks :: "u32 list \<Rightarrow> md5_state \<Rightarrow> md5_state" where
  "md5_blocks ws st =
     (if length ws < 16 then st
      else md5_blocks (drop 16 ws) (add_state st (fold (md5_round (take 16 ws)) [0..<64] st)))"
  by pat_completeness auto

termination md5_blocks
  by (relation "measure (\<lambda>(ws, _). length ws)") auto

declare md5_blocks.simps [simp del]

definition md5_sum :: "string \<Rightarrow> string" where
  "md5_sum msg =
     (case md5_blocks (le_words (md5_pad msg)) (0x67452301, 0xEFCDAB89, 0x98BADCFE, 0x10325476) of
        (a, b, c, d) \<Rightarrow> concat (map (le_bytes 4 \<circ> uint) [a, b, c, d]))"

section \<open>Hexadecimal\<close>

definition hex_char :: "nat \<Rightarrow> char" where
  "hex_char n = ''0123456789abcdef'' ! (n mod 16)"

definition hex_encode :: "string \<Rightarrow> string" where
  "hex_encode s = concat (map (\<lambda>c. let n = of_char c in [hex_char (n div 16), hex_char n]) s)"

lemma char_code_bound: "(of_char c :: nat) < 256"
  by (metis of_char_mod_256 mod_less_divisor zero_less_numeral)

lemma hex_char_inj: "hex_char m = hex_char n \<longleftrightarrow> m mod 16 = n mod 16"
proof -
  have d: "distinct ''0123456789abcdef''" and l: "length ''0123456789abcdef'' = 16" by code_simp+
  show ?thesis unfolding hex_char_def using nth_eq_iff_index_eq [OF d] l by simp
qed

lemma hex_char_set: "hex_char n \<in> set ''0123456789abcdef''"
proof -
  have "length ''0123456789abcdef'' = 16" by code_simp
  then show ?thesis unfolding hex_char_def by (metis mod_less_divisor nth_mem zero_less_numeral)
qed

lemma set_hex_encode: "set (hex_encode s) \<subseteq> set ''0123456789abcdef''"
proof -
  have "set [hex_char m, hex_char n] \<subseteq> set ''0123456789abcdef''" for m n
    using hex_char_set [of m] hex_char_set [of n] by (simp del: list.set add: list.set(2) [of "hex_char _"] list.set(1))
  then show ?thesis unfolding hex_encode_def Let_def by (simp only: set_concat set_map) blast
qed

lemma length_hex_encode [simp]: "length (hex_encode s) = 2 * length s"
  by (induction s) (simp_all add: hex_encode_def Let_def)

lemma hex_encode_inj: "hex_encode s = hex_encode t \<longleftrightarrow> s = t"
proof (induction s arbitrary: t)
  case Nil
  then show ?case by (cases t) (simp_all add: hex_encode_def Let_def)
next
  case (Cons c s)
  show ?case
  proof (cases t)
    case Nil
    then show ?thesis by (simp add: hex_encode_def Let_def)
  next
    case (Cons d t')
    have e: "(of_char c :: nat) div 16 mod 16 = of_char d div 16 mod 16 \<and> (of_char c :: nat) mod 16 = of_char d mod 16 \<longleftrightarrow> c = d"
    proof
      assume a: "(of_char c :: nat) div 16 mod 16 = of_char d div 16 mod 16 \<and> (of_char c :: nat) mod 16 = of_char d mod 16"
      have "(of_char c :: nat) div 16 < 16" "(of_char d :: nat) div 16 < 16"
        using char_code_bound [of c] char_code_bound [of d] by (simp_all add: less_mult_imp_div_less)
      then have "(of_char c :: nat) = of_char d" using a by (metis div_mult_mod_eq mod_less)
      then show "c = d" by (simp add: of_char_eq_iff)
    qed simp
    show ?thesis
      using Cons Cons.IH [of t'] e by (auto simp: hex_encode_def Let_def hex_char_inj)
  qed
qed

lemma length_md5_sum [simp]: "length (md5_sum msg) = 16"
  by (simp add: md5_sum_def le_bytes_def split: prod.splits)

text \<open>A test vector of RFC 1321.\<close>

lemma md5_test_vector: "hex_encode (md5_sum ''abc'') = ''900150983cd24fb0d6963f7d28e17f72''"
  by code_simp

end
