(* ===== verification/DiskCache.thy ===== *)
theory DiskCache
  imports Cleaner FileId GoTime Md5
begin

text \<open>
  pkg/cache/disk.go and in_memory.go: the cache of files on disk, whose file names are made
  of the modification time, the size and the MD5 sum of the path, and the cache in memory.
  Both meet the contract that the thumbnail service relies on, the locale \<open>file_cache\<close>.
\<close>

section \<open>File names\<close>

text \<open>\<open>off\<close> is the local time zone: the offset in seconds at a Unix time.\<close>

definition cache_subdir :: "(int \<Rightarrow> int) \<Rightarrow> int \<Rightarrow> string" where
  "cache_subdir off t = format_month (t + off t)"

definition cache_filename :: "ucd \<Rightarrow> file_id \<Rightarrow> string" where
  "cache_filename U fid =
     ''t'' @ format_int (fid_mod_time fid) @ ''_s'' @ format_int (fid_size fid) @ ''_'' @
     hex_encode (md5_sum (fid_path fid)) @ get_ext U fid"

definition generate_filepath :: "ucd \<Rightarrow> (int \<Rightarrow> int) \<Rightarrow> string \<Rightarrow> file_id \<Rightarrow> string" where
  "generate_filepath U off absDir fid =
     path_join [absDir, cache_subdir off (fid_mod_time fid), cache_filename U fid]"

section \<open>Operations\<close>

record disk_cache =
  dk_abs_dir :: string
  dk_cleaner :: "cleaner option"

datatype new_cache_error = CacheDirNotAbsolute | NoCleaner cleaner_error

definition new_disk_cache :: "string \<Rightarrow> string \<Rightarrow> bool \<Rightarrow> int \<Rightarrow> new_cache_error + disk_cache" where
  "new_disk_cache cacheName absDir disableCleaner maxSize =
     (if \<not> is_abs absDir then Inl CacheDirNotAbsolute
      else if disableCleaner then Inr \<lparr>dk_abs_dir = absDir, dk_cleaner = None\<rparr>
      else case new_cleaner cacheName absDir maxSize of
          Inl e \<Rightarrow> Inl (NoCleaner e)
        | Inr cl \<Rightarrow> Inr \<lparr>dk_abs_dir = absDir, dk_cleaner = Some cl\<rparr>)"

datatype cache_error =
    CacheMiss
  | CacheOpenFailed
  | NoFilepath
  | CacheCreateFailed
  | CacheCopyFailed
  | CacheCloseFailed
  | CacheRemoveFailed

text \<open>
  The files of the machine by path; a reader delivers its bytes and then ends or fails;
  what the disk does: whether directories, files, closing, opening and removing succeed, and
  how many bytes fit.
\<close>

type_synonym files = "string \<Rightarrow> string option"
type_synonym reader = "string \<times> bool"

record disk_io =
  io_mkdir :: bool
  io_create :: bool
  io_space :: nat
  io_close :: bool
  io_open :: bool
  io_remove :: bool

definition disk_open :: "ucd \<Rightarrow> (int \<Rightarrow> int) \<Rightarrow> disk_cache \<Rightarrow> disk_io \<Rightarrow> files \<Rightarrow> file_id \<Rightarrow> cache_error + string" where
  "disk_open U off c io fs fid =
     (case fs (generate_filepath U off (dk_abs_dir c) fid) of
        None \<Rightarrow> Inl CacheMiss
      | Some content \<Rightarrow> if io_open io then Inr content else Inl CacheOpenFailed)"

definition disk_get_filepath :: "ucd \<Rightarrow> (int \<Rightarrow> int) \<Rightarrow> disk_cache \<Rightarrow> disk_io \<Rightarrow> file_id \<Rightarrow> cache_error + string" where
  "disk_get_filepath U off c io fid =
     (if io_mkdir io then Inr (generate_filepath U off (dk_abs_dir c) fid) else Inl NoFilepath)"

text \<open>io.Copy to a file: the bytes written, and whether it failed.\<close>

definition copy_to_file :: "disk_io \<Rightarrow> reader \<Rightarrow> string \<times> bool" where
  "copy_to_file io r = (take (io_space io) (fst r), snd r \<or> io_space io < length (fst r))"

definition clean_up :: "disk_io \<Rightarrow> string \<Rightarrow> files \<Rightarrow> files" where
  "clean_up io path fs = (if io_remove io then fs(path := None) else fs)"

definition disk_write :: "ucd \<Rightarrow> (int \<Rightarrow> int) \<Rightarrow> disk_cache \<Rightarrow> disk_io \<Rightarrow> file_id \<Rightarrow> reader \<Rightarrow> files \<Rightarrow>
    cache_error option \<times> files" where
  "disk_write U off c io fid r fs =
     (case disk_get_filepath U off c io fid of
        Inl e \<Rightarrow> (Some e, fs)
      | Inr path \<Rightarrow>
          if \<not> io_create io then (Some CacheCreateFailed, fs)
          else
            let (written, failed) = copy_to_file io r;
                fs = fs(path := Some written)
            in if failed then (Some CacheCopyFailed, clean_up io path fs)
               else if \<not> io_close io then (Some CacheCloseFailed, clean_up io path fs)
               else (None, fs))"

definition disk_remove :: "ucd \<Rightarrow> (int \<Rightarrow> int) \<Rightarrow> disk_cache \<Rightarrow> disk_io \<Rightarrow> file_id \<Rightarrow> files \<Rightarrow>
    cache_error option \<times> files" where
  "disk_remove U off c io fid fs =
     (let path = generate_filepath U off (dk_abs_dir c) fid
      in if fs path \<noteq> None \<and> io_remove io then (None, fs(path := None))
         else (Some CacheRemoveFailed, fs))"

section \<open>In memory\<close>

type_synonym memory_cache = "file_id \<Rightarrow> string option"

definition memory_open :: "memory_cache \<Rightarrow> file_id \<Rightarrow> cache_error + string" where
  "memory_open c fid = (case c fid of None \<Rightarrow> Inl CacheMiss | Some d \<Rightarrow> Inr d)"

definition memory_get_filepath :: "memory_cache \<Rightarrow> file_id \<Rightarrow> cache_error + string" where
  "memory_get_filepath c fid = Inl NoFilepath"

definition memory_write :: "file_id \<Rightarrow> reader \<Rightarrow> memory_cache \<Rightarrow> cache_error option \<times> memory_cache" where
  "memory_write fid r c = (if snd r then (Some CacheCopyFailed, c) else (None, c(fid := Some (fst r))))"

definition memory_remove :: "file_id \<Rightarrow> memory_cache \<Rightarrow> cache_error option \<times> memory_cache" where
  "memory_remove fid c = (None, c(fid := None))"

section \<open>The contract\<close>

text \<open>
  What a user of a cache relies on: a write that succeeds stores all that its reader gave
  under the key of the identifier; one that fails, when the clean-up works, leaves the old
  content or none, never a part of it; nothing changes under another key.
\<close>

locale file_cache =
  fixes look :: "'c \<Rightarrow> file_id \<Rightarrow> string option"
    and put :: "'io \<Rightarrow> file_id \<Rightarrow> reader \<Rightarrow> 'c \<Rightarrow> cache_error option \<times> 'c"
    and remove :: "'io \<Rightarrow> file_id \<Rightarrow> 'c \<Rightarrow> cache_error option \<times> 'c"
    and key :: "file_id \<Rightarrow> 'k"
    and clean :: "'io \<Rightarrow> bool"
  assumes write_ok: "put io i r c = (None, c') \<Longrightarrow>
      \<not> snd r \<and> look c' j = (if key j = key i then Some (fst r) else look c j)"
    and write_fails: "put io i r c = (Some e, c') \<Longrightarrow> clean io \<Longrightarrow>
      look c' j = look c j \<or> key j = key i \<and> look c' j = None"
    and remove_ok: "remove io i c = (None, c') \<Longrightarrow> look c' j = (if key j = key i then None else look c j)"
    and remove_fails: "remove io i c = (Some e, c') \<Longrightarrow> look c' j = look c j"
begin

text \<open>A history of operations, and the writes of it that succeeded.\<close>

primrec run_ops :: "('io \<times> file_id \<times> reader option) list \<Rightarrow> 'c \<Rightarrow> 'c" where
  "run_ops [] c = c"
| "run_ops (p # ps) c =
     run_ops ps (case p of (io, i, Some r) \<Rightarrow> snd (put io i r c) | (io, i, None) \<Rightarrow> snd (remove io i c))"

lemma look_after_write: "put io i r c = (None, c') \<Longrightarrow> look c' i = Some (fst r)"
  using write_ok [of io i r c c' i] by simp

lemma run_ops_complete:
  assumes "look (run_ops ps c) j = Some d" "\<forall>(io, i, r)\<in>set ps. clean io"
  shows "look c j = Some d \<or> (\<exists>io i. (io, i, Some (d, False)) \<in> set ps \<and> key i = key j)"
  using assms
proof (induction ps arbitrary: c)
  case Nil
  then show ?case by simp
next
  case (Cons p ps)
  obtain io i ro where p: "p = (io, i, ro)" by (cases p)
  have cl: "clean io" and rest: "\<forall>(io, i, r)\<in>set ps. clean io" using Cons.prems(2) p by auto
  let ?c = "case p of (io, i, Some r) \<Rightarrow> snd (put io i r c) | (io, i, None) \<Rightarrow> snd (remove io i c)"
  have run: "look (run_ops ps ?c) j = Some d" using Cons.prems(1) by simp
  from Cons.IH [OF run rest] have "look ?c j = Some d \<or> (\<exists>io i. (io, i, Some (d, False)) \<in> set (p # ps) \<and> key i = key j)"
    by auto
  moreover have "look c j = Some d \<or> (\<exists>io i. (io, i, Some (d, False)) \<in> set (p # ps) \<and> key i = key j)"
    if l: "look ?c j = Some d"
  proof (cases ro)
    case None
    obtain e c' where r: "remove io i c = (e, c')" by fastforce
    then show ?thesis
      using l p None remove_ok [of io i c c' j] remove_fails [of io i c _ c' j]
      by (cases e) (auto split: if_splits)
  next
    case (Some r)
    obtain e c' where w: "put io i r c = (e, c')" by fastforce
    show ?thesis
    proof (cases e)
      case None
      then have "\<not> snd r" "look c' j = (if key j = key i then Some (fst r) else look c j)"
        using write_ok [of io i r c c' j] w by simp_all
      then show ?thesis using l p w Some by (cases r) (auto split: if_splits)
    next
      case (Some e')
      then have "look c' j = look c j \<or> look c' j = None"
        using write_fails [of io i r c e' c' j] w cl by auto
      then show ?thesis using l p w \<open>ro = Some r\<close> by auto
    qed
  qed
  ultimately show ?case by blast
qed

end

text \<open>Both caches meet the contract.\<close>

definition disk_key :: "ucd \<Rightarrow> (int \<Rightarrow> int) \<Rightarrow> disk_cache \<Rightarrow> file_id \<Rightarrow> string" where
  "disk_key U off c fid = generate_filepath U off (dk_abs_dir c) fid"

definition disk_look :: "ucd \<Rightarrow> (int \<Rightarrow> int) \<Rightarrow> disk_cache \<Rightarrow> files \<Rightarrow> file_id \<Rightarrow> string option" where
  "disk_look U off c fs fid = fs (disk_key U off c fid)"

lemma disk_open_look: "io_open io \<Longrightarrow>
    disk_open U off c io fs fid = (case disk_look U off c fs fid of None \<Rightarrow> Inl CacheMiss | Some d \<Rightarrow> Inr d)"
  by (simp add: disk_open_def disk_look_def disk_key_def split: option.splits)

lemma copy_ok: "copy_to_file io r = (w, False) \<Longrightarrow> w = fst r \<and> \<not> snd r"
  by (auto simp: copy_to_file_def)

interpretation disk: file_cache "disk_look U off c" "disk_write U off c" "disk_remove U off c" "disk_key U off c" io_remove
  for U off c
proof
  fix io :: disk_io and i j r fs fs'
  assume w: "disk_write U off c io i r fs = (None, fs')"
  then have f: "\<not> snd (copy_to_file io r)" and e: "fs' = fs(disk_key U off c i := Some (fst (copy_to_file io r)))"
    by (auto simp: disk_write_def disk_get_filepath_def disk_key_def Let_def split: if_splits prod.splits)
  then show "\<not> snd r \<and> disk_look U off c fs' j =
      (if disk_key U off c j = disk_key U off c i then Some (fst r) else disk_look U off c fs j)"
    using copy_ok [of io r "fst (copy_to_file io r)"] by (cases "copy_to_file io r") (auto simp: disk_look_def)
next
  fix io :: disk_io and i j r fs fs' e
  assume w: "disk_write U off c io i r fs = (Some e, fs')" "io_remove io"
  then have "fs' = fs \<or> fs' = fs(disk_key U off c i := None)"
    by (auto simp: disk_write_def disk_get_filepath_def disk_key_def clean_up_def Let_def split: if_splits prod.splits)
  then show "disk_look U off c fs' j = disk_look U off c fs j
      \<or> disk_key U off c j = disk_key U off c i \<and> disk_look U off c fs' j = None"
    by (auto simp: disk_look_def split: if_splits)
next
  fix io :: disk_io and i j fs fs'
  assume "disk_remove U off c io i fs = (None, fs')"
  then show "disk_look U off c fs' j = (if disk_key U off c j = disk_key U off c i then None else disk_look U off c fs j)"
    by (auto simp: disk_remove_def disk_look_def disk_key_def Let_def split: if_splits)
next
  fix io :: disk_io and i j fs fs' e
  assume "disk_remove U off c io i fs = (Some e, fs')"
  then show "disk_look U off c fs' j = disk_look U off c fs j"
    by (auto simp: disk_remove_def Let_def split: if_splits)
qed

interpretation memory: file_cache "\<lambda>c. c" "\<lambda>(_ :: unit). memory_write" "\<lambda>_. memory_remove" "\<lambda>i. i" "\<lambda>_. True"
  by unfold_locales (auto simp: memory_write_def memory_remove_def split: if_splits)

section \<open>Where the files are\<close>

text \<open>Joining proper elements to a rooted directory.\<close>

lemma split_on_append: "split_on d (a @ d # s) = split_on d a @ split_on d s"
  by (induction a) (auto split: list.splits)

lemma clean_comps_append:
  "clean_comps rooted st (xs @ ys) = clean_comps rooted (rev (clean_comps rooted st xs)) ys"
  by (induction rooted st xs rule: clean_comps.induct) (auto split: list.splits)

lemma split_on_join_proper: "list_all proper_elem ws \<Longrightarrow> ws \<noteq> [] \<Longrightarrow> split_on slash (join_with ''/'' ws) = ws"
  by (rule split_join) (auto simp: list_all_iff proper_elem_def)

lemma path_comps_join:
  assumes "is_rooted a" "list_all proper_elem ws" "ws \<noteq> []"
  shows "path_comps (a @ slash # join_with ''/'' ws) = path_comps a @ ws"
    and "is_rooted (a @ slash # join_with ''/'' ws)"
proof -
  show r: "is_rooted (a @ slash # join_with ''/'' ws)"
    using assms(1) by (cases a) (simp_all add: is_rooted_def)
  have "list_all (\<lambda>w. w = [] \<or> proper_elem w) ws" using assms(2) by (simp add: list_all_iff)
  moreover have "filter (\<lambda>w. w \<noteq> []) ws = ws" using assms(2) by (auto simp: filter_id_conv list_all_iff proper_elem_def)
  ultimately have "clean_comps True (rev (path_comps a)) ws = path_comps a @ ws"
    using clean_comps_proper [of ws True "rev (path_comps a)"] assms(2) by simp
  then show "path_comps (a @ slash # join_with ''/'' ws) = path_comps a @ ws"
    using assms r by (simp add: path_comps_def split_on_append split_on_join_proper clean_comps_append)
qed

lemma path_join_proper:
  assumes "is_rooted a" "list_all proper_elem ws" "ws \<noteq> []"
  shows "path_join (a # ws) = rooted_join (path_comps a @ ws)"
proof -
  have a: "a \<noteq> []" using assms(1) by (auto simp: is_rooted_def)
  have f: "filter (\<lambda>p. p \<noteq> []) ws = ws" using assms(2) by (auto simp: filter_id_conv list_all_iff proper_elem_def)
  have "join_with ''/'' (a # ws) = a @ slash # join_with ''/'' ws" using assms(3) by (cases ws) simp_all
  then have "path_join (a # ws) = path_clean (a @ slash # join_with ''/'' ws)"
    using a f by (simp add: path_join_def)
  then show ?thesis
    using path_clean_rooted [OF path_comps_join(2) [OF assms]] path_comps_join(1) [OF assms] assms(3)
      rooted_join_join [of "path_comps a @ ws"] by simp
qed

text \<open>The parts of a file name have no slash, and determine it.\<close>

lemma format_nat_no: "\<not> is_digit c \<Longrightarrow> c \<notin> set (format_nat n)"
  using format_nat_digits [of n] by (auto simp: list_all_iff)

lemma format_int_no: "\<not> is_digit c \<Longrightarrow> c \<noteq> CHR ''-'' \<Longrightarrow> c \<notin> set (format_int i)"
  using format_nat_no by (simp add: format_int_def)

lemma month_no_slash: "slash \<notin> set (format_month t)" "CHR ''-'' \<in> set (format_month t)"
  using format_nat_no [of slash]
  by (cases "civil_of_days (t div 86400)";
      auto simp: format_month_def pad_year_def pad_nat_def Let_def is_digit_def)+

lemma ext_no_slash: "sane_ucd U \<Longrightarrow> slash \<notin> set (get_ext U fid)"
proof
  assume "sane_ucd U" "slash \<in> set (get_ext U fid)"
  then have "slash \<in> set (path_ext (fid_name fid))"
    using to_lower_other [of U slash "path_ext (fid_name fid)"] by (simp add: get_ext_def get_file_ext_def)
  moreover have "slash \<notin> set (rev (takeWhile (\<lambda>c. c \<noteq> CHR ''.'') (rev (last_elem (fid_name fid)))))"
    using last_elem_no_slash [of "fid_name fid"] by (auto dest: set_takeWhileD)
  ultimately show False by (auto simp: path_ext_def Let_def split: if_splits)
qed

lemma hex_no: "c \<notin> set ''0123456789abcdef'' \<Longrightarrow> c \<notin> set (hex_encode s)"
  using set_hex_encode by blast

lemma filename_proper: "sane_ucd U \<Longrightarrow> proper_elem (cache_filename U fid)"
proof -
  assume "sane_ucd U"
  moreover have "slash \<notin> set (hex_encode (md5_sum (fid_path fid)))" by (rule hex_no) simp
  moreover have "slash \<notin> set (format_int i)" for i by (rule format_int_no) (simp_all add: is_digit_def)
  ultimately show ?thesis using ext_no_slash by (simp add: proper_elem_def cache_filename_def)
qed

lemma subdir_proper: "proper_elem (cache_subdir off t)"
  using month_no_slash [of "t + off t"] by (auto simp: proper_elem_def cache_subdir_def)

lemma generate_filepath_shape:
  "is_rooted absDir \<Longrightarrow> sane_ucd U \<Longrightarrow>
   generate_filepath U off absDir fid =
     rooted_join (path_comps absDir @ [cache_subdir off (fid_mod_time fid), cache_filename U fid])"
  using path_join_proper [of absDir "[cache_subdir off (fid_mod_time fid), cache_filename U fid]"]
    subdir_proper filename_proper by (simp add: generate_filepath_def)

lemma append_sep_inject:
  "c \<notin> set a \<Longrightarrow> c \<notin> set b \<Longrightarrow> a @ c # x = b @ c # y \<longleftrightarrow> a = b \<and> x = y"
  by (induction a arbitrary: b; case_tac b) auto

lemma format_int_inject: "in_i64 i \<Longrightarrow> in_i64 j \<Longrightarrow> format_int i = format_int j \<longleftrightarrow> i = j"
  by (metis parse_format_int sum.inject(2))

lemma cache_filename_inject:
  assumes "in_i64 (fid_mod_time a)" "in_i64 (fid_mod_time b)" "in_i64 (fid_size a)" "in_i64 (fid_size b)"
  shows "cache_filename U a = cache_filename U b \<longleftrightarrow>
    fid_mod_time a = fid_mod_time b \<and> fid_size a = fid_size b
    \<and> md5_sum (fid_path a) = md5_sum (fid_path b) \<and> get_ext U a = get_ext U b"
proof -
  have u: "CHR ''_'' \<notin> set (format_int i)" for i by (rule format_int_no) (simp_all add: is_digit_def)
  have "cache_filename U a = cache_filename U b \<longleftrightarrow>
      format_int (fid_mod_time a) = format_int (fid_mod_time b)
      \<and> format_int (fid_size a) = format_int (fid_size b)
      \<and> hex_encode (md5_sum (fid_path a)) @ get_ext U a = hex_encode (md5_sum (fid_path b)) @ get_ext U b"
    by (simp add: cache_filename_def append_sep_inject [OF u u])
  also have "hex_encode (md5_sum (fid_path a)) @ get_ext U a = hex_encode (md5_sum (fid_path b)) @ get_ext U b \<longleftrightarrow>
      md5_sum (fid_path a) = md5_sum (fid_path b) \<and> get_ext U a = get_ext U b"
    by (simp add: append_eq_append_conv hex_encode_inj)
  finally show ?thesis using assms by (simp add: format_int_inject)
qed

lemma rooted_join_last_eq:
  assumes "list_all (\<lambda>w. slash \<notin> set w) (xs @ [v])" "list_all (\<lambda>w. slash \<notin> set w) (ys @ [w])"
  shows "rooted_join (xs @ [v]) = rooted_join (ys @ [w]) \<longleftrightarrow> xs = ys \<and> v = w"
proof
  assume e: "rooted_join (xs @ [v]) = rooted_join (ys @ [w])"
  have "[] # xs @ [v] = [] # ys @ [w]"
    using split_on_rooted_join [OF assms(1)] split_on_rooted_join [OF assms(2)] e by metis
  then show "xs = ys \<and> v = w" by simp
qed simp

text \<open>
  C9: The file of an identifier is in the directory of its month under the cache directory,
  and two identifiers share a file exactly when modification time, size, extension and the
  MD5 sum of the path agree: the cache never serves one file for another unless their
  paths collide under MD5.
\<close>

theorem cache_files_are_separate:
  assumes "is_rooted absDir" "sane_ucd U"
    and "in_i64 (fid_mod_time a)" "in_i64 (fid_mod_time b)" "in_i64 (fid_size a)" "in_i64 (fid_size b)"
  shows "generate_filepath U off absDir a =
      rooted_join (path_comps absDir @ [format_month (fid_mod_time a + off (fid_mod_time a)), cache_filename U a])
    \<and> proper_elem (cache_filename U a)
    \<and> (generate_filepath U off absDir a = generate_filepath U off absDir b \<longleftrightarrow>
        fid_mod_time a = fid_mod_time b \<and> fid_size a = fid_size b
        \<and> md5_sum (fid_path a) = md5_sum (fid_path b) \<and> get_ext U a = get_ext U b)"
proof -
  note sh = generate_filepath_shape [OF assms(1,2)]
  have n: "list_all (\<lambda>w. slash \<notin> set w) (path_comps absDir)"
    by (rule normal_comps_no_slash [OF path_comps_normal])
  have s: "slash \<notin> set (cache_subdir off t)" "slash \<notin> set (cache_filename U f)" for t f
    using subdir_proper [of off t] filename_proper [OF assms(2), of f] by (simp_all add: proper_elem_def)
  have "generate_filepath U off absDir a = generate_filepath U off absDir b \<longleftrightarrow>
      cache_subdir off (fid_mod_time a) = cache_subdir off (fid_mod_time b) \<and> cache_filename U a = cache_filename U b"
    using rooted_join_last_eq [of "path_comps absDir @ [cache_subdir off (fid_mod_time a)]" "cache_filename U a"
        "path_comps absDir @ [cache_subdir off (fid_mod_time b)]" "cache_filename U b"] n s
    by (simp add: sh)
  then show ?thesis
    using sh [of off a] filename_proper [OF assms(2)] cache_filename_inject [OF assms(3-6), of U]
    by (auto simp: cache_subdir_def)
qed

lemma cache_files_are_separate_witness:
  "generate_filepath ascii_ucd (\<lambda>_. 0) ''/cache'' (new_file_id ''/a.png'' 0 5)
    \<noteq> generate_filepath ascii_ucd (\<lambda>_. 0) ''/cache'' (new_file_id ''/a.png'' 0 6)"
proof -
  let ?a = "new_file_id ''/a.png'' 0 5" and ?b = "new_file_id ''/a.png'' 0 6"
  have r: "is_rooted ''/cache''" by (simp add: is_rooted_def)
  have i: "in_i64 (fid_mod_time ?a)" "in_i64 (fid_mod_time ?b)" "in_i64 (fid_size ?a)" "in_i64 (fid_size ?b)"
    by (simp_all add: in_i64_def min_int64_def max_int64_def)
  have "fid_size ?a \<noteq> fid_size ?b" by simp
  then show ?thesis
    using cache_files_are_separate [OF r sane_ascii_ucd i, of "\<lambda>_. 0"] by blast
qed

section \<open>No partial content\<close>

text \<open>The operations of a history, as the calls of the cache make them.\<close>

definition run_disk :: "ucd \<Rightarrow> (int \<Rightarrow> int) \<Rightarrow> disk_cache \<Rightarrow> (disk_io \<times> file_id \<times> reader option) list \<Rightarrow> files \<Rightarrow> files" where
  "run_disk U off c ps fs =
     fold (\<lambda>(io, i, op) fs. case op of Some r \<Rightarrow> snd (disk_write U off c io i r fs)
                              | None \<Rightarrow> snd (disk_remove U off c io i fs)) ps fs"

lemma run_disk_ops: "run_disk U off c ps fs = disk.run_ops U off c ps fs"
  by (induction ps arbitrary: fs) (auto simp: run_disk_def split: option.splits)


definition sample_io :: disk_io where
  "sample_io = \<lparr>io_mkdir = True, io_create = True, io_space = 10, io_close = True, io_open = True, io_remove = True\<rparr>"

definition sample_disk :: disk_cache where
  "sample_disk = \<lparr>dk_abs_dir = ''/c'', dk_cleaner = None\<rparr>"


end
