(* ===== verification/Thumbnails.thy ===== *)
theory Thumbnails
  imports DiskCache Rclone
begin

text \<open>
  thumbnails/service.go, one task at a time: the type of an image, the identifier of its
  thumbnail, the original image and its cache, the preview in a RAW file, resizing, and the
  file the task leaves. The rclone client, exiftool and vipsthumbnail are arguments; a pipe
  or a command's output is a reader (its bytes, and whether it ends with an error).
\<close>

section \<open>Image types\<close>

datatype image_type =
    UnsupportedImage
  | JpegImage
  | PngImage
  | GifImage
  | WebpImage
  | HeicImage
  | AvifImage
  | RawImage

definition image_type_of_ext :: "string \<Rightarrow> image_type" where
  "image_type_of_ext ext =
     (if ext \<in> {''.jpg'', ''.jpeg''} then JpegImage
      else if ext = ''.png'' then PngImage
      else if ext = ''.gif'' then GifImage
      else if ext = ''.webp'' then WebpImage
      else if ext = ''.heic'' then HeicImage
      else if ext = ''.avif'' then AvifImage
      else if ext \<in> {''.arw'', ''.rw2'', ''.nef'', ''.cr3''} then RawImage
      else UnsupportedImage)"

definition get_image_type :: "ucd \<Rightarrow> file_id \<Rightarrow> image_type" where
  "get_image_type U fid = image_type_of_ext (get_ext U fid)"

definition can_generate_thumbnail :: "ucd \<Rightarrow> bool \<Rightarrow> file_id \<Rightarrow> bool" where
  "can_generate_thumbnail U processRawImages fid =
     (case get_image_type U fid of
        UnsupportedImage \<Rightarrow> False
      | RawImage \<Rightarrow> processRawImages
      | _ \<Rightarrow> True)"

definition should_use_original_image :: "ucd \<Rightarrow> int \<Rightarrow> file_id \<Rightarrow> bool" where
  "should_use_original_image U threshold fid =
     (case get_image_type U fid of
        GifImage \<Rightarrow> True
      | HeicImage \<Rightarrow> False
      | RawImage \<Rightarrow> False
      | _ \<Rightarrow> fid_size fid < threshold)"

section \<open>Errors\<close>

datatype thumbnail_error =
    UnsupportedImageFormat string
  | InvalidThumbnailsFormat string
  | InvalidThumbnailSize string
  | UnsupportedThumbnailFormat image_type
  | InvalidFileSize int
  | ServiceStopped
  | FromRclone rclone_error
  | FromCache cache_error
  | CreateTempFailed
  | LoadImageFailed
  | WrongTempSize int int
  | CloseTempFailed
  | CreateCacheFileFailed
  | CopyCacheFileFailed
  | NotAllCopied int int
  | CloseCacheFileFailed
  | ResizeFailed
  | StatFailed
  | ExifToolFailed
  | InvalidExifToolOutput
  | MissingPreview
  | ContextDone
  | NoopService

section \<open>Identifiers of thumbnails\<close>

definition get_thumbnail_ext :: "ucd \<Rightarrow> string \<Rightarrow> file_id \<Rightarrow> thumbnail_error + string" where
  "get_thumbnail_ext U fmt fid =
     (if fmt = ''jpeg'' then
        (case get_image_type U fid of
           JpegImage \<Rightarrow> Inr []
         | PngImage \<Rightarrow> Inr ''.jpeg''
         | GifImage \<Rightarrow> Inr []
         | WebpImage \<Rightarrow> Inr []
         | HeicImage \<Rightarrow> Inr ''.jpeg''
         | AvifImage \<Rightarrow> Inr []
         | RawImage \<Rightarrow> Inr ''.jpeg''
         | UnsupportedImage \<Rightarrow> Inl (UnsupportedImageFormat (get_ext U fid)))
      else if fmt = ''avif'' then
        (case get_image_type U fid of
           JpegImage \<Rightarrow> Inr ''.avif''
         | PngImage \<Rightarrow> Inr ''.avif''
         | GifImage \<Rightarrow> Inr []
         | WebpImage \<Rightarrow> Inr []
         | HeicImage \<Rightarrow> Inr ''.avif''
         | AvifImage \<Rightarrow> Inr []
         | RawImage \<Rightarrow> Inr ''.avif''
         | UnsupportedImage \<Rightarrow> Inl (UnsupportedImageFormat (get_ext U fid)))
      else Inl (InvalidThumbnailsFormat fmt))"

definition thumbnail_path :: "string \<Rightarrow> string \<Rightarrow> string \<Rightarrow> string" where
  "thumbnail_path path tsize newExt =
     (let sfx = ''.thumbnail-'' @ tsize
      in if newExt = [] then
           let originalExt = path_ext path in trim_suffix path originalExt @ sfx @ originalExt
         else path @ sfx @ newExt)"

definition new_thumbnail_id :: "ucd \<Rightarrow> string \<Rightarrow> file_id \<Rightarrow> string \<Rightarrow> thumbnail_error + file_id" where
  "new_thumbnail_id U fmt fid tsize =
     (case get_thumbnail_ext U fmt fid of
        Inl e \<Rightarrow> Inl e
      | Inr newExt \<Rightarrow>
          Inr (new_file_id (thumbnail_path (fid_path fid) tsize newExt) (fid_mod_time fid) (fid_size fid)))"

section \<open>Resizing\<close>

text \<open>The arguments of vipsthumbnail.\<close>

definition vips_options :: "image_type \<Rightarrow> string option" where
  "vips_options t =
     (case t of
        JpegImage \<Rightarrow> Some ''[Q=80,optimize_coding,keep=icc]''
      | WebpImage \<Rightarrow> Some ''[keep=icc]''
      | AvifImage \<Rightarrow> Some ''[Q=65,speed=8,keep=icc]''
      | _ \<Rightarrow> None)"

definition vips_size :: "string \<Rightarrow> string option" where
  "vips_size tsize =
     (if tsize = ''small'' then Some ''256>''
      else if tsize = ''medium'' then Some ''1024>''
      else if tsize = ''large'' then Some ''2048>''
      else None)"

definition vips_args :: "ucd \<Rightarrow> string \<Rightarrow> string \<Rightarrow> file_id \<Rightarrow> string \<Rightarrow> thumbnail_error + string list" where
  "vips_args U originalFile cacheFile tid tsize =
     (case vips_options (get_image_type U tid) of
        None \<Rightarrow> Inl (UnsupportedThumbnailFormat (get_image_type U tid))
      | Some opts \<Rightarrow>
          (case vips_size tsize of
             None \<Rightarrow> Inl (InvalidThumbnailSize tsize)
           | Some sz \<Rightarrow>
               Inr [''vipsthumbnail'', ''--rotate'', originalFile, ''--size'', sz, ''-o'', cacheFile @ opts]))"

text \<open>
  vipsthumbnail on the image: the content of the output file when it writes one, and whether
  it succeeds.
\<close>

definition resize_with_vips :: "ucd \<Rightarrow> (string list \<Rightarrow> string \<Rightarrow> string option \<times> bool) \<Rightarrow>
    string \<Rightarrow> string \<Rightarrow> string \<Rightarrow> file_id \<Rightarrow> string \<Rightarrow> files \<Rightarrow> thumbnail_error option \<times> files" where
  "resize_with_vips U vips originalFile img cacheFile tid tsize fs =
     (case vips_args U originalFile cacheFile tid tsize of
        Inl e \<Rightarrow> (Some e, fs)
      | Inr args \<Rightarrow>
          (case vips args img of
             (out, ok) \<Rightarrow>
               (if ok then None else Some ResizeFailed,
                case out of None \<Rightarrow> fs | Some d \<Rightarrow> fs(cacheFile := Some d))))"

section \<open>The preview in a RAW file\<close>

record exif_result =
  ex_start :: "int option"
  ex_length :: "int option"
  ex_orientation :: string
  ex_jpg :: string

definition base64_value :: "char \<Rightarrow> nat option" where
  "base64_value c =
     (let b = byte c
      in if 65 \<le> b \<and> b \<le> 90 then Some (b - 65)
         else if 97 \<le> b \<and> b \<le> 122 then Some (b - 71)
         else if 48 \<le> b \<and> b \<le> 57 then Some (b + 4)
         else if c = CHR ''+'' then Some 62
         else if c = CHR ''/'' then Some 63
         else None)"

text \<open>Quanta of four characters; line breaks have been removed.\<close>

fun base64_quanta :: "string \<Rightarrow> string option" where
  "base64_quanta [] = Some []"
| "base64_quanta (a # b # c # d # s) =
     (case (base64_value a, base64_value b) of
        (Some x, Some y) \<Rightarrow>
          if c = CHR ''='' \<and> d = CHR ''='' then
            if s = [] then Some [char_of (x * 4 + y div 16)] else None
          else
            (case base64_value c of
               None \<Rightarrow> None
             | Some z \<Rightarrow>
                 if d = CHR ''='' then
                   if s = [] then Some [char_of (x * 4 + y div 16), char_of (y mod 16 * 16 + z div 4)] else None
                 else
                   (case (base64_value d, base64_quanta s) of
                      (Some w, Some rest) \<Rightarrow>
                        Some (char_of (x * 4 + y div 16) # char_of (y mod 16 * 16 + z div 4)
                          # char_of (z mod 4 * 64 + w) # rest)
                    | _ \<Rightarrow> None))
      | _ \<Rightarrow> None)"
| "base64_quanta _ = None"

definition base64_decode :: "string \<Rightarrow> string option" where
  "base64_decode s = base64_quanta (filter (\<lambda>c. c \<noteq> CHR 0x0A \<and> c \<noteq> CHR 0x0D) s)"

text \<open>ExifToolBase64.UnmarshalJSON: the prefix is required, so null and other values are errors.\<close>

definition decode_exif_base64 :: "string \<Rightarrow> json \<Rightarrow> json_error + string" where
  "decode_exif_base64 old j =
     (case j of
        JStr s \<Rightarrow>
          if prefix ''base64:'' s
          then case base64_decode (drop 7 s) of Some d \<Rightarrow> Inr d | None \<Rightarrow> Inl TypeMismatch
          else Inl TypeMismatch
      | _ \<Rightarrow> Inl TypeMismatch)"

definition decode_opt_int :: "int option \<Rightarrow> json \<Rightarrow> json_error + int option" where
  "decode_opt_int old j =
     (if j = JNull then Inr None
      else case decode_int64 0 j of Inl e \<Rightarrow> Inl e | Inr i \<Rightarrow> Inr (Some i))"

definition exif_fields :: "exif_result fields" where
  "exif_fields =
     [(''PreviewImageStart'', setter ex_start ex_start_update decode_opt_int),
      (''PreviewImageLength'', setter ex_length ex_length_update decode_opt_int),
      (''Orientation'', setter ex_orientation ex_orientation_update decode_string),
      (''JpgFromRaw'', setter ex_jpg ex_jpg_update decode_exif_base64)]"

definition no_exif :: exif_result where
  "no_exif = \<lparr>ex_start = None, ex_length = None, ex_orientation = [], ex_jpg = []\<rparr>"

definition decode_exif_json :: "(string \<Rightarrow> json option) \<Rightarrow> string \<Rightarrow> thumbnail_error + exif_result" where
  "decode_exif_json parse output =
     (case parse output of
        None \<Rightarrow> Inl InvalidExifToolOutput
      | Some j \<Rightarrow>
          (case decode_list (decode_struct exif_fields no_exif) j of
             Inr [res] \<Rightarrow> Inr res
           | _ \<Rightarrow> Inl InvalidExifToolOutput))"

text \<open>
  The regular expression of the .rw2 branch: its first match, where \<open>.*?\<close> is lazy and does
  not cross the end of a line.
\<close>

fun lazy_then :: "(string \<Rightarrow> 'a option) \<Rightarrow> string \<Rightarrow> 'a option" where
  "lazy_then p [] = p []"
| "lazy_then p (c # s) =
     (case p (c # s) of Some x \<Rightarrow> Some x | None \<Rightarrow> if c = CHR 0x0A then None else lazy_then p s)"

fun first_match :: "(string \<Rightarrow> 'a option) \<Rightarrow> string \<Rightarrow> 'a option" where
  "first_match p [] = p []"
| "first_match p (c # s) = (case p (c # s) of Some x \<Rightarrow> Some x | None \<Rightarrow> first_match p s)"

definition after_text :: "string \<Rightarrow> string \<Rightarrow> string option" where
  "after_text t s = (if prefix t s then Some (drop (length t) s) else None)"

definition is_hex :: "char \<Rightarrow> bool" where
  "is_hex c \<longleftrightarrow> c \<in> set ''0123456789abcdef''"

definition match_offset :: "string \<Rightarrow> string option" where
  "match_offset s =
     (case after_text ''Value offset: 0x'' s of
        None \<Rightarrow> None
      | Some t \<Rightarrow> if takeWhile is_hex t = [] then None else Some (takeWhile is_hex t))"

definition match_size :: "string \<Rightarrow> (string \<times> string) option" where
  "match_size s =
     (case after_text ''Size: '' s of
        None \<Rightarrow> None
      | Some t \<Rightarrow>
          if takeWhile is_digit t = [] then None
          else case after_text '' bytes'' (dropWhile is_digit t) of
              None \<Rightarrow> None
            | Some u \<Rightarrow> map_option (Pair (takeWhile is_digit t)) (lazy_then match_offset u))"

definition find_jpg_from_raw :: "string \<Rightarrow> (string \<times> string) option" where
  "find_jpg_from_raw output =
     first_match (\<lambda>s. Option.bind (after_text ''>JpgFromRaw<'' s) (lazy_then match_size)) output"

text \<open>strconv.ParseInt with base 16 on a run of hexadecimal digits.\<close>

definition hex_number :: "string \<Rightarrow> nat" where
  "hex_number s =
     fold (\<lambda>c n. n * 16 + (if is_digit c then byte c - 48 else byte c - 87)) s 0"

definition parse_hex :: "string \<Rightarrow> int option" where
  "parse_hex s = (if int (hex_number s) \<le> max_int64 then Some (int (hex_number s)) else None)"

text \<open>What the service calls: rclone (the interface Rclone of the package), and commands.\<close>

record thumbnail_env =
  te_open_file :: "file_id \<Rightarrow> rclone_error + reader"
  te_file_range :: "file_id \<Rightarrow> int \<Rightarrow> int \<Rightarrow> rclone_error + reader"
  te_exiftool :: "string list \<Rightarrow> reader \<Rightarrow> reader"
  te_vips :: "string list \<Rightarrow> string \<Rightarrow> string option \<times> bool"
  te_json :: "string \<Rightarrow> json option"

text \<open>The output of a command that must succeed.\<close>

definition run_exiftool :: "thumbnail_env \<Rightarrow> string list \<Rightarrow> reader \<Rightarrow> thumbnail_error + string" where
  "run_exiftool env args r =
     (case te_exiftool env args r of (out, failed) \<Rightarrow> if failed then Inl ExifToolFailed else Inr out)"

definition from_rclone :: "rclone_error + 'a \<Rightarrow> thumbnail_error + 'a" where
  "from_rclone r = (case r of Inl e \<Rightarrow> Inl (FromRclone e) | Inr x \<Rightarrow> Inr x)"

definition preview_arw :: "thumbnail_env \<Rightarrow> file_id \<Rightarrow> thumbnail_error + (reader \<times> string)" where
  "preview_arw env fid =
     (case from_rclone (te_file_range env fid 0 4096) of
        Inl e \<Rightarrow> Inl e
      | Inr rc \<Rightarrow>
          (case run_exiftool env [''-json'', ''-PreviewImageStart'', ''-PreviewImageLength'', ''-Orientation'', ''-''] rc of
             Inl e \<Rightarrow> Inl e
           | Inr output \<Rightarrow>
               (case decode_exif_json (te_json env) output of
                  Inl e \<Rightarrow> Inl e
                | Inr res \<Rightarrow>
                    (case (ex_start res, ex_length res) of
                       (Some offset, Some len) \<Rightarrow>
                         (case from_rclone (te_file_range env fid offset (i64 (offset + len))) of
                            Inl e \<Rightarrow> Inl e
                          | Inr jpg \<Rightarrow> Inr (jpg, ex_orientation res))
                     | _ \<Rightarrow> Inl MissingPreview))))"

definition preview_rw2 :: "thumbnail_env \<Rightarrow> file_id \<Rightarrow> thumbnail_error + (reader \<times> string)" where
  "preview_rw2 env fid =
     (case from_rclone (te_file_range env fid 0 4096) of
        Inl e \<Rightarrow> Inl e
      | Inr rc \<Rightarrow>
          (case run_exiftool env [''-htmlDump0'', ''-''] rc of
             Inl e \<Rightarrow> Inl e
           | Inr output \<Rightarrow>
               (case find_jpg_from_raw output of
                  None \<Rightarrow> Inl InvalidExifToolOutput
                | Some (rawSize, rawOffset) \<Rightarrow>
                    (case (parse_int rawSize, parse_hex rawOffset) of
                       (Inr len, Some offset) \<Rightarrow>
                         (case from_rclone (te_file_range env fid offset (i64 (offset + len))) of
                            Inl e \<Rightarrow> Inl e
                          | Inr jpg \<Rightarrow> Inr (jpg, []))
                     | _ \<Rightarrow> Inl InvalidExifToolOutput))))"

definition preview_whole :: "thumbnail_env \<Rightarrow> file_id \<Rightarrow> thumbnail_error + (reader \<times> string)" where
  "preview_whole env fid =
     (case from_rclone (te_open_file env fid) of
        Inl e \<Rightarrow> Inl e
      | Inr rc \<Rightarrow>
          (case run_exiftool env [''-b'', ''-json'', ''-Orientation'', ''-JpgFromRaw'', ''-''] rc of
             Inl e \<Rightarrow> Inl e
           | Inr output \<Rightarrow>
               (case decode_exif_json (te_json env) output of
                  Inl e \<Rightarrow> Inl e
                | Inr res \<Rightarrow> Inr ((ex_jpg res, False), ex_orientation res))))"

definition contains_text :: "string \<Rightarrow> string \<Rightarrow> bool" where
  "contains_text s t \<longleftrightarrow> list_ex (prefix t) (suffixes s)"

definition extract_preview :: "ucd \<Rightarrow> thumbnail_env \<Rightarrow> file_id \<Rightarrow> thumbnail_error + reader" where
  "extract_preview U env fid =
     (let ext = get_ext U fid;
          preview = (if ext = ''.arw'' then preview_arw env fid
                     else if ext = ''.rw2'' then preview_rw2 env fid
                     else if ext = ''.nef'' \<or> ext = ''.cr3'' then preview_whole env fid
                     else Inl (UnsupportedImageFormat ext))
      in case preview of
           Inl e \<Rightarrow> Inl e
         | Inr (jpg, orientation) \<Rightarrow>
             if orientation = [] \<or> contains_text orientation ''Horizontal'' then Inr jpg
             else Inr (te_exiftool env [''-Orientation='' @ orientation, ''-''] jpg))"

section \<open>The original image\<close>

definition fetch_original :: "ucd \<Rightarrow> thumbnail_env \<Rightarrow> file_id \<Rightarrow> thumbnail_error + reader" where
  "fetch_original U env fid =
     (if get_image_type U fid = RawImage then extract_preview U env fid
      else from_rclone (te_open_file env fid))"

text \<open>openImage, over the operations of its cache (the interface Cache of the package).\<close>

definition open_image :: "('c \<Rightarrow> file_id \<Rightarrow> cache_error + string) \<Rightarrow>
    (file_id \<Rightarrow> reader \<Rightarrow> 'c \<Rightarrow> cache_error option \<times> 'c) \<Rightarrow>
    (file_id \<Rightarrow> thumbnail_error + reader) \<Rightarrow> file_id \<Rightarrow> 'c \<Rightarrow> (thumbnail_error + string) \<times> 'c" where
  "open_image copen cwrite fetch fid c =
     (case copen c fid of
        Inr d \<Rightarrow> (Inr d, c)
      | Inl _ \<Rightarrow>
          (case fetch fid of
             Inl e \<Rightarrow> (Inl e, c)
           | Inr r \<Rightarrow>
               (case cwrite fid r c of
                  (Some e, c') \<Rightarrow> (Inl (FromCache e), c')
                | (None, c') \<Rightarrow>
                    (case copen c' fid of Inl e \<Rightarrow> (Inl (FromCache e), c') | Inr d \<Rightarrow> (Inr d, c')))))"

section \<open>Tasks\<close>

record thumbnail_task =
  tk_file_id :: file_id
  tk_thumbnail_id :: file_id
  tk_use_original :: bool
  tk_size :: string

record task_stats =
  tks_original_size :: int
  tks_thumbnail_size :: int
  tks_original_used :: bool

text \<open>
  createCacheFileFromReader: unlike \<open>disk_write\<close> it does not remove the file when copying
  fails.
\<close>

definition create_cache_file :: "disk_io \<Rightarrow> string \<Rightarrow> reader \<Rightarrow> int \<Rightarrow> files \<Rightarrow> thumbnail_error option \<times> files" where
  "create_cache_file io path r originalSize fs =
     (if \<not> io_create io then (Some CreateCacheFileFailed, fs)
      else
        let (copied, failed) = copy_to_file io r;
            fs = fs(path := Some copied)
        in if failed then (Some CopyCacheFileFailed, fs)
           else if int (length copied) \<noteq> originalSize
           then (Some (NotAllCopied originalSize (int (length copied))), fs)
           else if \<not> io_close io then (Some CloseCacheFileFailed, fs)
           else (None, fs))"

text \<open>
  What the disk does during a task: for the cache of original images, the thumbnail, and
  the temporary file (which has a fresh name and is removed at the end); whether reading the
  original image fails, and whether the thumbnail's size can be read.
\<close>

record task_io =
  ti_original :: disk_io
  ti_thumbnail :: disk_io
  ti_temp :: disk_io
  ti_temp_name :: string
  ti_read_fails :: bool
  ti_stat :: bool

record thumbnail_caches =
  tc_thumbnails :: disk_cache
  tc_originals :: disk_cache
  tc_zone :: "int \<Rightarrow> int"

definition resize_task :: "ucd \<Rightarrow> thumbnail_env \<Rightarrow> thumbnail_caches \<Rightarrow> task_io \<Rightarrow> thumbnail_task \<Rightarrow>
    string \<Rightarrow> reader \<Rightarrow> files \<Rightarrow> (thumbnail_error + task_stats) \<times> files" where
  "resize_task U env cs io task path r fs =
     (if \<not> io_create (ti_temp io) then (Inl CreateTempFailed, fs)
      else
        let (tmp, failed) = copy_to_file (ti_temp io) r;
            fid = tk_file_id task;
            n = int (length tmp)
        in if failed then (Inl LoadImageFailed, fs)
           else if get_image_type U fid \<noteq> RawImage \<and> n \<noteq> fid_size fid
           then (Inl (WrongTempSize (fid_size fid) n), fs)
           else if \<not> io_close (ti_temp io) then (Inl CloseTempFailed, fs)
           else
             (case resize_with_vips U (te_vips env) (ti_temp_name io) tmp path
                     (tk_thumbnail_id task) (tk_size task) fs of
                (Some e, fs) \<Rightarrow>
                  (Inl e, snd (disk_remove U (tc_zone cs) (tc_thumbnails cs) (ti_thumbnail io) (tk_thumbnail_id task) fs))
              | (None, fs) \<Rightarrow>
                  (case fs path of
                     Some d \<Rightarrow>
                       if ti_stat io
                       then (Inr \<lparr>tks_original_size = n, tks_thumbnail_size = int (length d),
                                 tks_original_used = False\<rparr>, fs)
                       else (Inl StatFailed, fs)
                   | None \<Rightarrow> (Inl StatFailed, fs))))"

definition process_task :: "ucd \<Rightarrow> thumbnail_env \<Rightarrow> thumbnail_caches \<Rightarrow> task_io \<Rightarrow> thumbnail_task \<Rightarrow> files \<Rightarrow>
    (thumbnail_error + task_stats) \<times> files" where
  "process_task U env cs io task fs =
     (case disk_get_filepath U (tc_zone cs) (tc_thumbnails cs) (ti_thumbnail io) (tk_thumbnail_id task) of
        Inl e \<Rightarrow> (Inl (FromCache e), fs)
      | Inr path \<Rightarrow>
          (case open_image (disk_open U (tc_zone cs) (tc_originals cs) (ti_original io))
                  (disk_write U (tc_zone cs) (tc_originals cs) (ti_original io))
                  (fetch_original U env) (tk_file_id task) fs of
             (Inl e, fs) \<Rightarrow> (Inl e, fs)
           | (Inr content, fs) \<Rightarrow>
               if tk_use_original task then
                 let sz = fid_size (tk_file_id task) in
                 (case create_cache_file (ti_thumbnail io) path (content, ti_read_fails io) sz fs of
                    (Some e, fs) \<Rightarrow> (Inl e, fs)
                  | (None, fs) \<Rightarrow>
                      (Inr \<lparr>tks_original_size = sz, tks_thumbnail_size = sz, tks_original_used = True\<rparr>, fs))
               else resize_task U env cs io task path (content, ti_read_fails io) fs))"

section \<open>The task that OpenThumbnail queues\<close>

definition make_task :: "ucd \<Rightarrow> int \<Rightarrow> string \<Rightarrow> file_id \<Rightarrow> string \<Rightarrow> thumbnail_error + thumbnail_task" where
  "make_task U threshold fmt fid tsize =
     (if get_image_type U fid = UnsupportedImage then Inl (UnsupportedImageFormat (get_ext U fid))
      else if fid_size fid \<le> 0 then Inl (InvalidFileSize (fid_size fid))
      else
        let tsize = (if tsize = [] then ''medium'' else tsize);
            task = (\<lambda>tid orig. \<lparr>tk_file_id = fid, tk_thumbnail_id = tid, tk_use_original = orig, tk_size = tsize\<rparr>)
        in if should_use_original_image U threshold fid then Inr (task fid True)
           else case new_thumbnail_id U fmt fid tsize of
               Inl e \<Rightarrow> Inl e
             | Inr tid \<Rightarrow> Inr (task tid False))"

end
