(* ===== verification/ThumbnailQueue.thy ===== *)
theory ThumbnailQueue
  imports Thumbnails
begin

text \<open>
  The queue of thumbnails/service.go as a step relation: OpenThumbnail's calls, the workers,
  and Shutdown, one step per action that other goroutines can see. A thumbnail is its
  identifier; how a task produces it is the matter of \<open>process_task\<close>. Its file appears when
  the task ends: that Open can see a file that is still being written is not modelled.
\<close>

section \<open>State\<close>

text \<open>
  Where a call of OpenThumbnail is: after its first look into the cache, about to send the
  task to the channel, waiting for it, or over, with or without a thumbnail.
\<close>

datatype call =
    Missed file_id
  | Sending file_id
  | Waiting file_id
  | Served file_id
  | Refused

record queue_state =
  q_stopped :: bool
  q_closed :: bool
  q_tasks :: "file_id list"
  q_in_progress :: "file_id set"
  q_running :: "file_id list"
  q_idle :: nat
  q_exited :: nat
  q_calls :: "nat \<Rightarrow> call option"
  q_cached :: "file_id set"
  q_panic :: "panic option"

definition queue_capacity :: nat where
  "queue_capacity = 10000"

definition initial_queue :: "nat \<Rightarrow> file_id set \<Rightarrow> queue_state" where
  "initial_queue workers stored =
     \<lparr>q_stopped = False, q_closed = False, q_tasks = [], q_in_progress = {}, q_running = [],
      q_idle = workers, q_exited = 0, q_calls = (\<lambda>_. None), q_cached = stored, q_panic = None\<rparr>"

definition set_call :: "nat \<Rightarrow> call \<Rightarrow> queue_state \<Rightarrow> queue_state" where
  "set_call c x s = s\<lparr>q_calls := (q_calls s)(c := Some x)\<rparr>"

section \<open>Steps\<close>

text \<open>The steps of the workers and of calls that send: the work on what is already asked for.\<close>

inductive work_step :: "queue_state \<Rightarrow> queue_state \<Rightarrow> bool" where
  send_task:
    "q_calls s c = Some (Sending t) \<Longrightarrow> \<not> q_closed s \<Longrightarrow> length (q_tasks s) < queue_capacity \<Longrightarrow>
     work_step s (set_call c (Waiting t) (s\<lparr>q_tasks := q_tasks s @ [t]\<rparr>))"
| take_task:
    "q_tasks s = t # ts \<Longrightarrow> 0 < q_idle s \<Longrightarrow>
     work_step s (s\<lparr>q_tasks := ts, q_idle := q_idle s - 1, q_running := t # q_running s\<rparr>)"
| finish_task:
    "t \<in> set (q_running s) \<Longrightarrow> stored = insert t (q_cached s) \<or> stored = q_cached s \<Longrightarrow>
     work_step s (s\<lparr>q_running := remove1 t (q_running s), q_idle := q_idle s + 1,
       q_in_progress := q_in_progress s - {t}, q_cached := stored\<rparr>)"

inductive queue_step :: "queue_state \<Rightarrow> queue_state \<Rightarrow> bool" where
  work: "q_panic s = None \<Longrightarrow> work_step s s' \<Longrightarrow> queue_step s s'"
| refused: "q_panic s = None \<Longrightarrow> q_calls s c = None \<Longrightarrow> q_stopped s \<Longrightarrow> queue_step s (set_call c Refused s)"
| cache_hit:
    "q_panic s = None \<Longrightarrow> q_calls s c = None \<Longrightarrow> \<not> q_stopped s \<Longrightarrow> t \<in> q_cached s \<Longrightarrow>
     queue_step s (set_call c (Served t) s)"
| cache_miss:
    "q_panic s = None \<Longrightarrow> q_calls s c = None \<Longrightarrow> \<not> q_stopped s \<Longrightarrow> t \<notin> q_cached s \<Longrightarrow>
     queue_step s (set_call c (Missed t) s)"
| first_call:
    "q_panic s = None \<Longrightarrow> q_calls s c = Some (Missed t) \<Longrightarrow> t \<notin> q_in_progress s \<Longrightarrow>
     queue_step s (set_call c (Sending t) (s\<lparr>q_in_progress := insert t (q_in_progress s)\<rparr>))"
| later_call:
    "q_panic s = None \<Longrightarrow> q_calls s c = Some (Missed t) \<Longrightarrow> t \<in> q_in_progress s \<Longrightarrow>
     queue_step s (set_call c (Waiting t) s)"
| send_on_closed:
    "q_panic s = None \<Longrightarrow> q_calls s c = Some (Sending t) \<Longrightarrow> q_closed s \<Longrightarrow>
     queue_step s (s\<lparr>q_panic := Some SendOnClosedChannel\<rparr>)"
| ready:
    "q_panic s = None \<Longrightarrow> q_calls s c = Some (Waiting t) \<Longrightarrow> t \<notin> q_in_progress s \<Longrightarrow>
     queue_step s (set_call c (if t \<in> q_cached s then Served t else Refused) s)"
| context_done:
    "q_panic s = None \<Longrightarrow> q_calls s c = Some (Waiting t) \<Longrightarrow> queue_step s (set_call c Refused s)"
| evicted: "q_panic s = None \<Longrightarrow> queue_step s (s\<lparr>q_cached := q_cached s - {t}\<rparr>)"
| stop: "q_panic s = None \<Longrightarrow> \<not> q_stopped s \<Longrightarrow> queue_step s (s\<lparr>q_stopped := True\<rparr>)"
| close_queue: "q_panic s = None \<Longrightarrow> q_stopped s \<Longrightarrow> \<not> q_closed s \<Longrightarrow> queue_step s (s\<lparr>q_closed := True\<rparr>)"
| drop_task:
    "q_panic s = None \<Longrightarrow> q_closed s \<Longrightarrow> q_tasks s = t # ts \<Longrightarrow> queue_step s (s\<lparr>q_tasks := ts\<rparr>)"
| worker_exit:
    "q_panic s = None \<Longrightarrow> q_closed s \<Longrightarrow> q_tasks s = [] \<Longrightarrow> 0 < q_idle s \<Longrightarrow>
     queue_step s (s\<lparr>q_idle := q_idle s - 1, q_exited := q_exited s + 1\<rparr>)"

inductive_cases work_stepE: "work_step s s'"
inductive_cases queue_stepE: "queue_step s s'"

definition reachable_queue :: "nat \<Rightarrow> queue_state \<Rightarrow> bool" where
  "reachable_queue workers s \<longleftrightarrow> (\<exists>stored. queue_step\<^sup>*\<^sup>* (initial_queue workers stored) s)"

section \<open>The invariant\<close>

text \<open>
  The thumbnails that are being sent, queued or generated are distinct and marked in
  progress; before the channel is closed nothing else is marked, so no mark is lost.
\<close>

definition sending :: "queue_state \<Rightarrow> file_id set" where
  "sending s = {t. \<exists>c. q_calls s c = Some (Sending t)}"

definition one_sender :: "queue_state \<Rightarrow> bool" where
  "one_sender s \<longleftrightarrow> (\<forall>c d t. q_calls s c = Some (Sending t) \<longrightarrow> q_calls s d = Some (Sending t) \<longrightarrow> c = d)"

definition queue_inv :: "nat \<Rightarrow> queue_state \<Rightarrow> bool" where
  "queue_inv workers s \<longleftrightarrow>
     distinct (q_tasks s @ q_running s)
     \<and> one_sender s
     \<and> sending s \<inter> set (q_tasks s @ q_running s) = {}
     \<and> sending s \<union> set (q_tasks s @ q_running s) \<subseteq> q_in_progress s
     \<and> (\<not> q_closed s \<longrightarrow> q_in_progress s = sending s \<union> set (q_tasks s @ q_running s))
     \<and> q_idle s + length (q_running s) + q_exited s = workers
     \<and> length (q_tasks s) \<le> queue_capacity
     \<and> (q_exited s > 0 \<longrightarrow> q_closed s) \<and> (q_closed s \<longrightarrow> q_stopped s)
     \<and> finite (q_in_progress s) \<and> (q_panic s \<noteq> None \<longrightarrow> q_closed s)"

lemma set_call_sel [simp]:
  "q_stopped (set_call c x s) = q_stopped s" "q_closed (set_call c x s) = q_closed s"
  "q_tasks (set_call c x s) = q_tasks s" "q_in_progress (set_call c x s) = q_in_progress s"
  "q_running (set_call c x s) = q_running s" "q_idle (set_call c x s) = q_idle s"
  "q_exited (set_call c x s) = q_exited s" "q_cached (set_call c x s) = q_cached s"
  "q_panic (set_call c x s) = q_panic s" "q_calls (set_call c x s) = (q_calls s)(c := Some x)"
  by (simp_all add: set_call_def)

lemma sending_updates [simp]:
  "sending (s\<lparr>q_tasks := ts\<rparr>) = sending s" "sending (s\<lparr>q_in_progress := p\<rparr>) = sending s"
  "sending (s\<lparr>q_running := r\<rparr>) = sending s" "sending (s\<lparr>q_idle := n\<rparr>) = sending s"
  "sending (s\<lparr>q_exited := n\<rparr>) = sending s" "sending (s\<lparr>q_cached := cd\<rparr>) = sending s"
  "sending (s\<lparr>q_stopped := b\<rparr>) = sending s" "sending (s\<lparr>q_closed := b\<rparr>) = sending s"
  "sending (s\<lparr>q_panic := pn\<rparr>) = sending s"
  by (simp_all add: sending_def)

text \<open>A call that does not send and does not start to send changes nothing of it.\<close>

lemma sending_set_call_other:
  "(\<And>t. q_calls s c \<noteq> Some (Sending t)) \<Longrightarrow> (\<And>t. x \<noteq> Sending t) \<Longrightarrow> sending (set_call c x s) = sending s"
  by (auto simp: sending_def) metis

lemma sending_set_call_first:
  "(\<And>t. q_calls s c \<noteq> Some (Sending t)) \<Longrightarrow> sending (set_call c (Sending t) s) = insert t (sending s)"
  by (auto simp: sending_def) metis

lemma sending_set_call_sent:
  assumes "q_calls s c = Some (Sending t)" "\<And>d. q_calls s d = Some (Sending t) \<Longrightarrow> d = c"
  shows "sending (set_call c (Waiting t) s) = sending s - {t}"
proof -
  have "q_calls s d = Some (Sending u) \<Longrightarrow> u \<noteq> t \<Longrightarrow> d \<noteq> c" for d u using assms(1) by auto
  then show ?thesis using assms(2) unfolding sending_def by (auto split: if_splits)
qed

lemma one_sender_mono:
  "one_sender s \<Longrightarrow> (\<And>d u. q_calls s' d = Some (Sending u) \<Longrightarrow> q_calls s d = Some (Sending u)) \<Longrightarrow> one_sender s'"
  unfolding one_sender_def by blast

lemma one_sender_same: "q_calls s' = q_calls s \<Longrightarrow> one_sender s' = one_sender s"
  by (simp add: one_sender_def)

lemma one_senderD: "one_sender s \<Longrightarrow> q_calls s c = Some (Sending t) \<Longrightarrow> q_calls s d = Some (Sending t) \<Longrightarrow> d = c"
  unfolding one_sender_def by blast

lemma queue_inv_set_call:
  assumes "queue_inv n s" "\<And>t. q_calls s c \<noteq> Some (Sending t)" "\<And>t. x \<noteq> Sending t"
  shows "queue_inv n (set_call c x s)"
proof -
  have "one_sender (set_call c x s)"
    by (rule one_sender_mono [of s]) (use assms(1,3) in \<open>auto simp: queue_inv_def split: if_splits\<close>)
  then show ?thesis
    using assms(1) sending_set_call_other [OF assms(2,3)] unfolding queue_inv_def set_call_sel(1-9) by simp
qed

lemma work_step_inv:
  assumes "work_step s s'" "queue_inv n s"
  shows "queue_inv n s'"
  using assms(1)
proof (cases rule: work_step.cases)
  case (send_task c t)
  have sen: "t \<in> sending s" using send_task(2) by (auto simp: sending_def)
  have one: "d = c" if "q_calls s d = Some (Sending t)" for d
    using assms(2) send_task(2) that one_senderD unfolding queue_inv_def by blast
  have upd: "sending s' = sending s - {t}"
  proof -
    have "sending (set_call c (Waiting t) (s\<lparr>q_tasks := q_tasks s @ [t]\<rparr>)) = sending (s\<lparr>q_tasks := q_tasks s @ [t]\<rparr>) - {t}"
      by (rule sending_set_call_sent) (simp_all add: send_task(2), rule one)
    then show ?thesis using send_task(1) by simp
  qed
  have calls: "q_calls s' d = Some (Sending u) \<Longrightarrow> q_calls s d = Some (Sending u)" for d u
    using send_task(1) by (auto split: if_splits)
  have new: "t \<notin> set (q_tasks s @ q_running s)" using sen assms(2) unfolding queue_inv_def by blast
  show ?thesis
    unfolding queue_inv_def upd
  proof (intro conjI)
    show "distinct (q_tasks s' @ q_running s')" using assms(2) new send_task(1) by (simp add: queue_inv_def)
    show "one_sender s'"
      using assms(2) calls one_sender_mono unfolding queue_inv_def by blast
    show "(sending s - {t}) \<inter> set (q_tasks s' @ q_running s') = {}"
      using assms(2) send_task(1) by (auto simp: queue_inv_def)
    show "sending s - {t} \<union> set (q_tasks s' @ q_running s') \<subseteq> q_in_progress s'"
      using assms(2) send_task(1) sen by (auto simp: queue_inv_def)
    show "\<not> q_closed s' \<longrightarrow> q_in_progress s' = sending s - {t} \<union> set (q_tasks s' @ q_running s')"
      using assms(2) send_task(1) sen by (auto simp: queue_inv_def)
    show "finite (q_in_progress s')" using assms(2) send_task(1) unfolding queue_inv_def by simp
  qed (use assms(2) send_task in \<open>simp_all add: queue_inv_def\<close>)
next
  case (take_task t ts)
  have upd: "sending s' = sending s" "one_sender s' = one_sender s"
    using take_task(1) one_sender_same [of s' s] by simp_all
  show ?thesis unfolding queue_inv_def upd using assms(2) take_task by (auto simp: queue_inv_def)
next
  case (finish_task t stored)
  have upd: "sending s' = sending s" using finish_task(1) by simp
  have d: "distinct (q_running s)" using assms(2) by (simp add: queue_inv_def)
  have len: "Suc (length (remove1 t (q_running s))) = length (q_running s)"
    using finish_task(2) by (simp add: length_remove1) (metis Suc_pred length_pos_if_in_set)
  have calls: "q_calls s' = q_calls s" using finish_task(1) by simp
  have t: "t \<notin> sending s" "t \<notin> set (q_tasks s)" using finish_task(2) assms(2) by (auto simp: queue_inv_def)
  show ?thesis
    unfolding queue_inv_def upd
  proof (intro conjI)
    show "distinct (q_tasks s' @ q_running s')"
      using assms(2) d finish_task(1) by (auto simp: queue_inv_def dest: notin_set_remove1)
    show "one_sender s'"
      using assms(2) one_sender_same [OF calls] by (simp add: queue_inv_def)
    show "sending s \<inter> set (q_tasks s' @ q_running s') = {}"
      using assms(2) d finish_task(1) by (auto simp: queue_inv_def)
    show "sending s \<union> set (q_tasks s' @ q_running s') \<subseteq> q_in_progress s'"
      using assms(2) d finish_task(1) t by (auto simp: queue_inv_def)
    show "\<not> q_closed s' \<longrightarrow> q_in_progress s' = sending s \<union> set (q_tasks s' @ q_running s')"
      using assms(2) d finish_task(1,2) t by (auto simp: queue_inv_def)
  qed (use assms(2) finish_task(1) len in \<open>simp_all add: queue_inv_def\<close>)
qed

lemma queue_step_inv:
  assumes "queue_step s s'" "queue_inv n s"
  shows "queue_inv n s'"
  using assms(1)
proof (cases rule: queue_step.cases)
  case work
  then show ?thesis using work_step_inv assms(2) by blast
next
  case (refused c)
  then show ?thesis using queue_inv_set_call assms(2) by simp
next
  case (cache_hit c t)
  then show ?thesis using queue_inv_set_call assms(2) by simp
next
  case (cache_miss c t)
  then show ?thesis using queue_inv_set_call assms(2) by simp
next
  case (first_call c t)
  have upd: "sending s' = insert t (sending s)"
    using sending_set_call_first [of "s\<lparr>q_in_progress := insert t (q_in_progress s)\<rparr>" c t] first_call by simp
  have new: "t \<notin> sending s" "t \<notin> set (q_tasks s @ q_running s)"
    using first_call(4) assms(2) by (auto simp: queue_inv_def)
  have calls: "q_calls s' d = Some (Sending u) \<Longrightarrow> d = c \<and> u = t \<or> q_calls s d = Some (Sending u)" for d u
    using first_call(1) by (auto split: if_splits)
  have not: "q_calls s d \<noteq> Some (Sending t)" for d using new(1) by (auto simp: sending_def)
  show ?thesis
    unfolding queue_inv_def upd
  proof (intro conjI)
    have "one_sender s" using assms(2) by (simp add: queue_inv_def)
    then show "one_sender s'"
      unfolding one_sender_def using calls not by metis
    show "insert t (sending s) \<inter> set (q_tasks s' @ q_running s') = {}"
      using assms(2) first_call(1) new by (auto simp: queue_inv_def)
    show "insert t (sending s) \<union> set (q_tasks s' @ q_running s') \<subseteq> q_in_progress s'"
      using assms(2) first_call(1) by (auto simp: queue_inv_def)
    show "\<not> q_closed s' \<longrightarrow> q_in_progress s' = insert t (sending s) \<union> set (q_tasks s' @ q_running s')"
      using assms(2) first_call(1) by (auto simp: queue_inv_def)
  qed (use assms(2) first_call(1) in \<open>simp_all add: queue_inv_def\<close>)
next
  case (later_call c t)
  then show ?thesis using queue_inv_set_call assms(2) by simp
next
  case (ready c t)
  then show ?thesis using queue_inv_set_call [OF assms(2), of c] by simp
next
  case (context_done c t)
  then show ?thesis using queue_inv_set_call [OF assms(2), of c] by simp
qed (use assms(2) in \<open>auto simp: queue_inv_def one_sender_def\<close>)

lemma initial_queue_inv: "queue_inv n (initial_queue n stored)"
  by (simp add: queue_inv_def initial_queue_def sending_def one_sender_def)

lemma reachable_queue_inv: "reachable_queue n s \<Longrightarrow> queue_inv n s"
proof -
  assume "reachable_queue n s"
  then obtain stored where "queue_step\<^sup>*\<^sup>* (initial_queue n stored) s" by (auto simp: reachable_queue_def)
  then show ?thesis
    by (induction rule: rtranclp_induct) (auto intro: initial_queue_inv queue_step_inv)
qed

text \<open>
  C13: However calls, workers, evictions and Shutdown interleave, no thumbnail is generated
  twice at the same time: the thumbnails being sent, queued and generated are all different,
  at most as many are generated as there are workers, and until the channel is closed a
  thumbnail is marked in progress exactly when one of them stands for it.
\<close>

theorem thumbnails_are_generated_once:
  assumes "reachable_queue workers s"
  shows "distinct (q_tasks s @ q_running s)
    \<and> sending s \<inter> set (q_tasks s @ q_running s) = {}
    \<and> (\<forall>c d t. q_calls s c = Some (Sending t) \<longrightarrow> q_calls s d = Some (Sending t) \<longrightarrow> c = d)
    \<and> length (q_running s) \<le> workers \<and> length (q_tasks s) \<le> queue_capacity
    \<and> (if q_closed s then sending s \<union> set (q_tasks s @ q_running s) \<subseteq> q_in_progress s
       else q_in_progress s = sending s \<union> set (q_tasks s @ q_running s))"
  using reachable_queue_inv [OF assms] unfolding queue_inv_def one_sender_def by auto

section \<open>Answers\<close>

definition queue_work :: "queue_state \<Rightarrow> nat" where
  "queue_work s = 3 * card (sending s) + 2 * length (q_tasks s) + length (q_running s)"

lemma work_step_less:
  assumes "work_step s s'" "queue_inv n s"
  shows "queue_work s' < queue_work s"
  using assms(1)
proof (cases rule: work_step.cases)
  case (send_task c t)
  have "finite (sending s)" using assms(2) finite_subset [of "sending s" "q_in_progress s"] by (auto simp: queue_inv_def)
  moreover have t: "t \<in> sending s" using send_task(2) by (auto simp: sending_def)
  ultimately have "card (sending s - {t}) < card (sending s)" by (rule card_Diff1_less)
  moreover have "sending s' = sending s - {t}"
  proof -
    have "sending (set_call c (Waiting t) (s\<lparr>q_tasks := q_tasks s @ [t]\<rparr>)) = sending (s\<lparr>q_tasks := q_tasks s @ [t]\<rparr>) - {t}"
      using assms(2) one_senderD [of s c t]
      by (intro sending_set_call_sent) (auto simp: send_task(2) queue_inv_def)
    then show ?thesis using send_task(1) by simp
  qed
  ultimately show ?thesis using send_task(1) by (simp add: queue_work_def)
next
  case (take_task t ts)
  then show ?thesis by (simp add: queue_work_def)
next
  case (finish_task t stored)
  have "length (remove1 t (q_running s)) < length (q_running s)"
    using length_remove1 [of t "q_running s"] length_pos_if_in_set [OF finish_task(2)] finish_task(2) by simp
  then show ?thesis using finish_task(1) by (simp add: queue_work_def)
qed

lemma work_enabled:
  assumes "queue_inv n s" "0 < n" "\<not> q_closed s" "q_in_progress s \<noteq> {}"
  shows "\<exists>s'. work_step s s'"
proof -
  have n: "q_idle s + length (q_running s) = n" using assms(1,3) by (auto simp: queue_inv_def)
  consider t where "t \<in> set (q_running s)" | "q_running s = []" "q_tasks s \<noteq> []" | "q_running s = []" "q_tasks s = []"
    by (cases "q_running s") auto
  then show ?thesis
  proof cases
    case (1 t)
    then show ?thesis using work_step.finish_task by blast
  next
    case 2
    then obtain t ts where "q_tasks s = t # ts" by (cases "q_tasks s") auto
    then show ?thesis using work_step.take_task n assms(2) 2 by fastforce
  next
    case 3
    then have "sending s \<noteq> {}" using assms by (auto simp: queue_inv_def)
    then obtain c t where "q_calls s c = Some (Sending t)" by (auto simp: sending_def)
    then show ?thesis using work_step.send_task assms(3) 3 by (fastforce simp: queue_capacity_def)
  qed
qed

lemma work_step_calls: "work_step s s' \<Longrightarrow> q_calls s c = Some (Waiting t) \<Longrightarrow> q_calls s' c = Some (Waiting t)"
  "work_step s s' \<Longrightarrow> q_closed s' = q_closed s \<and> q_panic s' = q_panic s"
  by (auto elim!: work_stepE)

lemma work_steps:
  assumes "(work_step ^^ k) s s'" "queue_inv n s"
  shows "queue_inv n s' \<and> k + queue_work s' \<le> queue_work s \<and> q_closed s' = q_closed s \<and> q_panic s' = q_panic s
    \<and> (\<forall>c t. q_calls s c = Some (Waiting t) \<longrightarrow> q_calls s' c = Some (Waiting t))"
  using assms
proof (induction k arbitrary: s')
  case (Suc k)
  then obtain u where u: "(work_step ^^ k) s u" "work_step u s'" by auto
  have IH: "queue_inv n u" "k + queue_work u \<le> queue_work s" "q_closed u = q_closed s" "q_panic u = q_panic s"
    "\<forall>c t. q_calls s c = Some (Waiting t) \<longrightarrow> q_calls u c = Some (Waiting t)"
    using Suc.IH [OF u(1) Suc.prems(2)] by blast+
  have "queue_inv n s'" by (rule work_step_inv [OF u(2) IH(1)])
  moreover have "Suc k + queue_work s' \<le> queue_work s" using work_step_less [OF u(2) IH(1)] IH(2) by linarith
  ultimately show ?case using work_step_calls [OF u(2)] IH(3-5) by metis
qed simp

text \<open>
  C14: While the service is not shut down and has a worker, what was asked for gets done: the
  workers and senders can make at most \<open>queue_work s\<close> steps before new calls, and when they
  can make no more, nothing is in progress and every call that was waiting can return, with
  the thumbnail if the cache has it.
\<close>

theorem waiting_calls_return:
  assumes "reachable_queue workers s" "0 < workers" "\<not> q_closed s" "(work_step ^^ k) s s'"
  shows "k \<le> queue_work s
    \<and> ((\<exists>u. work_step s' u)
      \<or> q_in_progress s' = {}
        \<and> (\<forall>c t. q_calls s c = Some (Waiting t) \<longrightarrow>
            queue_step s' (set_call c (if t \<in> q_cached s' then Served t else Refused) s')))"
proof -
  have w: "queue_inv workers s'" "k + queue_work s' \<le> queue_work s" "q_closed s' = q_closed s" "q_panic s' = q_panic s"
    "\<forall>c t. q_calls s c = Some (Waiting t) \<longrightarrow> q_calls s' c = Some (Waiting t)"
    using work_steps [OF assms(4) reachable_queue_inv [OF assms(1)]] by blast+
  have np: "q_panic s' = None" using w(1,3) assms(3) by (auto simp: queue_inv_def)
  have "q_in_progress s' = {}" if "\<not> (\<exists>u. work_step s' u)"
    using that work_enabled [OF w(1) assms(2)] w(3) assms(3) by blast
  moreover have "queue_step s' (set_call c (if t \<in> q_cached s' then Served t else Refused) s')"
    if "q_in_progress s' = {}" "q_calls s c = Some (Waiting t)" for c t
    using queue_step.ready [OF np, of c t] w(5) that by simp
  ultimately have "(\<exists>u. work_step s' u)
      \<or> q_in_progress s' = {}
        \<and> (\<forall>c t. q_calls s c = Some (Waiting t) \<longrightarrow>
            queue_step s' (set_call c (if t \<in> q_cached s' then Served t else Refused) s'))" by blast
  moreover have "k \<le> queue_work s" using w(2) by linarith
  ultimately show ?thesis by blast
qed

section \<open>Single flight\<close>

text \<open>
  What the queue promises, without channel and workers: a thumbnail that is not pending can
  become pending, a pending one can be completed (and stored, or not), a stored one can be lost.
\<close>

record flight =
  fl_pending :: "file_id set"
  fl_stored :: "file_id set"

inductive flight_step :: "flight \<Rightarrow> flight \<Rightarrow> bool" where
  asked: "t \<notin> fl_pending f \<Longrightarrow> flight_step f (f\<lparr>fl_pending := insert t (fl_pending f)\<rparr>)"
| completed:
    "t \<in> fl_pending f \<Longrightarrow> stored = insert t (fl_stored f) \<or> stored = fl_stored f \<Longrightarrow>
     flight_step f (f\<lparr>fl_pending := fl_pending f - {t}, fl_stored := stored\<rparr>)"
| forgotten: "flight_step f (f\<lparr>fl_stored := fl_stored f - {t}\<rparr>)"

definition flight_of :: "queue_state \<Rightarrow> flight" where
  "flight_of s = \<lparr>fl_pending = q_in_progress s, fl_stored = q_cached s\<rparr>"

lemma flight_of_set_call [simp]: "flight_of (set_call c x s) = flight_of s"
  by (simp add: flight_of_def)

text \<open>
  C15: The queue implements single flight: every step from a reachable state changes what is
  pending and stored as a step of the abstract system does, or not at all.
\<close>

theorem queue_refines_single_flight:
  assumes "reachable_queue workers s" "queue_step s s'"
  shows "flight_of s' = flight_of s \<or> flight_step (flight_of s) (flight_of s')"
  using assms(2)
proof (cases rule: queue_step.cases)
  case work
  from work(2) show ?thesis
  proof (cases rule: work_step.cases)
    case (finish_task t stored)
    have "t \<in> q_in_progress s" using reachable_queue_inv [OF assms(1)] finish_task(2) by (auto simp: queue_inv_def)
    then show ?thesis
      using flight_step.completed [of t "flight_of s" stored] finish_task by (simp add: flight_of_def)
  qed (simp_all add: flight_of_def)
next
  case (first_call c t)
  then show ?thesis using flight_step.asked [of t "flight_of s"] by (simp add: flight_of_def)
next
  case (evicted t)
  then show ?thesis using flight_step.forgotten [of "flight_of s" t] by (simp add: flight_of_def)
qed (simp_all add: flight_of_def)

section \<open>Shutdown\<close>

text \<open>Tasks that nothing stands for any more.\<close>

definition dropped :: "file_id \<Rightarrow> queue_state \<Rightarrow> bool" where
  "dropped t s \<longleftrightarrow> q_closed s \<and> t \<in> q_in_progress s \<and> t \<notin> set (q_tasks s @ q_running s) \<and> t \<notin> sending s"

lemma dropped_step:
  assumes "queue_step s s'" "dropped t s"
  shows "dropped t s'"
  using assms(1)
proof (cases rule: queue_step.cases)
  case work
  from work(2) show ?thesis using assms(2)
    by (cases rule: work_step.cases) (auto simp: dropped_def)
next
  case (first_call c u)
  then have "u \<noteq> t" using assms(2) by (auto simp: dropped_def)
  then show ?thesis using assms(2) first_call by (auto simp: dropped_def sending_def split: if_splits)
qed (use assms(2) in \<open>auto simp: dropped_def sending_def split: if_splits\<close>)

lemma waiting_dropped_step:
  "queue_step s s' \<Longrightarrow> dropped t s \<Longrightarrow> q_calls s c \<in> {Some (Waiting t), Some Refused} \<Longrightarrow>
   q_calls s' c \<in> {Some (Waiting t), Some Refused}"
  by (auto simp: dropped_def elim!: queue_stepE work_stepE split: if_splits)

text \<open>
  C18: A task that Shutdown drops stays marked in progress for ever: a call that waits for it
  never gets its thumbnail, it can only be ended by its own context.
\<close>

theorem dropped_tasks_are_never_served:
  assumes "queue_step\<^sup>*\<^sup>* s s'" "dropped t s" "q_calls s c = Some (Waiting t)"
  shows "t \<in> q_in_progress s' \<and> q_calls s' c \<in> {Some (Waiting t), Some Refused}"
proof -
  from assms(1) have "dropped t s' \<and> q_calls s' c \<in> {Some (Waiting t), Some Refused}"
    by (induction rule: rtranclp_induct) (use assms(2,3) dropped_step waiting_dropped_step in blast)+
  then show ?thesis by (simp add: dropped_def)
qed

definition sample_call :: "call \<Rightarrow> queue_state \<Rightarrow> queue_state" where
  "sample_call x s = s\<lparr>q_calls := [0 \<mapsto> x]\<rparr>"

definition sample_thumbnail :: file_id where
  "sample_thumbnail = new_file_id ''/a.png'' 0 3"

text \<open>A call that passed its checks, and one whose task is queued; then Shutdown begins.\<close>

definition sample_missed :: "nat \<Rightarrow> queue_state" where
  "sample_missed n = sample_call (Missed sample_thumbnail) (initial_queue n {})"

definition sample_sending :: "nat \<Rightarrow> queue_state" where
  "sample_sending n = (sample_call (Sending sample_thumbnail) (initial_queue n {}))
     \<lparr>q_in_progress := {sample_thumbnail}\<rparr>"

definition sample_queued :: "nat \<Rightarrow> queue_state" where
  "sample_queued n = (sample_call (Waiting sample_thumbnail) (initial_queue n {}))
     \<lparr>q_in_progress := {sample_thumbnail}, q_tasks := [sample_thumbnail]\<rparr>"

lemma sample_steps:
  "queue_step (initial_queue n {}) (sample_missed n)"
  "queue_step (sample_missed n) (sample_sending n)"
  "queue_step (sample_sending n) (sample_queued n)"
  using queue_step.cache_miss [of "initial_queue n {}" 0 sample_thumbnail]
    queue_step.first_call [of "sample_missed n" 0 sample_thumbnail]
    queue_step.work [OF _ work_step.send_task [of "sample_sending n" 0 sample_thumbnail]]
  by (simp_all add: sample_missed_def sample_sending_def sample_queued_def sample_call_def initial_queue_def
      set_call_def queue_capacity_def)

lemma sample_reachable: "queue_step\<^sup>*\<^sup>* (initial_queue n {}) (sample_queued n)"
  "queue_step\<^sup>*\<^sup>* (initial_queue n {}) (sample_sending n)"
  using sample_steps [of n] by (blast intro: rtranclp.rtrancl_into_rtrancl)+

lemma shutdown_steps:
  assumes "q_panic s = None" "\<not> q_stopped s" "\<not> q_closed s"
  shows "queue_step\<^sup>*\<^sup>* s (s\<lparr>q_stopped := True, q_closed := True\<rparr>)"
proof -
  have "queue_step s (s\<lparr>q_stopped := True\<rparr>)" by (rule queue_step.stop [OF assms(1,2)])
  moreover have "queue_step (s\<lparr>q_stopped := True\<rparr>) (s\<lparr>q_stopped := True, q_closed := True\<rparr>)"
    using queue_step.close_queue [of "s\<lparr>q_stopped := True\<rparr>"] assms by simp
  ultimately show ?thesis by (blast intro: rtranclp.rtrancl_into_rtrancl)
qed

lemma dropped_tasks_are_never_served_witness:
  "\<exists>s. reachable_queue 1 s \<and> sample_thumbnail \<in> q_in_progress s
     \<and> q_calls s 0 \<in> {Some (Waiting sample_thumbnail), Some Refused}"
proof -
  let ?q = "(sample_queued 1)\<lparr>q_stopped := True, q_closed := True\<rparr>"
  let ?s = "?q\<lparr>q_tasks := []\<rparr>"
  have "queue_step\<^sup>*\<^sup>* (sample_queued 1) ?q"
    by (rule shutdown_steps) (simp_all add: sample_queued_def sample_call_def initial_queue_def)
  moreover have "queue_step ?q ?s"
    using queue_step.drop_task [of ?q sample_thumbnail "[]"]
    by (simp add: sample_queued_def sample_call_def initial_queue_def)
  ultimately have r: "reachable_queue 1 ?s"
    using sample_reachable(1) [of 1] unfolding reachable_queue_def by (meson rtranclp.rtrancl_into_rtrancl rtranclp_trans)
  have d: "dropped sample_thumbnail ?s" and w: "q_calls ?s 0 = Some (Waiting sample_thumbnail)"
    by (simp_all add: dropped_def sample_queued_def sample_call_def initial_queue_def sending_def)
  show ?thesis
    using dropped_tasks_are_never_served [OF rtranclp.rtrancl_refl d w] r by blast
qed

text \<open>
  C17: Shutdown can crash the program: a call that passed its checks before Shutdown sends its
  task to the channel that Shutdown has closed, which panics.
\<close>

theorem shutdown_can_panic:
  "\<exists>s. reachable_queue workers s \<and> q_panic s = Some SendOnClosedChannel"
proof -
  let ?q = "(sample_sending workers)\<lparr>q_stopped := True, q_closed := True\<rparr>"
  have "queue_step\<^sup>*\<^sup>* (sample_sending workers) ?q"
    by (rule shutdown_steps) (simp_all add: sample_sending_def sample_call_def initial_queue_def)
  moreover have "queue_step ?q (?q\<lparr>q_panic := Some SendOnClosedChannel\<rparr>)"
    using queue_step.send_on_closed [of ?q 0 sample_thumbnail]
    by (simp add: sample_sending_def sample_call_def initial_queue_def)
  ultimately have "reachable_queue workers (?q\<lparr>q_panic := Some SendOnClosedChannel\<rparr>)"
    using sample_reachable(2) [of workers] unfolding reachable_queue_def
    by (meson rtranclp.rtrancl_into_rtrancl rtranclp_trans)
  then show ?thesis by fastforce
qed

section \<open>Witnesses\<close>

lemma sample_queue_reachable: "reachable_queue n (sample_queued n)"
  using sample_reachable(1) [of n] by (auto simp: reachable_queue_def)

lemma thumbnails_are_generated_once_witness: "distinct (q_tasks (sample_queued 1) @ q_running (sample_queued 1))"
  using thumbnails_are_generated_once [OF sample_queue_reachable [of 1]] by simp

lemma waiting_calls_return_witness: "0 \<le> queue_work (sample_queued 1) \<and> (\<exists>u. work_step (sample_queued 1) u)"
proof -
  have "(work_step ^^ 0) (sample_queued 1) (sample_queued 1)" by simp
  from waiting_calls_return [OF sample_queue_reachable _ _ this] show ?thesis
    by (auto simp: sample_queued_def sample_call_def initial_queue_def)
qed

lemma queue_refines_single_flight_witness:
  "flight_of (sample_sending 1) = flight_of (sample_missed 1) \<or> flight_step (flight_of (sample_missed 1)) (flight_of (sample_sending 1))"
proof -
  have "reachable_queue 1 (sample_missed 1)"
    using sample_steps(1) [of 1] unfolding reachable_queue_def by blast
  from queue_refines_single_flight [OF this sample_steps(2)] show ?thesis .
qed

end
