(* ===== verification/ThumbnailTasks.thy ===== *)
theory ThumbnailTasks
  imports Thumbnails
begin

text \<open>
  What opening an original image and running a task leave in the caches, over the contract
  \<open>file_cache\<close> and on the disk.
\<close>

section \<open>What a task leaves\<close>

text \<open>openImage over any cache that meets the contract.\<close>

context file_cache
begin

definition opens :: "('c \<Rightarrow> file_id \<Rightarrow> cache_error + string) \<Rightarrow> bool" where
  "opens copen \<longleftrightarrow> (\<forall>c i. copen c i = (case look c i of None \<Rightarrow> Inl CacheMiss | Some d \<Rightarrow> Inr d))"

lemma open_image_result:
  assumes "opens copen" "open_image copen (put io) fetch i c = (Inr d, c')"
  shows "look c' i = Some d" "look c i = None \<Longrightarrow> fetch i = Inr (d, False)" "look c i \<noteq> None \<Longrightarrow> c' = c"
proof -
  have "look c' i = Some d \<and> (look c i = None \<longrightarrow> fetch i = Inr (d, False)) \<and> (look c i \<noteq> None \<longrightarrow> c' = c)"
  proof (cases "look c i")
    case (Some x)
    then show ?thesis using assms by (simp add: open_image_def opens_def)
  next
    case None
    then obtain r where r: "fetch i = Inr r"
      using assms by (cases "fetch i") (simp_all add: open_image_def opens_def)
    obtain e c1 where w: "put io i r c = (e, c1)" by fastforce
    then have e: "e = None" using assms None r by (cases e) (simp_all add: open_image_def opens_def)
    have "\<not> snd r" "look c1 i = Some (fst r)" using write_ok [of io i r c c1 i] w e by simp_all
    then show ?thesis using assms None r w e by (cases r) (simp add: open_image_def opens_def)
  qed
  then show "look c' i = Some d" "look c i = None \<Longrightarrow> fetch i = Inr (d, False)" "look c i \<noteq> None \<Longrightarrow> c' = c"
    by simp_all
qed

lemma open_image_again:
  assumes "opens copen" "open_image copen (put io) fetch i c = (Inr d, c')"
  shows "open_image copen (put io') fetch' i c' = (Inr d, c')"
  using open_image_result(1) [OF assms] assms(1) by (simp add: open_image_def opens_def)

lemma open_image_failed:
  assumes "opens copen" "open_image copen (put io) fetch i c = (Inl e, c')" "clean io"
  shows "look c' i = None"
proof -
  have n: "look c i = None" using assms(1,2) by (cases "look c i") (simp_all add: open_image_def opens_def)
  show ?thesis
  proof (cases "fetch i")
    case (Inl x)
    then show ?thesis using assms(1,2) n by (simp add: open_image_def opens_def)
  next
    case (Inr r)
    obtain x c1 where w: "put io i r c = (x, c1)" by fastforce
    show ?thesis
    proof (cases x)
      case None
      then have "look c1 i = Some (fst r)" using write_ok [of io i r c c1 i] w by simp
      then show ?thesis using assms(1,2) n Inr w None by (simp add: open_image_def opens_def)
    next
      case (Some y)
      then show ?thesis
        using write_fails [of io i r c y c1 i] w assms n Inr by (auto simp: open_image_def opens_def)
    qed
  qed
qed

end

lemma disk_opens: "io_open io \<Longrightarrow> disk.opens U off c (disk_open U off c io)"
  by (simp add: disk.opens_def disk_open_look)

text \<open>
  C12: On a disk where opening works, openImage gives the complete content that rclone (or
  the preview of a RAW file) delivered, and gives it again without asking: whatever the
  network and the disk do in a second call, the first call's content is returned and the
  cache does not change. A call that fails leaves nothing under the identifier.
\<close>

theorem originals_are_fetched_once:
  assumes "io_open io" "io_open io'" "io_remove io"
    and "disk_look U off c fs fid = None"
    and "open_image (disk_open U off c io) (disk_write U off c io) (fetch_original U env) fid fs = (res, fs')"
  shows "case res of
      Inr d \<Rightarrow> fetch_original U env fid = Inr (d, False)
        \<and> open_image (disk_open U off c io') (disk_write U off c io') (fetch_original U env') fid fs' = (Inr d, fs')
    | Inl e \<Rightarrow> disk_look U off c fs' fid = None"
proof (cases res)
  case (Inl e)
  then show ?thesis
    using disk.open_image_failed [OF disk_opens [OF assms(1)], where io = io] assms(3,5) by simp
next
  case (Inr d)
  have o: "open_image (disk_open U off c io) (disk_write U off c io) (fetch_original U env) fid fs = (Inr d, fs')"
    using assms(5) Inr by simp
  have "open_image (disk_open U off c io') (disk_write U off c io') (fetch_original U env') fid fs' = (Inr d, fs')"
    using disk.open_image_result(1) [OF disk_opens [OF assms(1)] o] assms(2)
    by (simp add: open_image_def disk_open_look)
  then show ?thesis using disk.open_image_result(2) [OF disk_opens [OF assms(1)] o assms(4)] Inr by simp
qed

definition sample_thumbnail_env :: "reader \<Rightarrow> thumbnail_env" where
  "sample_thumbnail_env r =
     \<lparr>te_open_file = (\<lambda>_. Inr r), te_file_range = (\<lambda>_ _ _. Inl RequestFailed),
      te_exiftool = (\<lambda>_ r. r), te_vips = (\<lambda>_ _. (None, False)), te_json = (\<lambda>_. None)\<rparr>"

lemma originals_are_fetched_once_witness:
  "\<exists>fs'. open_image (disk_open ascii_ucd (\<lambda>_. 0) sample_disk sample_io) (disk_write ascii_ucd (\<lambda>_. 0) sample_disk sample_io)
      (fetch_original ascii_ucd (sample_thumbnail_env ([], True))) (new_file_id ''/a.png'' 0 3) fs' = (Inr ''abc'', fs')"
proof -
  let ?f = "new_file_id ''/a.png'' 0 3" and ?env = "sample_thumbnail_env (''abc'', False)"
  have t: "get_image_type ascii_ucd ?f \<noteq> RawImage" by code_simp
  have io: "io_open sample_io" "io_remove sample_io" by (simp_all add: sample_io_def)
  obtain fs' where "open_image (disk_open ascii_ucd (\<lambda>_. 0) sample_disk sample_io)
      (disk_write ascii_ucd (\<lambda>_. 0) sample_disk sample_io) (fetch_original ascii_ucd ?env) ?f (\<lambda>_. None) = (Inr ''abc'', fs')"
    using t by (simp add: open_image_def disk_open_def disk_write_def disk_get_filepath_def copy_to_file_def
        fetch_original_def sample_thumbnail_env_def from_rclone_def sample_io_def)
  from originals_are_fetched_once [OF io(1) io(1) io(2) _ this, of "sample_thumbnail_env ([], True)"]
  show ?thesis by (auto simp: disk_look_def)
qed

text \<open>The errors of opening the original, and the steps of a task.\<close>

definition original_error :: "thumbnail_error \<Rightarrow> bool" where
  "original_error e \<longleftrightarrow> (case e of
       FromRclone _ \<Rightarrow> True | FromCache _ \<Rightarrow> True | ExifToolFailed \<Rightarrow> True | InvalidExifToolOutput \<Rightarrow> True
     | MissingPreview \<Rightarrow> True | UnsupportedImageFormat _ \<Rightarrow> True | _ \<Rightarrow> False)"

lemma from_rclone_error: "from_rclone r = Inl e \<Longrightarrow> original_error e"
  by (auto simp: from_rclone_def original_error_def split: sum.splits)

lemma exiftool_error: "run_exiftool env args r = Inl e \<Longrightarrow> original_error e"
  by (auto simp: run_exiftool_def original_error_def split: prod.splits if_splits)

lemma exif_json_error: "decode_exif_json parse out = Inl e \<Longrightarrow> original_error e"
  by (auto simp: decode_exif_json_def original_error_def split: option.splits sum.splits list.splits)

lemma preview_error:
  "preview_arw env fid = Inl e \<Longrightarrow> original_error e"
  "preview_rw2 env fid = Inl e \<Longrightarrow> original_error e"
  "preview_whole env fid = Inl e \<Longrightarrow> original_error e"
  by (auto simp: preview_arw_def preview_rw2_def preview_whole_def
      dest: from_rclone_error exiftool_error exif_json_error
      split: sum.splits option.splits prod.splits) (auto simp: original_error_def)

lemma fetch_original_error: "fetch_original U env fid = Inl e \<Longrightarrow> original_error e"
  by (auto simp: fetch_original_def extract_preview_def Let_def dest: from_rclone_error preview_error
      split: if_splits sum.splits prod.splits) (auto simp: original_error_def)

lemma open_image_error:
  "open_image copen cwrite (fetch_original U env) fid c = (Inl e, c') \<Longrightarrow> original_error e"
  by (auto simp: open_image_def dest: fetch_original_error split: sum.splits prod.splits option.splits)
    (auto simp: original_error_def)

lemma process_task_steps:
  assumes "process_task U env cs io task fs = (res, fs')"
  obtains (no_original) e where "res = Inl e" "original_error e"
  | (original) content fs1 e where "tk_use_original task"
      "open_image (disk_open U (tc_zone cs) (tc_originals cs) (ti_original io))
        (disk_write U (tc_zone cs) (tc_originals cs) (ti_original io)) (fetch_original U env) (tk_file_id task) fs
        = (Inr content, fs1)"
      "create_cache_file (ti_thumbnail io) (disk_key U (tc_zone cs) (tc_thumbnails cs) (tk_thumbnail_id task))
        (content, ti_read_fails io) (fid_size (tk_file_id task)) fs1 = (e, fs')"
      "res = (case e of Some e \<Rightarrow> Inl e | None \<Rightarrow>
        Inr \<lparr>tks_original_size = fid_size (tk_file_id task), tks_thumbnail_size = fid_size (tk_file_id task),
          tks_original_used = True\<rparr>)"
  | (resize) content fs1 where "\<not> tk_use_original task"
      "resize_task U env cs io task (disk_key U (tc_zone cs) (tc_thumbnails cs) (tk_thumbnail_id task))
        (content, ti_read_fails io) fs1 = (res, fs')"
proof -
  let ?path = "disk_key U (tc_zone cs) (tc_thumbnails cs) (tk_thumbnail_id task)"
  show ?thesis
  proof (cases "disk_get_filepath U (tc_zone cs) (tc_thumbnails cs) (ti_thumbnail io) (tk_thumbnail_id task)")
    case (Inl e)
    then show ?thesis using assms no_original [of "FromCache e"] by (simp add: process_task_def original_error_def)
  next
    case (Inr path)
    then have path: "path = ?path" by (auto simp: disk_get_filepath_def disk_key_def split: if_splits)
    obtain r fs1 where o: "open_image (disk_open U (tc_zone cs) (tc_originals cs) (ti_original io))
        (disk_write U (tc_zone cs) (tc_originals cs) (ti_original io)) (fetch_original U env) (tk_file_id task) fs = (r, fs1)"
      by fastforce
    show ?thesis
    proof (cases r)
      case (Inl e)
      then have "original_error e" using open_image_error [OF o [unfolded Inl]] by simp
      then show ?thesis using assms \<open>disk_get_filepath _ _ _ _ _ = Inr path\<close> o Inl
        by (intro no_original [of e]) (simp_all add: process_task_def)
    next
      case (Inr content)
      obtain e fs2 where c: "create_cache_file (ti_thumbnail io) ?path (content, ti_read_fails io)
          (fid_size (tk_file_id task)) fs1 = (e, fs2)" by fastforce
      show ?thesis
      proof (cases "tk_use_original task")
        case True
        then show ?thesis
          using assms \<open>disk_get_filepath _ _ _ _ _ = Inr path\<close> o Inr c path original [of content fs1 e]
          by (cases e) (simp_all add: process_task_def Let_def)
      next
        case False
        then show ?thesis
          using assms \<open>disk_get_filepath _ _ _ _ _ = Inr path\<close> o Inr path resize [of content fs1]
          by (simp add: process_task_def)
      qed
    qed
  qed
qed

text \<open>
  C20: A task that fails while it copies an original into the thumbnail cache leaves the part
  that was copied, and from then on Open serves it as the thumbnail: what the cache returns
  is the beginning of the image, and it is not removed.
\<close>

theorem failed_copy_is_served_later:
  assumes "process_task U env cs io task fs = (Inl e, fs')" "tk_use_original task"
    and "e = CopyCacheFileFailed \<or> (\<exists>n m. e = NotAllCopied n m)" "io_open later"
  shows "\<exists>content fs1.
      open_image (disk_open U (tc_zone cs) (tc_originals cs) (ti_original io))
        (disk_write U (tc_zone cs) (tc_originals cs) (ti_original io)) (fetch_original U env) (tk_file_id task) fs
        = (Inr content, fs1)
    \<and> (ti_read_fails io \<or> io_space (ti_thumbnail io) < length content \<or> int (length content) \<noteq> fid_size (tk_file_id task))
    \<and> disk_open U (tc_zone cs) (tc_thumbnails cs) later fs' (tk_thumbnail_id task)
        = Inr (take (io_space (ti_thumbnail io)) content)"
  using assms(1)
proof (cases rule: process_task_steps)
  case (no_original e')
  then show ?thesis using assms(3) by (auto simp: original_error_def)
next
  case (original content fs1 e')
  then have "fs' = fs1(disk_key U (tc_zone cs) (tc_thumbnails cs) (tk_thumbnail_id task)
      := Some (take (io_space (ti_thumbnail io)) content))"
    and "ti_read_fails io \<or> io_space (ti_thumbnail io) < length content \<or> int (length content) \<noteq> fid_size (tk_file_id task)"
    using assms(3) by (auto simp: create_cache_file_def copy_to_file_def Let_def split: if_splits)
  then show ?thesis using original(2) assms(4) by (intro exI [of _ content] exI [of _ fs1]) (simp add: disk_open_def disk_key_def)
next
  case (resize content fs1)
  then show ?thesis using assms(2) by simp
qed

definition sample_caches :: thumbnail_caches where
  "sample_caches = \<lparr>tc_thumbnails = \<lparr>dk_abs_dir = ''/t'', dk_cleaner = None\<rparr>,
     tc_originals = \<lparr>dk_abs_dir = ''/o'', dk_cleaner = None\<rparr>, tc_zone = (\<lambda>_. 0)\<rparr>"

definition sample_task :: thumbnail_task where
  "sample_task = \<lparr>tk_file_id = new_file_id ''/a.png'' 0 3, tk_thumbnail_id = new_file_id ''/a.png'' 0 3,
     tk_use_original = True, tk_size = ''medium''\<rparr>"

definition sample_task_io :: "nat \<Rightarrow> task_io" where
  "sample_task_io space = \<lparr>ti_original = sample_io, ti_thumbnail = sample_io\<lparr>io_space := space\<rparr>, ti_temp = sample_io,
     ti_temp_name = ''/tmp/x'', ti_read_fails = False, ti_stat = True\<rparr>"

lemma sample_process_task:
  "\<exists>fs'. process_task ascii_ucd (sample_thumbnail_env (''abc'', False)) sample_caches (sample_task_io space)
      sample_task (\<lambda>_. None)
    = (if space < 3 then Inl CopyCacheFileFailed
       else Inr \<lparr>tks_original_size = 3, tks_thumbnail_size = 3, tks_original_used = True\<rparr>, fs')"
proof -
  have "get_image_type ascii_ucd (new_file_id ''/a.png'' 0 3) \<noteq> RawImage" by code_simp
  then show ?thesis
    by (simp add: process_task_def open_image_def disk_open_def disk_write_def disk_get_filepath_def copy_to_file_def
        fetch_original_def sample_thumbnail_env_def from_rclone_def sample_io_def sample_task_io_def
        sample_caches_def sample_task_def create_cache_file_def)
qed

lemma failed_copy_is_served_later_witness:
  "\<exists>fs' content. disk_open ascii_ucd (\<lambda>_. 0) (tc_thumbnails sample_caches) sample_io fs' (new_file_id ''/a.png'' 0 3)
     = Inr (take 2 content)"
proof -
  obtain fs' where "process_task ascii_ucd (sample_thumbnail_env (''abc'', False)) sample_caches (sample_task_io 2)
      sample_task (\<lambda>_. None) = (Inl CopyCacheFileFailed, fs')"
    using sample_process_task [of 2] by auto
  from failed_copy_is_served_later [OF this, of sample_io] show ?thesis
    by (auto simp: sample_task_def sample_io_def sample_task_io_def sample_caches_def)
qed

text \<open>
  C19: A task that succeeds leaves a thumbnail, of the size it reports: the complete original,
  or what vipsthumbnail wrote; a resize that fails leaves none when the file can be removed.
\<close>

theorem task_leaves_complete_thumbnail:
  assumes "process_task U env cs io task fs = (res, fs')"
    and "res = Inr st \<or> res = Inl ResizeFailed \<and> io_remove (ti_thumbnail io)"
  shows "case disk_look U (tc_zone cs) (tc_thumbnails cs) fs' (tk_thumbnail_id task) of
      Some d \<Rightarrow> res = Inr st \<and> int (length d) = tks_thumbnail_size st
        \<and> (tk_use_original task \<longrightarrow> int (length d) = fid_size (tk_file_id task))
    | None \<Rightarrow> res = Inl ResizeFailed"
  using assms(1)
proof (cases rule: process_task_steps)
  case (no_original e)
  then show ?thesis using assms(2) by (auto simp: original_error_def)
next
  case (original content fs1 e)
  have e: "e = None" using original(3,4) assms(2)
    by (auto simp: create_cache_file_def Let_def split: option.splits if_splits prod.splits)
  then have "fs' = fs1(disk_key U (tc_zone cs) (tc_thumbnails cs) (tk_thumbnail_id task) := Some content)"
      "int (length content) = fid_size (tk_file_id task)"
    using original(3) e by (auto simp: create_cache_file_def copy_to_file_def Let_def split: if_splits)
  then show ?thesis using original(4) e assms(2) by (auto simp: disk_look_def)
next
  case (resize content fs1)
  then show ?thesis
    using assms(2)
    by (auto simp: resize_task_def disk_look_def disk_remove_def disk_key_def Let_def
        split: if_splits prod.splits option.splits)
qed

lemma task_leaves_complete_thumbnail_witness:
  "\<exists>fs' d. disk_look ascii_ucd (\<lambda>_. 0) (tc_thumbnails sample_caches) fs' (new_file_id ''/a.png'' 0 3) = Some d
    \<and> length d = 3"
proof -
  let ?st = "\<lparr>tks_original_size = 3, tks_thumbnail_size = 3, tks_original_used = True\<rparr>"
  obtain fs' where "process_task ascii_ucd (sample_thumbnail_env (''abc'', False)) sample_caches (sample_task_io 5)
      sample_task (\<lambda>_. None) = (Inr ?st, fs')"
    using sample_process_task [of 5] by auto
  from task_leaves_complete_thumbnail [OF this, of ?st] show ?thesis
    by (auto simp: sample_task_def sample_caches_def split: option.splits)
qed

end
