(* ===== verification/ThumbnailService.thy ===== *)
theory ThumbnailService
  imports ThumbnailQueue ThumbnailTasks
begin

text \<open>
  The thumbnail service with real files: the queue of ThumbnailQueue, whose workers run
  \<open>process_task\<close> and whose calls look into the cache directory, while the cleaners remove
  files. It is a refinement of the queue, where a thumbnail is only cached or not. Opening a
  file that is there succeeds, and a call for a file that cannot have a thumbnail, which ends at
  once with an error and changes nothing, is no step.
\<close>

section \<open>The service\<close>

text \<open>
  The queue (its set of cached thumbnails is not used), the task that each call has made, the task
  behind each thumbnail in progress, and the files of the machine.
\<close>

record service_state =
  ts_queue :: queue_state
  ts_call_task :: "nat \<Rightarrow> thumbnail_task"
  ts_tasks :: "file_id \<Rightarrow> thumbnail_task"
  ts_files :: files

text \<open>The steps of the queue that do not touch the cache.\<close>

inductive other_step :: "queue_state \<Rightarrow> queue_state \<Rightarrow> bool" where
  send_task:
    "q_calls s c = Some (Sending t) \<Longrightarrow> \<not> q_closed s \<Longrightarrow> length (q_tasks s) < queue_capacity \<Longrightarrow>
     other_step s (set_call c (Waiting t) (s\<lparr>q_tasks := q_tasks s @ [t]\<rparr>))"
| take_task:
    "q_tasks s = t # ts \<Longrightarrow> 0 < q_idle s \<Longrightarrow>
     other_step s (s\<lparr>q_tasks := ts, q_idle := q_idle s - 1, q_running := t # q_running s\<rparr>)"
| refused: "q_calls s c = None \<Longrightarrow> q_stopped s \<Longrightarrow> other_step s (set_call c Refused s)"
| later_call:
    "q_calls s c = Some (Missed t) \<Longrightarrow> t \<in> q_in_progress s \<Longrightarrow> other_step s (set_call c (Waiting t) s)"
| send_on_closed:
    "q_calls s c = Some (Sending t) \<Longrightarrow> q_closed s \<Longrightarrow> other_step s (s\<lparr>q_panic := Some SendOnClosedChannel\<rparr>)"
| context_done: "q_calls s c = Some (Waiting t) \<Longrightarrow> other_step s (set_call c Refused s)"
| stop: "\<not> q_stopped s \<Longrightarrow> other_step s (s\<lparr>q_stopped := True\<rparr>)"
| close_queue: "q_stopped s \<Longrightarrow> \<not> q_closed s \<Longrightarrow> other_step s (s\<lparr>q_closed := True\<rparr>)"
| drop_task: "q_closed s \<Longrightarrow> q_tasks s = t # ts \<Longrightarrow> other_step s (s\<lparr>q_tasks := ts\<rparr>)"
| worker_exit:
    "q_closed s \<Longrightarrow> q_tasks s = [] \<Longrightarrow> 0 < q_idle s \<Longrightarrow>
     other_step s (s\<lparr>q_idle := q_idle s - 1, q_exited := q_exited s + 1\<rparr>)"

definition thumbnail_file :: "ucd \<Rightarrow> thumbnail_caches \<Rightarrow> file_id \<Rightarrow> string" where
  "thumbnail_file U cs t = disk_key U (tc_zone cs) (tc_thumbnails cs) t"

definition original_file :: "ucd \<Rightarrow> thumbnail_caches \<Rightarrow> file_id \<Rightarrow> string" where
  "original_file U cs f = disk_key U (tc_zone cs) (tc_originals cs) f"

text \<open>\<open>T\<close> are the thumbnails that are asked for.\<close>

inductive thumbnail_step :: "ucd \<Rightarrow> thumbnail_caches \<Rightarrow> int \<Rightarrow> string \<Rightarrow> file_id set \<Rightarrow>
    service_state \<Rightarrow> service_state \<Rightarrow> bool" for U cs threshold fmt T where
  other:
    "q_panic (ts_queue d) = None \<Longrightarrow> other_step (ts_queue d) q \<Longrightarrow>
     thumbnail_step U cs threshold fmt T d (d\<lparr>ts_queue := q\<rparr>)"
| opened:
    "q_panic (ts_queue d) = None \<Longrightarrow> q_calls (ts_queue d) c = None \<Longrightarrow> \<not> q_stopped (ts_queue d) \<Longrightarrow>
     make_task U threshold fmt fid tsize = Inr task \<Longrightarrow> tk_thumbnail_id task \<in> T \<Longrightarrow>
     ts_files d (thumbnail_file U cs (tk_thumbnail_id task)) = Some content \<Longrightarrow>
     thumbnail_step U cs threshold fmt T d
       (d\<lparr>ts_queue := set_call c (Served (tk_thumbnail_id task)) (ts_queue d)\<rparr>)"
| missed:
    "q_panic (ts_queue d) = None \<Longrightarrow> q_calls (ts_queue d) c = None \<Longrightarrow> \<not> q_stopped (ts_queue d) \<Longrightarrow>
     make_task U threshold fmt fid tsize = Inr task \<Longrightarrow> tk_thumbnail_id task \<in> T \<Longrightarrow>
     ts_files d (thumbnail_file U cs (tk_thumbnail_id task)) = None \<Longrightarrow>
     thumbnail_step U cs threshold fmt T d
       (d\<lparr>ts_queue := set_call c (Missed (tk_thumbnail_id task)) (ts_queue d),
          ts_call_task := (ts_call_task d)(c := task)\<rparr>)"
| first_call:
    "q_panic (ts_queue d) = None \<Longrightarrow> q_calls (ts_queue d) c = Some (Missed t) \<Longrightarrow> t \<notin> q_in_progress (ts_queue d) \<Longrightarrow>
     thumbnail_step U cs threshold fmt T d
       (d\<lparr>ts_queue := set_call c (Sending t) ((ts_queue d)\<lparr>q_in_progress := insert t (q_in_progress (ts_queue d))\<rparr>),
          ts_tasks := (ts_tasks d)(t := ts_call_task d c)\<rparr>)"
| finished:
    "q_panic (ts_queue d) = None \<Longrightarrow> t \<in> set (q_running (ts_queue d)) \<Longrightarrow>
     process_task U env cs io (ts_tasks d t) (ts_files d) = (res, fs) \<Longrightarrow>
     thumbnail_step U cs threshold fmt T d
       (d\<lparr>ts_queue := (ts_queue d)\<lparr>q_running := remove1 t (q_running (ts_queue d)), q_idle := q_idle (ts_queue d) + 1,
            q_in_progress := q_in_progress (ts_queue d) - {t}\<rparr>,
          ts_files := fs\<rparr>)"
| ready:
    "q_panic (ts_queue d) = None \<Longrightarrow> q_calls (ts_queue d) c = Some (Waiting t) \<Longrightarrow> t \<notin> q_in_progress (ts_queue d) \<Longrightarrow>
     thumbnail_step U cs threshold fmt T d
       (d\<lparr>ts_queue := set_call c (if ts_files d (thumbnail_file U cs t) = None then Refused else Served t) (ts_queue d)\<rparr>)"
| cleaned:
    "q_panic (ts_queue d) = None \<Longrightarrow>
     thumbnail_step U cs threshold fmt T d (d\<lparr>ts_files := (ts_files d)(path := None)\<rparr>)"

definition new_service_state :: "nat \<Rightarrow> files \<Rightarrow> service_state" where
  "new_service_state workers fs =
     \<lparr>ts_queue = initial_queue workers {}, ts_call_task = (\<lambda>_. undefined), ts_tasks = (\<lambda>_. undefined), ts_files = fs\<rparr>"

section \<open>The queue behind it\<close>

definition cached_thumbnails :: "ucd \<Rightarrow> thumbnail_caches \<Rightarrow> file_id set \<Rightarrow> files \<Rightarrow> file_id set" where
  "cached_thumbnails U cs T fs = {t \<in> T. fs (thumbnail_file U cs t) \<noteq> None}"

definition queue_of :: "ucd \<Rightarrow> thumbnail_caches \<Rightarrow> file_id set \<Rightarrow> service_state \<Rightarrow> queue_state" where
  "queue_of U cs T d = (ts_queue d)\<lparr>q_cached := cached_thumbnails U cs T (ts_files d)\<rparr>"

text \<open>Different thumbnails have different files, and no original image has the file of a thumbnail.\<close>

definition separate_files :: "ucd \<Rightarrow> thumbnail_caches \<Rightarrow> file_id set \<Rightarrow> bool" where
  "separate_files U cs T \<longleftrightarrow>
     inj_on (thumbnail_file U cs) T \<and> (\<forall>t\<in>T. \<forall>f. thumbnail_file U cs t \<noteq> original_file U cs f)"

text \<open>What a task can write: its thumbnail and the original image.\<close>

lemma process_task_files:
  assumes "process_task U env cs io task fs = (res, fs')"
    and "p \<noteq> thumbnail_file U cs (tk_thumbnail_id task)" "p \<noteq> original_file U cs (tk_file_id task)"
  shows "fs' p = fs p"
proof -
  let ?copen = "disk_open U (tc_zone cs) (tc_originals cs) (ti_original io)"
  let ?cwrite = "disk_write U (tc_zone cs) (tc_originals cs) (ti_original io)"
  have w: "snd (?cwrite (tk_file_id task) r f) p = f p" for r f
    using assms(3)
    by (auto simp: disk_write_def disk_get_filepath_def copy_to_file_def clean_up_def original_file_def disk_key_def Let_def
        split: sum.splits)
  have o: "snd (open_image ?copen ?cwrite fetch (tk_file_id task) f) p = f p" for fetch f
    using w by (auto simp: open_image_def split: sum.splits prod.splits option.splits) (metis snd_conv)+
  have c: "snd (create_cache_file i (thumbnail_file U cs (tk_thumbnail_id task)) r n f) p = f p" for i r n f
    using assms(2) by (auto simp: create_cache_file_def copy_to_file_def Let_def)
  have v: "snd (resize_with_vips U vips tmp img (thumbnail_file U cs (tk_thumbnail_id task)) tid sz f) p = f p" for vips tmp img tid sz f
    using assms(2) by (auto simp: resize_with_vips_def split: sum.splits prod.splits option.splits)
  have d: "snd (disk_remove U (tc_zone cs) (tc_thumbnails cs) i (tk_thumbnail_id task) f) p = f p" for i f
    using assms(2) by (auto simp: disk_remove_def thumbnail_file_def disk_key_def Let_def)
  have r: "snd (resize_task U env cs io task (thumbnail_file U cs (tk_thumbnail_id task)) rd f) p = f p" for rd f
    using v d by (auto simp: resize_task_def Let_def copy_to_file_def split: prod.splits option.splits) (metis snd_conv)+
  show ?thesis
  proof (cases "disk_get_filepath U (tc_zone cs) (tc_thumbnails cs) (ti_thumbnail io) (tk_thumbnail_id task)")
    case (Inl e)
    then show ?thesis using assms(1) by (simp add: process_task_def)
  next
    case (Inr path)
    then have path: "path = thumbnail_file U cs (tk_thumbnail_id task)"
      by (auto simp: disk_get_filepath_def thumbnail_file_def disk_key_def split: if_splits)
    obtain x fs1 where x: "open_image ?copen ?cwrite (fetch_original U env) (tk_file_id task) fs = (x, fs1)" by fastforce
    then have 1: "fs1 p = fs p" using o [of "fetch_original U env" fs] by simp
    show ?thesis
    proof (cases x)
      case (Inl a)
      then show ?thesis using assms(1) Inr x 1 by (simp add: process_task_def)
    next
      case content: (Inr y)
      obtain e fs2 where e: "create_cache_file (ti_thumbnail io) path (y, ti_read_fails io) (fid_size (tk_file_id task)) fs1 = (e, fs2)"
        by fastforce
      have 2: "fs2 p = fs1 p" using c [of "ti_thumbnail io" "(y, ti_read_fails io)" "fid_size (tk_file_id task)" fs1] e path by simp
      show ?thesis
      proof (cases "tk_use_original task")
        case True
        then have "fs' = fs2"
          using assms(1) Inr x content e by (cases e) (simp_all add: process_task_def Let_def)
        then show ?thesis using 1 2 by simp
      next
        case False
        then show ?thesis
          using assms(1) Inr x content 1 r [of "(y, ti_read_fails io)" fs1] path by (simp add: process_task_def)
      qed
    qed
  qed
qed


lemma cached_after_change:
  assumes "separate_files U cs T" "t \<in> T"
    and "\<And>p. p \<noteq> thumbnail_file U cs t \<Longrightarrow> p \<noteq> original_file U cs f \<Longrightarrow> fs' p = fs p"
  shows "cached_thumbnails U cs T fs' = insert t (cached_thumbnails U cs T fs)
    \<or> cached_thumbnails U cs T fs' = cached_thumbnails U cs T fs - {t}"
proof -
  have same: "fs' (thumbnail_file U cs u) = fs (thumbnail_file U cs u)" if "u \<in> T" "u \<noteq> t" for u
  proof (rule assms(3))
    show "thumbnail_file U cs u \<noteq> thumbnail_file U cs t"
      using assms(1,2) that unfolding separate_files_def inj_on_def by blast
    show "thumbnail_file U cs u \<noteq> original_file U cs f" using assms(1) that(1) unfolding separate_files_def by blast
  qed
  show ?thesis
  proof (cases "fs' (thumbnail_file U cs t) = None")
    case True
    then have "cached_thumbnails U cs T fs' = cached_thumbnails U cs T fs - {t}"
      using same by (auto simp: cached_thumbnails_def) (metis option.distinct(1))+
    then show ?thesis by blast
  next
    case False
    then have "cached_thumbnails U cs T fs' = insert t (cached_thumbnails U cs T fs)"
      using same assms(2) by (auto simp: cached_thumbnails_def) (metis option.distinct(1))+
    then show ?thesis by blast
  qed
qed

lemma set_call_cached: "(set_call c x q)\<lparr>q_cached := C\<rparr> = set_call c x (q\<lparr>q_cached := C\<rparr>)"
  by (simp add: set_call_def)

lemma other_step_queue:
  assumes "other_step q q'" "q_panic q = None"
  shows "queue_step (q\<lparr>q_cached := C\<rparr>) (q'\<lparr>q_cached := C\<rparr>)"
  using assms(1)
proof cases
  case (send_task c t)
  have "work_step (q\<lparr>q_cached := C\<rparr>) (set_call c (Waiting t) ((q\<lparr>q_cached := C\<rparr>)\<lparr>q_tasks := q_tasks (q\<lparr>q_cached := C\<rparr>) @ [t]\<rparr>))"
    by (rule work_step.send_task) (use send_task in simp_all)
  moreover have "set_call c (Waiting t) ((q\<lparr>q_cached := C\<rparr>)\<lparr>q_tasks := q_tasks (q\<lparr>q_cached := C\<rparr>) @ [t]\<rparr>)
      = q'\<lparr>q_cached := C\<rparr>"
    unfolding send_task(1) set_call_def by simp
  ultimately have "work_step (q\<lparr>q_cached := C\<rparr>) (q'\<lparr>q_cached := C\<rparr>)" by simp
  then show ?thesis using queue_step.work assms(2) by simp
next
  case (take_task t ts)
  have "work_step (q\<lparr>q_cached := C\<rparr>) ((q\<lparr>q_cached := C\<rparr>)\<lparr>q_tasks := ts, q_idle := q_idle (q\<lparr>q_cached := C\<rparr>) - 1,
      q_running := t # q_running (q\<lparr>q_cached := C\<rparr>)\<rparr>)"
    by (rule work_step.take_task) (use take_task in simp_all)
  moreover have "(q\<lparr>q_cached := C\<rparr>)\<lparr>q_tasks := ts, q_idle := q_idle (q\<lparr>q_cached := C\<rparr>) - 1,
      q_running := t # q_running (q\<lparr>q_cached := C\<rparr>)\<rparr> = q'\<lparr>q_cached := C\<rparr>"
    unfolding take_task(1) by simp
  ultimately have "work_step (q\<lparr>q_cached := C\<rparr>) (q'\<lparr>q_cached := C\<rparr>)" by simp
  then show ?thesis using queue_step.work assms(2) by simp
next
  case (refused c)
  show ?thesis unfolding refused(1) set_call_cached by (rule queue_step.refused) (use refused assms(2) in simp_all)
next
  case (later_call c t)
  show ?thesis unfolding later_call(1) set_call_cached by (rule queue_step.later_call) (use later_call assms(2) in simp_all)
next
  case (send_on_closed c t)
  have "queue_step (q\<lparr>q_cached := C\<rparr>) ((q\<lparr>q_cached := C\<rparr>)\<lparr>q_panic := Some SendOnClosedChannel\<rparr>)"
    by (rule queue_step.send_on_closed) (use send_on_closed assms(2) in simp_all)
  moreover have "(q\<lparr>q_cached := C\<rparr>)\<lparr>q_panic := Some SendOnClosedChannel\<rparr> = q'\<lparr>q_cached := C\<rparr>"
    unfolding send_on_closed(1) by simp
  ultimately show ?thesis by simp
next
  case (context_done c t)
  show ?thesis unfolding context_done(1) set_call_cached
    by (rule queue_step.context_done) (use context_done assms(2) in simp_all)
next
  case stop
  have "queue_step (q\<lparr>q_cached := C\<rparr>) ((q\<lparr>q_cached := C\<rparr>)\<lparr>q_stopped := True\<rparr>)"
    by (rule queue_step.stop) (use stop assms(2) in simp_all)
  moreover have "(q\<lparr>q_cached := C\<rparr>)\<lparr>q_stopped := True\<rparr> = q'\<lparr>q_cached := C\<rparr>"
    unfolding stop(1) by simp
  ultimately show ?thesis by simp
next
  case close_queue
  have "queue_step (q\<lparr>q_cached := C\<rparr>) ((q\<lparr>q_cached := C\<rparr>)\<lparr>q_closed := True\<rparr>)"
    by (rule queue_step.close_queue) (use close_queue assms(2) in simp_all)
  moreover have "(q\<lparr>q_cached := C\<rparr>)\<lparr>q_closed := True\<rparr> = q'\<lparr>q_cached := C\<rparr>"
    unfolding close_queue(1) by simp
  ultimately show ?thesis by simp
next
  case (drop_task t ts)
  have "queue_step (q\<lparr>q_cached := C\<rparr>) ((q\<lparr>q_cached := C\<rparr>)\<lparr>q_tasks := ts\<rparr>)"
    by (rule queue_step.drop_task) (use drop_task assms(2) in simp_all)
  moreover have "(q\<lparr>q_cached := C\<rparr>)\<lparr>q_tasks := ts\<rparr> = q'\<lparr>q_cached := C\<rparr>"
    unfolding drop_task(1) by simp
  ultimately show ?thesis by simp
next
  case worker_exit
  have "queue_step (q\<lparr>q_cached := C\<rparr>) ((q\<lparr>q_cached := C\<rparr>)\<lparr>q_idle := q_idle (q\<lparr>q_cached := C\<rparr>) - 1,
      q_exited := q_exited (q\<lparr>q_cached := C\<rparr>) + 1\<rparr>)"
    by (rule queue_step.worker_exit) (use worker_exit assms(2) in simp_all)
  moreover have "(q\<lparr>q_cached := C\<rparr>)\<lparr>q_idle := q_idle (q\<lparr>q_cached := C\<rparr>) - 1,
      q_exited := q_exited (q\<lparr>q_cached := C\<rparr>) + 1\<rparr> = q'\<lparr>q_cached := C\<rparr>"
    unfolding worker_exit(1) by simp
  ultimately show ?thesis by simp
qed

section \<open>The simulation\<close>

text \<open>Calls are about thumbnails of \<open>T\<close>, and each thumbnail in progress has its own task.\<close>

definition asked_for :: "file_id set \<Rightarrow> call \<Rightarrow> bool" where
  "asked_for T x = (case x of Missed t \<Rightarrow> t \<in> T | Sending t \<Rightarrow> t \<in> T | Waiting t \<Rightarrow> t \<in> T | _ \<Rightarrow> True)"

lemma asked_for_simps [simp]:
  "asked_for T (Missed t) = (t \<in> T)" "asked_for T (Sending t) = (t \<in> T)" "asked_for T (Waiting t) = (t \<in> T)"
  "asked_for T (Served t)" "asked_for T Refused"
  by (simp_all add: asked_for_def)

definition service_inv :: "file_id set \<Rightarrow> service_state \<Rightarrow> bool" where
  "service_inv T d \<longleftrightarrow>
     (\<forall>c x. q_calls (ts_queue d) c = Some x \<longrightarrow> asked_for T x)
     \<and> (\<forall>c t. q_calls (ts_queue d) c = Some (Missed t) \<longrightarrow> tk_thumbnail_id (ts_call_task d c) = t)
     \<and> (\<forall>t\<in>q_in_progress (ts_queue d). t \<in> T \<and> tk_thumbnail_id (ts_tasks d t) = t)"

lemma other_step_inv:
  assumes "other_step q q'" "service_inv T d" "ts_queue d = q"
  shows "service_inv T (d\<lparr>ts_queue := q'\<rparr>)"
  using assms(1)
proof cases
  case (send_task c t)
  have "t \<in> T" using assms(2,3) send_task(2) unfolding service_inv_def by fastforce
  then show ?thesis using assms(2,3) send_task unfolding service_inv_def by simp
next
  case (later_call c t)
  have "t \<in> T" using assms(2,3) later_call(2) unfolding service_inv_def by fastforce
  then show ?thesis using assms(2,3) later_call unfolding service_inv_def by simp
qed (use assms(2,3) in \<open>simp_all add: service_inv_def\<close>)

lemma thumbnail_step_inv:
  assumes "thumbnail_step U cs threshold fmt T d d'" "service_inv T d"
  shows "service_inv T d'"
  using assms(1)
proof cases
  case (other q)
  then show ?thesis using other_step_inv assms(2) by blast
next
  case (first_call c t)
  have "t \<in> T" using assms(2) first_call(3) unfolding service_inv_def by fastforce
  moreover have "tk_thumbnail_id (ts_call_task d c) = t" using assms(2) first_call(3) unfolding service_inv_def by blast
  ultimately show ?thesis using assms(2) first_call unfolding service_inv_def by simp
next
  case (ready c t)
  then show ?thesis using assms(2) unfolding service_inv_def by simp
qed (use assms(2) in \<open>simp_all add: service_inv_def\<close>)

lemma queue_of_sel [simp]:
  "q_stopped (queue_of U cs T d) = q_stopped (ts_queue d)" "q_closed (queue_of U cs T d) = q_closed (ts_queue d)"
  "q_tasks (queue_of U cs T d) = q_tasks (ts_queue d)" "q_in_progress (queue_of U cs T d) = q_in_progress (ts_queue d)"
  "q_running (queue_of U cs T d) = q_running (ts_queue d)" "q_idle (queue_of U cs T d) = q_idle (ts_queue d)"
  "q_calls (queue_of U cs T d) = q_calls (ts_queue d)" "q_panic (queue_of U cs T d) = q_panic (ts_queue d)"
  "q_cached (queue_of U cs T d) = cached_thumbnails U cs T (ts_files d)"
  by (simp_all add: queue_of_def)

text \<open>A task that ends is, for the queue, an eviction at most and then the end of a task.\<close>

lemma finished_queue:
  assumes "q_panic s = None" "t \<in> set (q_running s)" "C = insert t (q_cached s) \<or> C = q_cached s - {t}"
  shows "queue_step\<^sup>*\<^sup>* s (s\<lparr>q_running := remove1 t (q_running s), q_idle := q_idle s + 1,
    q_in_progress := q_in_progress s - {t}, q_cached := C\<rparr>)"
  using assms(3)
proof
  assume "C = insert t (q_cached s)"
  then show ?thesis using queue_step.work [OF assms(1) work_step.finish_task [OF assms(2)]] by blast
next
  assume C: "C = q_cached s - {t}"
  let ?e = "s\<lparr>q_cached := C\<rparr>"
  have 1: "queue_step s ?e" unfolding C by (rule queue_step.evicted) (rule assms(1))
  have "queue_step ?e (?e\<lparr>q_running := remove1 t (q_running ?e), q_idle := q_idle ?e + 1,
      q_in_progress := q_in_progress ?e - {t}, q_cached := q_cached ?e\<rparr>)"
    by (rule queue_step.work, simp add: assms(1), rule work_step.finish_task) (simp_all add: assms(2))
  moreover have "?e\<lparr>q_running := remove1 t (q_running ?e), q_idle := q_idle ?e + 1,
      q_in_progress := q_in_progress ?e - {t}, q_cached := q_cached ?e\<rparr>
    = s\<lparr>q_running := remove1 t (q_running s), q_idle := q_idle s + 1,
      q_in_progress := q_in_progress s - {t}, q_cached := C\<rparr>" by simp
  ultimately show ?thesis using 1 by (auto intro: converse_rtranclp_into_rtranclp)
qed

lemma cached_after_clean:
  assumes "separate_files U cs T"
  shows "cached_thumbnails U cs T (fs(p := None)) = cached_thumbnails U cs T fs
    \<or> (\<exists>t. cached_thumbnails U cs T (fs(p := None)) = cached_thumbnails U cs T fs - {t})"
proof (cases "\<exists>t\<in>T. thumbnail_file U cs t = p")
  case True
  then obtain t where t: "t \<in> T" "thumbnail_file U cs t = p" by blast
  have "thumbnail_file U cs u = p \<longleftrightarrow> u = t" if "u \<in> T" for u
    using assms t that unfolding separate_files_def inj_on_def by blast
  then have "cached_thumbnails U cs T (fs(p := None)) = cached_thumbnails U cs T fs - {t}"
    unfolding cached_thumbnails_def by (auto split: if_splits)
  then show ?thesis by blast
next
  case False
  then have "cached_thumbnails U cs T (fs(p := None)) = cached_thumbnails U cs T fs"
    by (auto simp: cached_thumbnails_def)
  then show ?thesis by blast
qed

lemma thumbnail_step_queue:
  assumes "thumbnail_step U cs threshold fmt T d d'" "service_inv T d" "queue_inv n (queue_of U cs T d)"
    and "separate_files U cs T"
  shows "queue_step\<^sup>*\<^sup>* (queue_of U cs T d) (queue_of U cs T d')"
  using assms(1)
proof cases
  case (other q)
  then show ?thesis using other_step_queue [OF other(3,2)] by (simp add: queue_of_def r_into_rtranclp)
next
  case (opened c fid tsize task content)
  have "queue_step (queue_of U cs T d) (set_call c (Served (tk_thumbnail_id task)) (queue_of U cs T d))"
    by (rule queue_step.cache_hit) (use opened in \<open>simp_all add: cached_thumbnails_def\<close>)
  then show ?thesis using opened(1) by (simp add: queue_of_def set_call_cached r_into_rtranclp)
next
  case (missed c fid tsize task)
  have "queue_step (queue_of U cs T d) (set_call c (Missed (tk_thumbnail_id task)) (queue_of U cs T d))"
    by (rule queue_step.cache_miss) (use missed in \<open>simp_all add: cached_thumbnails_def\<close>)
  then show ?thesis using missed(1) by (simp add: queue_of_def set_call_cached r_into_rtranclp)
next
  case (first_call c t)
  let ?s = "queue_of U cs T d"
  have "queue_step ?s (set_call c (Sending t) (?s\<lparr>q_in_progress := insert t (q_in_progress ?s)\<rparr>))"
    by (rule queue_step.first_call) (use first_call in simp_all)
  moreover have "set_call c (Sending t) (?s\<lparr>q_in_progress := insert t (q_in_progress ?s)\<rparr>) = queue_of U cs T d'"
    unfolding first_call(1) queue_of_def set_call_def by simp
  ultimately show ?thesis by (simp add: r_into_rtranclp)
next
  case (finished t env io res fs)
  let ?s = "queue_of U cs T d" and ?C = "cached_thumbnails U cs T fs"
  have "t \<in> q_in_progress (ts_queue d)" using assms(3) finished(3) by (auto simp: queue_inv_def)
  then have t: "t \<in> T" "tk_thumbnail_id (ts_tasks d t) = t" using assms(2) unfolding service_inv_def by blast+
  have "?C = insert t (q_cached ?s) \<or> ?C = q_cached ?s - {t}"
    unfolding queue_of_sel(9)
    by (rule cached_after_change [OF assms(4) t(1)]) (rule process_task_files [OF finished(4), unfolded t(2)])
  then have "queue_step\<^sup>*\<^sup>* ?s (?s\<lparr>q_running := remove1 t (q_running ?s), q_idle := q_idle ?s + 1,
      q_in_progress := q_in_progress ?s - {t}, q_cached := ?C\<rparr>)"
    by (intro finished_queue) (use finished in simp_all)
  moreover have "?s\<lparr>q_running := remove1 t (q_running ?s), q_idle := q_idle ?s + 1,
      q_in_progress := q_in_progress ?s - {t}, q_cached := ?C\<rparr> = queue_of U cs T d'"
    unfolding finished(1) queue_of_def by simp
  ultimately show ?thesis by simp
next
  case (ready c t)
  let ?s = "queue_of U cs T d"
  have t: "t \<in> T" using assms(2) ready(3) unfolding service_inv_def by fastforce
  have "queue_step ?s (set_call c (if t \<in> q_cached ?s then Served t else Refused) ?s)"
    by (rule queue_step.ready) (use ready in simp_all)
  moreover have "(if t \<in> q_cached ?s then Served t else Refused)
      = (if ts_files d (thumbnail_file U cs t) = None then Refused else Served t)"
    using t by (simp add: cached_thumbnails_def)
  ultimately show ?thesis using ready(1) by (simp add: queue_of_def set_call_cached r_into_rtranclp)
next
  case (cleaned path)
  let ?s = "queue_of U cs T d"
  have same: "queue_of U cs T d' = ?s\<lparr>q_cached := cached_thumbnails U cs T ((ts_files d)(path := None))\<rparr>"
    unfolding cleaned(1) queue_of_def by simp
  show ?thesis
    using cached_after_clean [OF assms(4), of "ts_files d" path]
  proof (elim disjE exE)
    assume "cached_thumbnails U cs T ((ts_files d)(path := None)) = cached_thumbnails U cs T (ts_files d)"
    then show ?thesis unfolding same by (simp add: queue_of_def)
  next
    fix t
    assume "cached_thumbnails U cs T ((ts_files d)(path := None)) = cached_thumbnails U cs T (ts_files d) - {t}"
    then show ?thesis
      unfolding same using queue_step.evicted [of ?s t] cleaned(2) by (simp add: r_into_rtranclp)
  qed
qed

lemma thumbnail_steps_queue:
  assumes "(thumbnail_step U cs threshold fmt T)\<^sup>*\<^sup>* (new_service_state workers fs) d" "separate_files U cs T"
  shows "service_inv T d \<and> reachable_queue workers (queue_of U cs T d)"
  using assms(1)
proof (induction rule: rtranclp_induct)
  case base
  have "queue_of U cs T (new_service_state workers fs) = initial_queue workers (cached_thumbnails U cs T fs)"
    by (simp add: queue_of_def new_service_state_def initial_queue_def)
  then show ?case
    unfolding reachable_queue_def by (auto simp: service_inv_def new_service_state_def initial_queue_def)
next
  case (step d d')
  have "queue_step\<^sup>*\<^sup>* (queue_of U cs T d) (queue_of U cs T d')"
    using thumbnail_step_queue [OF step.hyps(2) _ reachable_queue_inv assms(2)] step.IH by blast
  then show ?case
    using step.IH thumbnail_step_inv [OF step.hyps(2)] unfolding reachable_queue_def by (meson rtranclp_trans)
qed

text \<open>Cache directories that differ, and paths that do not collide under MD5, keep the files apart.\<close>

lemma same_cache_file:
  assumes "is_rooted (dk_abs_dir a)" "is_rooted (dk_abs_dir b)" "sane_ucd U"
  shows "disk_key U off a x = disk_key U off b y \<longleftrightarrow>
    path_comps (dk_abs_dir a) = path_comps (dk_abs_dir b) \<and> cache_subdir off (fid_mod_time x) = cache_subdir off (fid_mod_time y)
    \<and> cache_filename U x = cache_filename U y"
proof -
  have n: "list_all (\<lambda>w. slash \<notin> set w) (path_comps d)" for d
    by (rule normal_comps_no_slash [OF path_comps_normal])
  have s: "slash \<notin> set (cache_subdir off t)" "slash \<notin> set (cache_filename U f)" for t f
    using subdir_proper [of off t] filename_proper [OF assms(3), of f] by (simp_all add: proper_elem_def)
  show ?thesis
    using rooted_join_last_eq [of "path_comps (dk_abs_dir a) @ [cache_subdir off (fid_mod_time x)]" "cache_filename U x"
        "path_comps (dk_abs_dir b) @ [cache_subdir off (fid_mod_time y)]" "cache_filename U y"] n s
      generate_filepath_shape [OF assms(1,3)] generate_filepath_shape [OF assms(2,3)]
    by (simp add: disk_key_def)
qed

lemma different_dirs_separate:
  assumes "is_rooted (dk_abs_dir (tc_thumbnails cs))" "is_rooted (dk_abs_dir (tc_originals cs))" "sane_ucd U"
    and "path_comps (dk_abs_dir (tc_thumbnails cs)) \<noteq> path_comps (dk_abs_dir (tc_originals cs))"
    and "\<forall>t\<in>T. wf_file_id t \<and> in_i64 (fid_mod_time t) \<and> in_i64 (fid_size t)" "inj_on md5_sum (fid_path ` T)"
  shows "separate_files U cs T"
  unfolding separate_files_def
proof (intro conjI inj_onI ballI allI)
  fix t u assume tu: "t \<in> T" "u \<in> T" and e: "thumbnail_file U cs t = thumbnail_file U cs u"
  have i: "in_i64 (fid_mod_time t)" "in_i64 (fid_mod_time u)" "in_i64 (fid_size t)" "in_i64 (fid_size u)"
    using assms(5) tu by blast+
  have "cache_filename U t = cache_filename U u"
    using e same_cache_file [OF assms(1,1,3)] unfolding thumbnail_file_def by blast
  then have f: "fid_mod_time t = fid_mod_time u" "fid_size t = fid_size u"
      "md5_sum (fid_path t) = md5_sum (fid_path u)"
    using cache_filename_inject [OF i] by blast+
  have "fid_path t = fid_path u" using f(3) assms(6) tu by (meson imageI inj_onD)
  moreover have "wf_file_id t" "wf_file_id u" using assms(5) tu by blast+
  ultimately show "t = u" using wf_file_id_eq [of t u] f by simp
next
  fix t f assume "t \<in> T"
  show "thumbnail_file U cs t \<noteq> original_file U cs f"
    using same_cache_file [OF assms(1,2,3)] assms(4) unfolding thumbnail_file_def original_file_def by blast
qed

lemma first_task_runs:
  assumes "make_task U threshold fmt fid tsize = Inr task" "tk_thumbnail_id task = t" "t \<in> T"
    and "fs (thumbnail_file U cs t) = None" "workers = 1"
  shows "\<exists>d. (thumbnail_step U cs threshold fmt T)\<^sup>*\<^sup>* (new_service_state workers fs) d \<and> q_running (ts_queue d) = [t]"
proof -
  let ?step = "thumbnail_step U cs threshold fmt T" and ?d = "new_service_state workers fs"
  have "?step ?d (?d\<lparr>ts_queue := set_call 0 (Missed (tk_thumbnail_id task)) (ts_queue ?d),
      ts_call_task := (ts_call_task ?d)(0 := task)\<rparr>)"
    by (rule thumbnail_step.missed) (use assms in \<open>simp_all add: new_service_state_def initial_queue_def\<close>)
  then obtain d1 where 1: "?step ?d d1" "ts_queue d1 = set_call 0 (Missed t) (initial_queue 1 {})"
    using assms(2,5) by (fastforce simp: new_service_state_def)
  have "?step d1 (d1\<lparr>ts_queue := set_call 0 (Sending t) ((ts_queue d1)\<lparr>q_in_progress := insert t (q_in_progress (ts_queue d1))\<rparr>),
      ts_tasks := (ts_tasks d1)(t := ts_call_task d1 0)\<rparr>)"
    by (rule thumbnail_step.first_call) (simp_all add: 1(2) initial_queue_def)
  then obtain d2 where 2: "?step d1 d2" "q_calls (ts_queue d2) 0 = Some (Sending t)" "q_panic (ts_queue d2) = None"
      "\<not> q_closed (ts_queue d2)" "q_tasks (ts_queue d2) = []" "q_idle (ts_queue d2) = 1" "q_running (ts_queue d2) = []"
    by (fastforce simp: 1(2) initial_queue_def)
  let ?q3 = "set_call 0 (Waiting t) ((ts_queue d2)\<lparr>q_tasks := q_tasks (ts_queue d2) @ [t]\<rparr>)"
  have "?step d2 (d2\<lparr>ts_queue := ?q3\<rparr>)"
    by (rule thumbnail_step.other [OF 2(3)], rule other_step.send_task [OF 2(2,4)]) (simp add: 2(5) queue_capacity_def)
  then obtain d3 where 3: "?step d2 d3" "q_tasks (ts_queue d3) = [t]" "q_idle (ts_queue d3) = 1" "q_running (ts_queue d3) = []"
      "q_panic (ts_queue d3) = None"
    using 2 by fastforce
  have "?step d3 (d3\<lparr>ts_queue := (ts_queue d3)\<lparr>q_tasks := [], q_idle := q_idle (ts_queue d3) - 1,
      q_running := t # q_running (ts_queue d3)\<rparr>\<rparr>)"
    by (rule thumbnail_step.other [OF 3(5)], rule other_step.take_task [OF 3(2)]) (simp add: 3(3))
  then obtain d4 where 4: "?step d3 d4" "q_running (ts_queue d4) = [t]" using 3(4) by fastforce
  have "?step\<^sup>*\<^sup>* ?d d4" using 1(1) 2(1) 3(1) 4(1) by (meson converse_rtranclp_into_rtranclp rtranclp.rtrancl_refl)
  then show ?thesis using 4(2) by blast
qed



end
