(* ===== verification/Config.thy ===== *)
theory Config
  imports Json Misc Thumbnails
begin

text \<open>
  rview/config.go and the levels of pkg/rlog: sizes in MiB, the enumerations, the checks that
  ParseConfig makes of the values the flag package has assigned, the build information, and
  the lines that Print writes. The flags themselves are in Flags.
\<close>

section \<open>Sizes\<close>

datatype config_error =
    InvalidSuffix
  | InvalidSize num_error
  | InvalidEnum "string list"
  | InvalidPort
  | EmptyTarget
  | EmptyDir
  | NoAbsolutePath

text \<open>A MiB value is an int; the shift of Bytes and the product of UnmarshalText wrap.\<close>

definition mib_bytes :: "int \<Rightarrow> int" where
  "mib_bytes mb = i64 (mb * 2 ^ 20)"

definition mib_string :: "int \<Rightarrow> string" where
  "mib_string mb =
     (if 1024 \<le> mb \<and> mb mod 1024 = 0 then format_int (mb div 1024) @ ''Gi''
      else format_int mb @ ''Mi'')"

definition unmarshal_mib :: "string \<Rightarrow> config_error + int" where
  "unmarshal_mib txt =
     (let mul = (if suffix ''Mi'' txt then Some 1 else if suffix ''Gi'' txt then Some 1024 else None)
      in case mul of
           None \<Rightarrow> Inl InvalidSuffix
         | Some m \<Rightarrow>
             (case parse_int (take (length txt - 2) txt) of
                Inl e \<Rightarrow> Inl (InvalidSize e)
              | Inr n \<Rightarrow> Inr (i64 (n * m))))"

text \<open>
  Reading a size back from its text gives the size, for every int; the text uses Gi
  exactly when the size is a positive whole number of GiB.
\<close>

lemma mib_roundtrip:
  assumes "in_i64 mb"
  shows "unmarshal_mib (mib_string mb) = Inr mb \<and> (suffix ''Gi'' (mib_string mb) \<longleftrightarrow> 0 < mb \<and> mb mod 1024 = 0)"
proof (cases "1024 \<le> mb \<and> mb mod 1024 = 0")
  case True
  have "in_i64 (mb div 1024)"
    by (rule in_i64_between [of 0 mb]) (use assms True in \<open>auto simp: in_i64_def min_int64_def max_int64_def\<close>)
  moreover have "mb div 1024 * 1024 = mb" using True div_mult_mod_eq [of mb 1024] by simp
  moreover have "\<not> suffix ''Mi'' (format_int (mb div 1024) @ ''Gi'')" "suffix ''Gi'' (format_int (mb div 1024) @ ''Gi'')"
    by (auto simp: suffix_def)
  moreover have "0 < mb" using True by simp
  ultimately show ?thesis using True assms
    by (simp add: unmarshal_mib_def mib_string_def parse_format_int)
next
  case False
  have "suffix ''Mi'' (format_int mb @ ''Mi'')" "\<not> suffix ''Gi'' (format_int mb @ ''Mi'')"
    by (auto simp: suffix_def)
  moreover have "\<not> (0 < mb \<and> mb mod 1024 = 0)"
    using False zdvd_imp_le [of 1024 mb] by (auto simp: mod_eq_0_iff_dvd)
  moreover have "mib_string mb = format_int mb @ ''Mi''" using False by (auto simp: mib_string_def)
  ultimately show ?thesis using assms by (simp add: unmarshal_mib_def parse_format_int)
qed

lemma mib_roundtrip_witness: "unmarshal_mib (mib_string 2048) = Inr 2048"
  using mib_roundtrip [of 2048] by (simp add: in_i64_def min_int64_def max_int64_def)

section \<open>Enumerations\<close>

definition check_enum :: "string \<Rightarrow> string list \<Rightarrow> config_error option" where
  "check_enum v valid = (if v \<in> set valid then None else Some (InvalidEnum valid))"

definition unmarshal_preview_mode :: "string \<Rightarrow> string \<times> config_error option" where
  "unmarshal_preview_mode txt = (txt, check_enum txt [''none'', ''original'', ''thumbnails''])"

definition unmarshal_thumbnails_format :: "string \<Rightarrow> string \<times> config_error option" where
  "unmarshal_thumbnails_format txt = (txt, check_enum txt [''jpeg'', ''avif''])"

section \<open>Levels\<close>

text \<open>The levels of log/slog, and which of the four loggers write at a level.\<close>

definition level_debug :: int where "level_debug = -4"
definition level_info :: int where "level_info = 0"
definition level_warn :: int where "level_warn = 4"
definition level_error :: int where "level_error = 8"

record loggers =
  lg_debug :: bool
  lg_info :: bool
  lg_warn :: bool
  lg_error :: bool

definition new_logger :: loggers where
  "new_logger = \<lparr>lg_debug = True, lg_info = True, lg_warn = True, lg_error = True\<rparr>"

definition set_level :: "int \<Rightarrow> loggers \<Rightarrow> loggers" where
  "set_level newLevel l =
     l\<lparr>lg_debug := newLevel \<le> level_debug, lg_info := newLevel \<le> level_info,
       lg_warn := newLevel \<le> level_warn, lg_error := newLevel \<le> level_error\<rparr>"

section \<open>The configuration\<close>

record build_info =
  bi_short_git_hash :: string
  bi_commit_time :: string

record rclone_config =
  rcf_url :: string
  rcf_target :: string
  rcf_port :: int
  rcf_dir_cache_ttl :: int
  rcf_request_real_mod_time :: bool

record config =
  cfg_build_info :: build_info
  cfg_server_port :: int
  cfg_dir :: string
  cfg_image_preview_mode :: string
  cfg_thumbnails_format :: string
  cfg_thumbnails_process_raw_files :: bool
  cfg_thumbnails_cache_size :: int
  cfg_original_image_cache_size :: int
  cfg_thumbnails_workers_count :: int
  cfg_rclone :: rclone_config
  cfg_log_level :: int
  cfg_read_static_files_from_disk :: bool

text \<open>The defaults of getFlagParams; durations are in nanoseconds.\<close>

definition default_config :: "build_info \<Rightarrow> int \<Rightarrow> config" where
  "default_config info numCPU =
     \<lparr>cfg_build_info = info, cfg_server_port = 8080, cfg_dir = ''./var'',
      cfg_image_preview_mode = ''thumbnails'', cfg_thumbnails_format = ''avif'',
      cfg_thumbnails_process_raw_files = False, cfg_thumbnails_cache_size = 500,
      cfg_original_image_cache_size = 300, cfg_thumbnails_workers_count = numCPU,
      cfg_rclone = \<lparr>rcf_url = [], rcf_target = [], rcf_port = 8181,
        rcf_dir_cache_ttl = 5 * 60 * 1000000000, rcf_request_real_mod_time = False\<rparr>,
      cfg_log_level = level_info, cfg_read_static_files_from_disk = False\<rparr>"

text \<open>filepath.Abs, from the working directory (None when it is not known).\<close>

definition abs_path :: "string option \<Rightarrow> string \<Rightarrow> string option" where
  "abs_path wd p =
     (if is_abs p then Some (path_clean p) else map_option (\<lambda>w. path_join [w, p]) wd)"

definition check_config :: "string option \<Rightarrow> config \<Rightarrow> config_error + config" where
  "check_config wd cfg =
     (if cfg_server_port cfg = 0 then Inl InvalidPort
      else if rcf_target (cfg_rclone cfg) = [] then Inl EmptyTarget
      else if cfg_dir cfg = [] then Inl EmptyDir
      else case abs_path wd (cfg_dir cfg) of
          None \<Rightarrow> Inl NoAbsolutePath
        | Some d \<Rightarrow> Inr (cfg\<lparr>cfg_dir := d\<rparr>))"

section \<open>Build information\<close>

fun apply_setting :: "string \<times> string \<Rightarrow> build_info \<Rightarrow> build_info" where
  "apply_setting (k, v) res =
     (if k = ''vcs.revision'' then res\<lparr>bi_short_git_hash := take 7 v\<rparr>
      else if k = ''vcs.time'' then
        (case parse_rfc3339 v of
           Some t \<Rightarrow> res\<lparr>bi_commit_time := format_datetime t @ '' UTC''\<rparr>
         | None \<Rightarrow> res)
      else res)"

definition read_build_info :: "(string \<times> string) list option \<Rightarrow> build_info" where
  "read_build_info settings =
     fold apply_setting (case settings of None \<Rightarrow> [] | Some kvs \<Rightarrow> kvs)
       \<lparr>bi_short_git_hash = ''unknown'', bi_commit_time = ''unknown''\<rparr>"

section \<open>Printing\<close>

text \<open>A flag's value as Print sees it: a plain string, or another value by its text.\<close>

datatype flag_value = PlainString string | OtherValue string

fun flag_text :: "flag_value \<Rightarrow> string" where
  "flag_text (PlainString s) = (if s = [] then [CHR 0x22, CHR 0x22] else s)"
| "flag_text (OtherValue s) = s"

definition pad_right :: "nat \<Rightarrow> string \<Rightarrow> string" where
  "pad_right w s = s @ replicate (w - length s) (CHR '' '')"

definition config_lines :: "(string \<times> flag_value) list \<Rightarrow> string list" where
  "config_lines flags =
     (let w = foldr (\<lambda>(name, _) m. max (length name) m) flags 0
      in map (\<lambda>(name, v). ''        --'' @ pad_right w name @ '' = '' @ flag_text v)
           (sort_key fst flags))"

section \<open>What a valid configuration guarantees\<close>

text \<open>
  What the other components take from ParseConfig: the directory is absolute and clean, so
  that the caches accept it, and rclone has a target. Nothing is required of the number of
  workers, and a negative port passes.
\<close>

lemma is_rooted_is_abs: "is_rooted p = is_abs p"
  by (cases p) (auto simp: is_rooted_def is_abs_def)

lemma path_join_rooted:
  assumes "is_rooted w"
  shows "is_rooted (path_join [w, p])" "path_clean (path_join [w, p]) = path_join [w, p]"
proof -
  have w: "w \<noteq> []" using assms by (auto simp: is_rooted_def)
  have j: "is_rooted (join_with ''/'' (w # (if p = [] then [] else [p])))"
    using assms by (cases w) (simp_all add: is_rooted_def)
  show "is_rooted (path_join [w, p])" "path_clean (path_join [w, p]) = path_join [w, p]"
    using w j is_rooted_path_clean by (simp_all add: path_join_def path_clean_idem split: if_splits)
qed

text \<open>
  A configuration that ParseConfig accepts has an absolute, clean directory, so that both
  disk caches can be made in it, and a target; every other value is as it was given, a
  negative port or no workers included.
\<close>

lemma accepted_config:
  assumes "check_config wd cfg = Inr cfg'" "pred_option is_rooted wd"
  shows "is_rooted (cfg_dir cfg') \<and> path_clean (cfg_dir cfg') = cfg_dir cfg'
    \<and> rcf_target (cfg_rclone cfg') \<noteq> [] \<and> cfg_server_port cfg' \<noteq> 0
    \<and> cfg' = cfg\<lparr>cfg_dir := cfg_dir cfg'\<rparr>
    \<and> \<not> isl (new_disk_cache name (path_join [cfg_dir cfg', sub]) False maxSize)"
proof -
  obtain d where d: "abs_path wd (cfg_dir cfg) = Some d" "cfg' = cfg\<lparr>cfg_dir := d\<rparr>"
    and ok: "cfg_server_port cfg \<noteq> 0" "rcf_target (cfg_rclone cfg) \<noteq> []"
    using assms(1) by (auto simp: check_config_def split: if_splits option.splits)
  have r: "is_rooted d \<and> path_clean d = d"
  proof (cases "is_abs (cfg_dir cfg)")
    case True
    then show ?thesis using d(1) by (auto simp: abs_path_def is_rooted_is_abs [symmetric] is_rooted_path_clean path_clean_idem)
  next
    case False
    then obtain w where w: "wd = Some w" "d = path_join [w, cfg_dir cfg]"
      using d(1) by (cases wd) (auto simp: abs_path_def)
    then show ?thesis using path_join_rooted assms(2) by simp
  qed
  then have "is_abs (path_join [d, sub])" using path_join_rooted(1) is_rooted_is_abs by metis
  then show ?thesis using r d(2) ok by (simp add: new_disk_cache_def new_cleaner_def)
qed

lemma accepted_config_witness:
  "\<exists>cfg'. check_config (Some ''/srv'') ((default_config (read_build_info None) 0)
      \<lparr>cfg_rclone := \<lparr>rcf_url = [], rcf_target = ''remote:'', rcf_port = 8181, rcf_dir_cache_ttl = 0,
        rcf_request_real_mod_time = False\<rparr>, cfg_server_port := -1\<rparr>) = Inr cfg'
    \<and> is_rooted (cfg_dir cfg') \<and> cfg_server_port cfg' = -1 \<and> cfg_thumbnails_workers_count cfg' = 0"
proof -
  let ?cfg = "(default_config (read_build_info None) 0)
      \<lparr>cfg_rclone := \<lparr>rcf_url = [], rcf_target = ''remote:'', rcf_port = 8181, rcf_dir_cache_ttl = 0,
        rcf_request_real_mod_time = False\<rparr>, cfg_server_port := -1\<rparr>"
  obtain cfg' where c: "check_config (Some ''/srv'') ?cfg = Inr cfg'"
    by (simp add: check_config_def default_config_def abs_path_def is_abs_def)
  have "is_rooted (cfg_dir cfg') \<and> cfg' = ?cfg\<lparr>cfg_dir := cfg_dir cfg'\<rparr>"
    using accepted_config [OF c, of "[]" "[]" 0] by (auto simp: is_rooted_def)
  moreover from this have "cfg_server_port cfg' = cfg_server_port ?cfg"
      "cfg_thumbnails_workers_count cfg' = cfg_thumbnails_workers_count ?cfg"
    by (metis config.select_convs(2) config.surjective config.update_convs(3), metis config.select_convs(9) config.surjective config.update_convs(3))
  ultimately show ?thesis using c by (simp add: default_config_def)
qed

end
