(* ===== verification/Web.thy ===== *)
theory Web
  imports Config SearchService Icons
begin

text \<open>
  web/web.go and web/models.go: URLs of files, listings for the UI and the handlers of the
  server. A handler is a function of the request and of what the services answer; its result
  is the response. The templates are not modelled: a page is the name of its template and
  its data, and whether its execution succeeds is a parameter.
\<close>

section \<open>Requests and file identifiers\<close>

text \<open>The decoded path of a request, and the first value of each form key.\<close>

record web_request =
  wq_path :: string
  wq_form :: "(string \<times> string) list"

definition form_value :: "web_request \<Rightarrow> string \<Rightarrow> string" where
  "form_value r key = (case map_of (wq_form r) key of Some v \<Rightarrow> v | None \<Rightarrow> [])"

text \<open>
  How the server reads the target of a request (net/http, url.ParseQuery): pairs that do not
  decode are left out.
\<close>

definition parse_pair :: "string \<Rightarrow> (string \<times> string) option" where
  "parse_pair s =
     (if s = [] \<or> CHR '';'' \<in> set s then None
      else case (url_unescape EncQuery (takeWhile (\<lambda>c. c \<noteq> CHR ''='') s),
                 url_unescape EncQuery (cut_after (CHR ''='') s)) of
          (Some k, Some v) \<Rightarrow> Some (k, v)
        | _ \<Rightarrow> None)"

definition parse_query :: "string \<Rightarrow> (string \<times> string) list" where
  "parse_query q = List.map_filter parse_pair (split_on (CHR ''&'') q)"

definition parse_request_target :: "string \<Rightarrow> web_request option" where
  "parse_request_target t =
     map_option (\<lambda>p. \<lparr>wq_path = p, wq_form = parse_query (cut_after (CHR ''?'') t)\<rparr>)
       (url_unescape EncPath (takeWhile (\<lambda>c. c \<noteq> CHR ''?'') t))"

definition file_query :: "file_id \<Rightarrow> string" where
  "file_query fid =
     ''mod_time='' @ url_escape EncQuery (format_int (fid_mod_time fid)) @
     ''&size='' @ url_escape EncQuery (format_int (fid_size fid))"

definition file_id_to_url :: "string \<Rightarrow> file_id \<Rightarrow> string" where
  "file_id_to_url base fid =
     url_string ((join_path (parse_path_url base) [get_escaped_path fid])\<lparr>u_raw_query := file_query fid\<rparr>)"

datatype request_error =
    EmptyFilepath
  | InvalidModTimeParam num_error
  | InvalidSizeParam num_error
  | InvalidThumbnailSizeParam string
  | SearchTooShort nat
  | InvalidLimit num_error

definition file_id_from_request :: "web_request \<Rightarrow> string \<Rightarrow> request_error + file_id" where
  "file_id_from_request r endpoint =
     (let path = trim_prefix (wq_path r) endpoint
      in if path = [] then Inl EmptyFilepath
         else case parse_int (form_value r ''mod_time'') of
             Inl e \<Rightarrow> Inl (InvalidModTimeParam e)
           | Inr modTime \<Rightarrow>
               (case parse_int (form_value r ''size'') of
                  Inl e \<Rightarrow> Inl (InvalidSizeParam e)
                | Inr sz \<Rightarrow> Inr (new_file_id path modTime sz)))"

section \<open>Listings\<close>

record web_breadcrumb =
  wb_link :: string
  wb_text :: string

record web_entry =
  we_filename :: string
  we_is_dir :: bool
  we_size :: int
  we_human_readable_size :: string
  we_mod_time :: int
  we_human_readable_mod_time :: string
  we_file_type :: file_type
  we_can_preview :: bool
  we_dir_url :: string
  we_web_dir_url :: string
  we_original_file_url :: string
  we_thumbnail_url :: string
  we_icon_name :: string

record web_dir_info =
  wd_sort :: string
  wd_order :: string
  wd_dir :: string
  wd_breadcrumbs :: "web_breadcrumb list"
  wd_entries :: "web_entry list"
  wd_dir_count :: nat
  wd_file_count :: nat
  wd_total_file_size :: int
  wd_is_not_found :: bool
  wd_search :: string

text \<open>The breadcrumbs, from the last to the first, each with the parent of the URL before.\<close>

fun breadcrumb_loop :: "url \<Rightarrow> string list \<Rightarrow> web_breadcrumb list" where
  "breadcrumb_loop u [] = []"
| "breadcrumb_loop u (txt # txts) =
     \<lparr>wb_link = ensure_suffix (url_string u) ''/'', wb_text = (if txt = ''/'' then ''Home'' else txt)\<rparr>
     # breadcrumb_loop (join_path u [''..'']) txts"

definition convert_breadcrumbs :: "dir_info \<Rightarrow> web_breadcrumb list" where
  "convert_breadcrumbs info =
     rev (breadcrumb_loop (join_path (parse_path_url ''/ui'') [di_dir info]) (rev (di_breadcrumbs info)))"

text \<open>What can be shown of a file, and the URL of its thumbnail; \<open>can\<close> is CanGenerateThumbnail.\<close>

definition file_preview :: "ucd \<Rightarrow> string \<Rightarrow> (file_id \<Rightarrow> bool) \<Rightarrow> file_id \<Rightarrow> bool \<times> string" where
  "file_preview U mode can fid =
     (let ext = get_ext U fid; ft = get_file_type ext
      in if ft = FTText then (True, [])
         else if ft = FTImage \<or> ft = FTRawImage then
           let thumb = (if mode = ''original'' then if ft = FTRawImage then [] else file_id_to_url ''/api/file'' fid
                        else if mode = ''thumbnails'' then if can fid then file_id_to_url ''/api/thumbnail'' fid else []
                        else [])
           in (thumb \<noteq> [], thumb)
         else if ft = FTAudio then (ext \<in> {''.mp3'', ''.ogg'', ''.wav''}, [])
         else if ft = FTVideo then (ext \<in> {''.mp4'', ''.webm''}, [])
         else (False, []))"

definition convert_entry :: "ucd \<Rightarrow> string \<Rightarrow> (file_id \<Rightarrow> bool) \<Rightarrow> dir_entry \<Rightarrow> panic + web_entry" where
  "convert_entry U mode can e =
     (let filename = path_clean (de_leaf e);
          base = \<lparr>we_filename = filename, we_is_dir = de_is_dir e, we_size = de_size e,
                  we_human_readable_size = [], we_mod_time = de_mod_time e,
                  we_human_readable_mod_time = format_mod_time (de_mod_time e), we_file_type = FTUnknown,
                  we_can_preview = False, we_dir_url = [], we_web_dir_url = [], we_original_file_url = [],
                  we_thumbnail_url = [], we_icon_name = get_file_icon U filename (de_is_dir e)\<rparr>
      in if de_is_dir e then
           Inr (base\<lparr>we_dir_url := url_string (join_path (parse_path_url ''/api/dir'') [de_url e, ''/'']),
                     we_web_dir_url := url_string (join_path (parse_path_url ''/ui'') [de_url e, ''/''])\<rparr>)
         else
           let fid = new_file_id (de_url e) (de_mod_time e) (de_size e) in
           (case format_file_size (de_size e) of
              Inl p \<Rightarrow> Inl p
            | Inr txt \<Rightarrow>
                Inr (base\<lparr>we_original_file_url := file_id_to_url ''/api/file'' fid,
                          we_human_readable_size := txt, we_file_type := get_file_type (get_ext U fid),
                          we_can_preview := fst (file_preview U mode can fid),
                          we_thumbnail_url := snd (file_preview U mode can fid)\<rparr>)))"

fun convert_entries :: "ucd \<Rightarrow> string \<Rightarrow> (file_id \<Rightarrow> bool) \<Rightarrow> dir_entry list \<Rightarrow> web_dir_info \<Rightarrow> panic + web_dir_info" where
  "convert_entries U mode can [] info = Inr info"
| "convert_entries U mode can (e # es) info =
     (case convert_entry U mode can e of
        Inl p \<Rightarrow> Inl p
      | Inr w \<Rightarrow>
          let info = info\<lparr>wd_entries := wd_entries info @ [w]\<rparr> in
          convert_entries U mode can es
            (if de_is_dir e then info\<lparr>wd_dir_count := wd_dir_count info + 1\<rparr>
             else info\<lparr>wd_file_count := wd_file_count info + 1,
                       wd_total_file_size := i64 (wd_total_file_size info + de_size e)\<rparr>))"

definition convert_rclone_info :: "ucd \<Rightarrow> string \<Rightarrow> (file_id \<Rightarrow> bool) \<Rightarrow> dir_info \<Rightarrow> panic + web_dir_info" where
  "convert_rclone_info U mode can info =
     convert_entries U mode can (di_entries info)
       \<lparr>wd_sort = di_sort info, wd_order = di_order info, wd_dir = di_dir info,
        wd_breadcrumbs = convert_breadcrumbs info, wd_entries = [], wd_dir_count = 0, wd_file_count = 0,
        wd_total_file_size = 0, wd_is_not_found = False, wd_search = []\<rparr>"

text \<open>What the handlers use of the services.\<close>

record server =
  sr_ucd :: ucd
  sr_sort :: "(dir_entry \<Rightarrow> dir_entry \<Rightarrow> int) \<Rightarrow> dir_entry list \<Rightarrow> dir_entry list"
  sr_mode :: string
  sr_rclone_env :: rclone_env
  sr_can_generate :: "file_id \<Rightarrow> bool"
  sr_render :: "string \<Rightarrow> web_dir_info \<Rightarrow> bool"

definition clean_dir :: "string \<Rightarrow> string" where
  "clean_dir dir =
     (let d = path_clean dir; d = (if d = ''.'' then ''/'' else d)
      in ensure_suffix (ensure_prefix d ''/'') ''/'')"

definition missing_dir :: "string \<Rightarrow> dir_info" where
  "missing_dir dir =
     \<lparr>di_dir = dir, di_sort = [], di_order = [], di_breadcrumbs = [''/'', ''???''], di_entries = []\<rparr>"

datatype dir_error = DirRclone rclone_error | DirPanic panic

definition web_get_dir_info :: "server \<Rightarrow> rclone \<Rightarrow> string \<Rightarrow> web_request \<Rightarrow> int \<Rightarrow> int \<Rightarrow>
    (dir_error + web_dir_info) \<times> rclone" where
  "web_get_dir_info sv r dir req now later =
     (let dir = clean_dir dir;
          convert = (\<lambda>info missing.
            case convert_rclone_info (sr_ucd sv) (sr_mode sv) (sr_can_generate sv) info of
              Inl p \<Rightarrow> Inl (DirPanic p)
            | Inr w \<Rightarrow> Inr (w\<lparr>wd_is_not_found := missing\<rparr>))
      in case get_dir_info (sr_ucd sv) (sr_sort sv) (sr_rclone_env sv) r dir
            (form_value req ''sort'') (form_value req ''order'') now later of
           (Inr info, r') \<Rightarrow> (convert info False, r')
         | (Inl e, r') \<Rightarrow>
             if is_not_found_error (Some e) then (convert (missing_dir dir) True, r')
             else (Inl (DirRclone e), r'))"

section \<open>Responses\<close>

record web_search_hit =
  ws_path :: string
  ws_is_dir :: bool
  ws_size :: int
  ws_mod_time :: int
  ws_score :: enat
  ws_web_url :: string
  ws_icon :: string

record search_response =
  sp_search :: string
  sp_hits :: "web_search_hit list"
  sp_total :: nat

datatype web_body =
    NoBody
  | BadRequest request_error
  | NotFoundBody string
  | InternalError
  | ThumbnailNotOpened
  | DirJson web_dir_info
  | DirPage string web_dir_info
  | SearchJson search_response
  | SearchPage string search_response
  | FileContent string
  | Proxied proxy_result

record web_response =
  wr_status :: nat
  wr_headers :: "(string \<times> string) list"
  wr_body :: web_body

definition respond :: "nat \<Rightarrow> web_body \<Rightarrow> web_response" where
  "respond code body = \<lparr>wr_status = code, wr_headers = [], wr_body = body\<rparr>"

text \<open>
  json.Encoder writes nothing when a value cannot be encoded, and a time outside of the years
  0 to 9999 cannot: the status is 200 then, because the error is not looked at.
\<close>

definition json_time_ok :: "int \<Rightarrow> bool" where
  "json_time_ok t \<longleftrightarrow> (let y = fst (civil_of_days (t div 86400)) in 0 \<le> y \<and> y \<le> 9999)"

definition encode_dir_info :: "web_dir_info \<Rightarrow> web_body" where
  "encode_dir_info info =
     (if list_all (\<lambda>e. json_time_ok (we_mod_time e)) (wd_entries info) then DirJson info else NoBody)"

text \<open>executeTemplate writes to a buffer first, so that an error gives a response of its own.\<close>

definition execute_template :: "bool \<Rightarrow> web_body \<Rightarrow> web_response" where
  "execute_template ok page = (if ok then respond 200 page else respond 500 InternalError)"

text \<open>A handler that panics closes the connection: there is no response.\<close>

definition handle_dir :: "server \<Rightarrow> rclone \<Rightarrow> web_request \<Rightarrow> int \<Rightarrow> int \<Rightarrow> (panic + web_response) \<times> rclone" where
  "handle_dir sv r req now later =
     (let dir = trim_prefix (wq_path req) ''/api/dir/''
      in case web_get_dir_info sv r dir req now later of
           (Inl (DirPanic p), r') \<Rightarrow> (Inl p, r')
         | (Inl (DirRclone (RclonePanic p)), r') \<Rightarrow> (Inl p, r')
         | (Inl (DirRclone e), r') \<Rightarrow> (Inr (respond 500 InternalError), r')
         | (Inr info, r') \<Rightarrow>
             (Inr (if wd_is_not_found info then respond 404 (NotFoundBody dir) else respond 200 (encode_dir_info info)), r'))"

definition handle_ui :: "server \<Rightarrow> rclone \<Rightarrow> web_request \<Rightarrow> int \<Rightarrow> int \<Rightarrow> (panic + web_response) \<times> rclone" where
  "handle_ui sv r req now later =
     (let dir = ensure_suffix (trim_prefix (wq_path req) ''/ui'') ''/''
      in case web_get_dir_info sv r dir req now later of
           (Inl (DirPanic p), r') \<Rightarrow> (Inl p, r')
         | (Inl (DirRclone (RclonePanic p)), r') \<Rightarrow> (Inl p, r')
         | (Inl (DirRclone e), r') \<Rightarrow> (Inr (respond 500 InternalError), r')
         | (Inr info, r') \<Rightarrow>
             (Inr (execute_template (sr_render sv ''index.html'' info) (DirPage ''index.html'' info)), r'))"

definition handle_file :: "transport \<Rightarrow> rclone \<Rightarrow> web_request \<Rightarrow> string option \<Rightarrow> web_response" where
  "handle_file http r req rng =
     (case file_id_from_request req ''/api/file'' of
        Inl e \<Rightarrow> respond 400 (BadRequest e)
      | Inr fid \<Rightarrow>
          (let res = proxy_file_request http r fid rng
           in respond (case res of ProxyResponse resp \<Rightarrow> rs_status resp | ProxyError _ \<Rightarrow> 500) (Proxied res)))"

text \<open>
  setCacheHeaders. The expiry time is printed with the layout of HTTP times, which says GMT,
  from the local time: \<open>off\<close> is the offset of the local time zone.
\<close>

definition set_cache_headers :: "(int \<Rightarrow> int) \<Rightarrow> int \<Rightarrow> int \<Rightarrow> string \<Rightarrow> (string \<times> string) list" where
  "set_cache_headers off now maxAge etag =
     [(''Expires'', format_http_time (now + maxAge + off (now + maxAge))),
      (''Cache-Control'', ''private, max-age='' @ format_int maxAge),
      (''ETag'', CHR 0x22 # etag @ [CHR 0x22])]"

definition thumbnail_size_param :: "string \<Rightarrow> request_error + string" where
  "thumbnail_size_param v =
     (if v = ''small'' then Inr ''small''
      else if v = ''medium'' \<or> v = [] then Inr ''medium''
      else if v = ''large'' then Inr ''large''
      else Inl (InvalidThumbnailSizeParam v))"

text \<open>\<open>openThumb\<close> is OpenThumbnail of the service: the content and its type, or an error.\<close>

definition handle_thumbnail ::
    "(file_id \<Rightarrow> string \<Rightarrow> thumbnail_error + string \<times> string) \<Rightarrow> (int \<Rightarrow> int) \<Rightarrow> int \<Rightarrow> web_request \<Rightarrow> web_response" where
  "handle_thumbnail openThumb off now req =
     (case file_id_from_request req ''/api/thumbnail'' of
        Inl e \<Rightarrow> respond 400 (BadRequest e)
      | Inr fid \<Rightarrow>
          (case thumbnail_size_param (form_value req ''thumbnail_size'') of
             Inl e \<Rightarrow> respond 400 (BadRequest e)
           | Inr tsize \<Rightarrow>
               (case openThumb fid tsize of
                  Inl e \<Rightarrow>
                    if e = FromCache CacheMiss then respond 404 (NotFoundBody (fid_path fid))
                    else respond 400 ThumbnailNotOpened
                | Inr (content, contentType) \<Rightarrow>
                    \<lparr>wr_status = 200,
                     wr_headers = (if contentType = [] then [] else [(''Content-Type'', contentType)]) @
                       set_cache_headers off now (30 * 24 * 3600) (format_int (fid_mod_time fid)),
                     wr_body = FileContent content\<rparr>)))"

definition extract_search :: "search_service \<Rightarrow> web_request \<Rightarrow> request_error + string" where
  "extract_search st req =
     (let search = form_value req ''search''; minLen = get_min_search_length st
      in if length (runes search) < minLen then Inl (SearchTooShort minLen) else Inr search)"

definition hit_url :: "hit \<Rightarrow> string" where
  "hit_url h =
     (if hit_is_dir h then url_string (join_path (parse_path_url ''/ui'') [hit_path h, ''/''])
      else
        let u = join_path (parse_path_url ''/ui'') [path_dir (hit_path h), ''/'']
        in url_string (u\<lparr>u_raw_query := ''preview='' @ url_escape EncQuery (path_base (hit_path h))\<rparr>))"

definition search_hit_of :: "ucd \<Rightarrow> hit \<Rightarrow> web_search_hit" where
  "search_hit_of U h =
     \<lparr>ws_path = hit_path h, ws_is_dir = hit_is_dir h, ws_size = hit_size h, ws_mod_time = hit_mod_time h,
      ws_score = hit_score h, ws_web_url = hit_url h, ws_icon = get_file_icon U (hit_path h) (hit_is_dir h)\<rparr>"

text \<open>
  json.Encoder writes nothing when a value cannot be encoded, and a score of +Inf cannot:
  the status is already implied to be 200 and the error is not looked at.
\<close>

definition encode_search_response :: "search_response \<Rightarrow> web_body" where
  "encode_search_response resp =
     (if list_ex (\<lambda>h. ws_score h = \<infinity>) (sp_hits resp) then NoBody else SearchJson resp)"

definition handle_search :: "ucd \<Rightarrow> (string \<Rightarrow> search_response \<Rightarrow> bool) \<Rightarrow> (u32 set \<Rightarrow> u32 list) \<Rightarrow> ((hit \<Rightarrow> hit \<Rightarrow> int) \<Rightarrow> hit list \<Rightarrow> hit list) \<Rightarrow>
    search_service \<Rightarrow> web_request \<Rightarrow> panic + web_response" where
  "handle_search U render iter sortf st req =
     (case extract_search st req of
        Inl e \<Rightarrow> Inr (respond 400 (BadRequest e))
      | Inr search \<Rightarrow>
          (case parse_int (form_value req ''limit'') of
             Inl e \<Rightarrow> Inr (respond 400 (BadRequest (InvalidLimit e)))
           | Inr limit \<Rightarrow>
               (case service_search U iter sortf st search limit of
                  Inl _ \<Rightarrow> Inr (respond 500 InternalError)
                | Inr (Inl p) \<Rightarrow> Inl p
                | Inr (Inr (hits, n)) \<Rightarrow>
                    let resp = \<lparr>sp_search = search, sp_hits = map (search_hit_of U) hits, sp_total = n\<rparr>
                    in Inr (if form_value req ''ui'' \<noteq> [] then
                              if hits = [] then respond 204 NoBody
                              else execute_template (render ''search-results.html'' resp) (SearchPage ''search-results.html'' resp)
                            else respond 200 (encode_search_response resp)))))"

text \<open>A limit that is missing, not a number or 0 is 100 on the page of results.\<close>

definition page_limit :: "string \<Rightarrow> int" where
  "page_limit s = (let n = snd (parse_int_result s) in if n = 0 then 100 else n)"

definition results_dir :: "hit list \<Rightarrow> dir_info" where
  "results_dir hits =
     \<lparr>di_dir = ''Search Results'', di_sort = [], di_order = [], di_breadcrumbs = [''/'', ''Search Results''],
      di_entries = map (\<lambda>h. \<lparr>de_url = hit_path h, de_leaf = hit_path h, de_is_dir = hit_is_dir h,
        de_size = hit_size h, de_mod_time = hit_mod_time h\<rparr>) hits\<rparr>"

definition handle_page_with_search_results :: "server \<Rightarrow> (u32 set \<Rightarrow> u32 list) \<Rightarrow>
    ((hit \<Rightarrow> hit \<Rightarrow> int) \<Rightarrow> hit list \<Rightarrow> hit list) \<Rightarrow> search_service \<Rightarrow> web_request \<Rightarrow> panic + web_response" where
  "handle_page_with_search_results sv iter sortf st req =
     (case extract_search st req of
        Inl e \<Rightarrow> Inr (respond 400 (BadRequest e))
      | Inr search \<Rightarrow>
          (case service_search (sr_ucd sv) iter sortf st search (page_limit (form_value req ''limit'')) of
             Inl _ \<Rightarrow> Inr (respond 500 InternalError)
           | Inr (Inl p) \<Rightarrow> Inl p
           | Inr (Inr (hits, n)) \<Rightarrow>
               (case convert_rclone_info (sr_ucd sv) (sr_mode sv) (sr_can_generate sv) (results_dir hits) of
                  Inl p \<Rightarrow> Inl p
                | Inr info \<Rightarrow>
                    let page = info\<lparr>wd_search := search\<rparr>
                    in Inr (execute_template (sr_render sv ''index.html'' page) (DirPage ''index.html'' page)))))"

definition handle_refresh_index :: "ucd \<Rightarrow> attempt \<Rightarrow> search_service \<Rightarrow> web_response \<times> search_service" where
  "handle_refresh_index U a st =
     (case refresh_index U a st of
        (Some _, st') \<Rightarrow> (respond 500 InternalError, st')
      | (None, st') \<Rightarrow> (respond 200 NoBody, st'))"

end
