(* ===== verification/Routes.thy ===== *)
theory Routes
  imports Web
begin

text \<open>
  The routes of NewServer and how http.ServeMux chooses among them, loggingMiddleware with its
  responseWriter (web/middlewares.go), and the functions that the templates call.
\<close>

section \<open>The routes\<close>

datatype handler =
    Root
  | UI
  | PageWithSearchResults
  | StaticFiles string
  | Dir
  | File
  | Thumbnail
  | SearchApi
  | RefreshIndexApi
  | Metrics
  | Pprof string

text \<open>
  A pattern: its method, its path elements, whether it ends with a slash, which makes it a
  pattern for everything below, and its handler.
\<close>

record route_pattern =
  rp_method :: string
  rp_elems :: "string list"
  rp_below :: bool
  rp_handler :: handler

definition static_dirs :: "string list" where
  "static_dirs = [''icons'', ''css'', ''js'', ''pwa'']"

definition get_below :: "string list \<Rightarrow> handler \<Rightarrow> route_pattern" where
  "get_below elems h = \<lparr>rp_method = ''GET'', rp_elems = elems, rp_below = True, rp_handler = h\<rparr>"

definition get_exact :: "string list \<Rightarrow> handler \<Rightarrow> route_pattern" where
  "get_exact elems h = \<lparr>rp_method = ''GET'', rp_elems = elems, rp_below = False, rp_handler = h\<rparr>"

definition route_patterns :: "route_pattern list" where
  "route_patterns =
     [get_below [] Root, get_below [''ui''] UI, get_exact [''ui-search''] PageWithSearchResults] @
     map (\<lambda>d. get_below [''static'', d] (StaticFiles d)) static_dirs @
     [get_below [''api'', ''dir''] Dir, get_below [''api'', ''file''] File,
      get_below [''api'', ''thumbnail''] Thumbnail, get_exact [''api'', ''search''] SearchApi,
      \<lparr>rp_method = ''POST'', rp_elems = [''api'', ''search'', ''refresh-index''], rp_below = False,
       rp_handler = RefreshIndexApi\<rparr>,
      get_exact [''debug'', ''metrics''] Metrics, get_below [''debug'', ''pprof''] (Pprof ''index'')] @
     map (\<lambda>n. get_exact [''debug'', ''pprof'', n] (Pprof n)) [''cmdline'', ''profile'', ''symbol'', ''trace'']"

section \<open>http.ServeMux\<close>

text \<open>The elements of an escaped path, decoded where that is possible; a last slash gives an empty one.\<close>

definition mux_elem :: "string \<Rightarrow> string" where
  "mux_elem s = (case url_unescape EncPathSegment s of Some d \<Rightarrow> d | None \<Rightarrow> s)"

definition mux_elems :: "string \<Rightarrow> string list" where
  "mux_elems path = map mux_elem (split_on slash (tl path))"

definition pattern_matches :: "route_pattern \<Rightarrow> string list \<Rightarrow> bool" where
  "pattern_matches p elems \<longleftrightarrow>
     (if rp_below p then prefix (rp_elems p) elems \<and> length (rp_elems p) < length elems
      else rp_elems p = elems)"

text \<open>The most specific pattern that matches is the one with the most elements.\<close>

fun best_pattern :: "route_pattern list \<Rightarrow> route_pattern option" where
  "best_pattern [] = None"
| "best_pattern (p # ps) =
     (case best_pattern ps of
        None \<Rightarrow> Some p
      | Some q \<Rightarrow> if length (rp_elems p) < length (rp_elems q) then Some q else Some p)"

definition candidates :: "string \<Rightarrow> string \<Rightarrow> route_pattern list" where
  "candidates m path = filter (\<lambda>p. rp_method p = m \<and> pattern_matches p (mux_elems path)) route_patterns"

text \<open>Patterns for GET also match HEAD.\<close>

definition mux_match :: "string \<Rightarrow> string \<Rightarrow> route_pattern option" where
  "mux_match m path =
     (case best_pattern (candidates m path) of
        Some p \<Rightarrow> Some p
      | None \<Rightarrow> if m = ''HEAD'' then best_pattern (candidates ''GET'' path) else None)"

definition exact_match :: "route_pattern option \<Rightarrow> string \<Rightarrow> bool" where
  "exact_match p path =
     (case p of
        None \<Rightarrow> False
      | Some p \<Rightarrow>
          \<not> rp_below p \<or> suffix ''/'' path \<and> length (rp_elems p) + 1 = count_list path slash)"

text \<open>cleanPath of net/http keeps the last slash.\<close>

definition mux_clean_path :: "string \<Rightarrow> string" where
  "mux_clean_path p =
     (if p = [] then ''/''
      else
        let p = (if is_rooted p then p else slash # p); np = path_clean p
        in if suffix ''/'' p \<and> np \<noteq> ''/'' then np @ ''/'' else np)"

datatype route = Redirected string | Served handler | MethodNotAllowed | NoRoute

text \<open>A request is given by its method and the path of its target, still encoded.\<close>

definition route_request :: "string \<Rightarrow> string \<Rightarrow> route option" where
  "route_request m target =
     map_option (\<lambda>u.
       let escaped = escaped_path u; path = mux_clean_path escaped; p = mux_match m path
       in if \<not> exact_match p path \<and> \<not> suffix ''/'' path \<and> exact_match (mux_match m (path @ ''/'')) (path @ ''/'')
          then Redirected (mux_clean_path (u_path u) @ ''/'')
          else if path \<noteq> escaped then Redirected path
          else case p of
              Some p \<Rightarrow> Served (rp_handler p)
            | None \<Rightarrow>
                if list_ex (\<lambda>p. pattern_matches p (mux_elems path)) route_patterns then MethodNotAllowed
                else NoRoute)
       (set_path (parse_path_url []) target)"

text \<open>The handler of "/" serves nothing but the path "/" itself.\<close>

definition handle_root :: "web_request \<Rightarrow> web_response" where
  "handle_root req =
     (if wq_path req \<noteq> ''/'' then respond 404 (NotFoundBody (wq_path req))
      else \<lparr>wr_status = 303, wr_headers = [(''Location'', ''/ui/'')], wr_body = NoBody\<rparr>)"

text \<open>Static files have cache headers unless they are read from disk; their ETag is the commit.\<close>

definition static_headers :: "(int \<Rightarrow> int) \<Rightarrow> int \<Rightarrow> config \<Rightarrow> (string \<times> string) list" where
  "static_headers off now cfg =
     (if cfg_read_static_files_from_disk cfg then []
      else set_cache_headers off now (30 * 24 * 3600) (bi_short_git_hash (cfg_build_info cfg)))"

section \<open>Logging\<close>

definition path_label :: "string \<Rightarrow> string" where
  "path_label path =
     (case find (\<lambda>p. prefix p path) [''/static/'', ''/ui/'', ''/api/dir/'', ''/api/file/'', ''/api/thumbnail/''] of
        Some p \<Rightarrow> p @ ''*''
      | None \<Rightarrow> path)"

definition not_logged :: "string \<Rightarrow> bool" where
  "not_logged path \<longleftrightarrow> path = ''/favicon.ico'' \<or> prefix ''/debug'' path"

text \<open>The writer records what goes through it; \<open>rw_sent\<close> is what the inner writer was given.\<close>

datatype write_op = WriteHeader nat | WriteData string

record response_writer =
  rw_status_code :: nat
  rw_canceled :: bool
  rw_header_written :: bool
  rw_err_msg :: string
  rw_sent :: "write_op list"

definition new_response_writer :: response_writer where
  "new_response_writer =
     \<lparr>rw_status_code = 0, rw_canceled = False, rw_header_written = False, rw_err_msg = [], rw_sent = []\<rparr>"

definition rw_write_header :: "bool \<Rightarrow> nat \<Rightarrow> response_writer \<Rightarrow> response_writer" where
  "rw_write_header ctx_done code rw =
     (let rw = (if \<not> rw_header_written rw
                then rw\<lparr>rw_canceled := rw_canceled rw \<or> ctx_done, rw_sent := rw_sent rw @ [WriteHeader code]\<rparr>
                else rw)
      in rw\<lparr>rw_status_code := code, rw_header_written := True\<rparr>)"

definition rw_write :: "bool \<Rightarrow> string \<Rightarrow> response_writer \<Rightarrow> response_writer" where
  "rw_write ctx_done d rw =
     (let rw = (if \<not> rw_header_written rw then rw_write_header ctx_done 200 rw else rw);
          rw = (if 500 \<le> rw_status_code rw then rw\<lparr>rw_err_msg := rw_err_msg rw @ d\<rparr> else rw)
      in rw\<lparr>rw_sent := rw_sent rw @ [WriteData d]\<rparr>)"

fun rw_step :: "bool \<times> write_op \<Rightarrow> response_writer \<Rightarrow> response_writer" where
  "rw_step (ctx_done, WriteHeader code) rw = rw_write_header ctx_done code rw"
| "rw_step (ctx_done, WriteData d) rw = rw_write ctx_done d rw"

record request_log =
  lo_error :: "(nat \<times> string) option"
  lo_status_label :: string
  lo_path_label :: string

text \<open>The metrics and the log line of a request, from the writes of its handler.\<close>

definition logging_middleware :: "string \<Rightarrow> (bool \<times> write_op) list \<Rightarrow> request_log option \<times> write_op list" where
  "logging_middleware path ops =
     (if not_logged path then (None, map snd ops)
      else
        let rw = fold rw_step ops new_response_writer
        in (Some \<lparr>lo_error = (if \<not> rw_canceled rw \<and> rw_err_msg rw \<noteq> [] then Some (rw_status_code rw, rw_err_msg rw) else None),
                  lo_status_label = format_nat (if rw_canceled rw then 499 else rw_status_code rw),
                  lo_path_label = path_label path\<rparr>,
            rw_sent rw))"

section \<open>Functions of the templates\<close>

text \<open>The bytes of the ellipsis and of the word joiner in UTF-8.\<close>

definition ellipsis :: string where "ellipsis = [CHR 0xE2, CHR 0x80, CHR 0xA6]"
definition word_joiner :: string where "word_joiner = [CHR 0xE2, CHR 0x81, CHR 0xA0]"

definition trim_text :: "string \<Rightarrow> nat \<Rightarrow> string" where
  "trim_text s maxSize =
     (let rs = runes s in if maxSize < length rs then string_of_runes (take maxSize rs) @ ellipsis else s)"

definition format_filename :: "string \<Rightarrow> string" where
  "format_filename s = (if prefix ''/'' s then ''/'' @ word_joiner @ tl s else s)"

definition prepare_static_link :: "bool \<Rightarrow> string \<Rightarrow> string \<Rightarrow> string \<Rightarrow> string" where
  "prepare_static_link from_disk random gitHash path =
     (let hash = (if from_disk then ''from-disk-'' @ hex_encode random else gitHash)
      in url_string ((parse_path_url path)\<lparr>u_raw_query := ''hash='' @ url_escape EncQuery hash\<rparr>))"

definition icon_file :: "string \<Rightarrow> string \<Rightarrow> string" where
  "icon_file pack name = path_join [pack, if suffix ''.svg'' name then name else name @ ''.svg'']"

text \<open>dict takes keys and values in turn; later values win. An argument is a string or anything else.\<close>

datatype 'a template_value = TplString string | TplOther 'a

datatype dict_error = OddNumberOfArgs | KeyNotString nat

fun dict_loop :: "nat \<Rightarrow> 'a template_value list \<Rightarrow> (string \<rightharpoonup> 'a template_value) \<Rightarrow>
    dict_error + (string \<rightharpoonup> 'a template_value)" where
  "dict_loop i (k # v # kvs) res =
     (case k of
        TplString s \<Rightarrow> dict_loop (i + 2) kvs (res(s \<mapsto> v))
      | TplOther _ \<Rightarrow> Inl (KeyNotString i))"
| "dict_loop i _ res = Inr res"

definition template_dict :: "'a template_value list \<Rightarrow> dict_error + (string \<rightharpoonup> 'a template_value)" where
  "template_dict kvs = (if odd (length kvs) then Inl OddNumberOfArgs else dict_loop 0 kvs Map.empty)"

text \<open>embedIcon: \<open>icons\<close> is the file system of the icons, which opens and reads a path.\<close>

datatype icon_error = IconNotOpened | IconNotRead

definition embed_icon :: "(string \<Rightarrow> string option option) \<Rightarrow> string \<Rightarrow> string \<Rightarrow> icon_error + string" where
  "embed_icon icons pack name =
     (case icons (icon_file pack name) of
        None \<Rightarrow> Inl IconNotOpened
      | Some None \<Rightarrow> Inl IconNotRead
      | Some (Some content) \<Rightarrow> Inr content)"

section \<open>What the router guarantees\<close>

lemma best_pattern_in: "best_pattern ps = Some p \<Longrightarrow> p \<in> set ps"
  by (induction ps) (auto split: option.splits if_splits)

lemma best_pattern_None: "best_pattern ps = None \<longleftrightarrow> ps = []"
  by (cases ps) (auto split: option.splits)

lemma best_pattern_best: "best_pattern ps = Some p \<Longrightarrow> q \<in> set ps \<Longrightarrow> length (rp_elems q) \<le> length (rp_elems p)"
  by (induction ps arbitrary: p) (auto simp: best_pattern_None split: option.splits if_splits)

lemma mux_elems_ne: "mux_elems path \<noteq> []"
  by (simp add: mux_elems_def)

text \<open>Every path has a handler for GET: the pattern of "/" is below all others.\<close>

lemma root_matches: "get_below [] Root \<in> set (candidates ''GET'' path)"
  using mux_elems_ne [of path] by (simp add: candidates_def route_patterns_def pattern_matches_def get_below_def)

text \<open>Only clean paths reach a handler: others are redirected first.\<close>

lemma served_path_is_clean:
  assumes "route_request m target = Some (Served h)" "set_path (parse_path_url []) target = Some u"
  shows "mux_clean_path (escaped_path u) = escaped_path u"
  using assms by (auto simp: route_request_def Let_def split: if_splits option.splits)

lemma escaped_path_set_path:
  assumes "list_all valid_encoded_char p" "url_unescape EncPath p = Some d" "d \<noteq> ''*''" "p \<noteq> []"
  shows "\<exists>u. set_path v p = Some u \<and> escaped_path u = p"
  using assms by (auto simp: set_path_def escaped_path_def)

lemma mux_elem_escape [simp]: "mux_elem (url_escape EncPathSegment w) = w"
  by (simp add: mux_elem_def)

lemma tl_split_on: "split_on slash (tl (slash # t)) = tl (split_on slash (slash # t))"
  by simp

lemma mux_elems_rooted:
  assumes "ws \<noteq> []" "list_all (\<lambda>w. slash \<notin> set w) ws"
  shows "mux_elems (rooted_join ws) = map mux_elem ws"
    and "mux_elems (rooted_join ws @ ''/'') = map mux_elem ws @ [mux_elem []]"
proof -
  obtain w vs where w: "ws = w # vs" using assms(1) by (cases ws) auto
  have n: "list_all (\<lambda>w. slash \<notin> set w) (ws @ [[]])" using assms(2) by simp
  show "mux_elems (rooted_join ws) = map mux_elem ws"
    using split_on_rooted_join [OF assms(2)] w by (simp add: mux_elems_def)
  show "mux_elems (rooted_join ws @ ''/'') = map mux_elem ws @ [mux_elem []]"
    using split_on_rooted_join [OF n] w by (simp add: mux_elems_def)
qed

lemma count_list_rooted_join:
  "list_all (\<lambda>w. slash \<notin> set w) ws \<Longrightarrow> count_list (rooted_join ws) slash = length ws"
  by (induction ws) (auto simp: count_notin)

lemma valid_rooted_join:
  "(\<And>c w. c \<in> set w \<Longrightarrow> w \<in> set ws \<Longrightarrow> valid_encoded_char c) \<Longrightarrow> list_all valid_encoded_char (rooted_join ws)"
proof (induction ws)
  case (Cons w ws)
  have "valid_encoded_char slash" by (simp add: valid_encoded_char_def should_escape_def)
  then show ?case using Cons by (auto simp: list_all_iff)
qed simp

lemma mux_match_file:
  assumes "endpoint \<in> {''file'', ''thumbnail''}" "mux_elems path = ''api'' # endpoint # w # ws"
  shows "mux_match ''GET'' path =
    Some (get_below [''api'', endpoint] (if endpoint = ''file'' then File else Thumbnail))"
  using assms by (auto simp: mux_match_def candidates_def route_patterns_def static_dirs_def
      pattern_matches_def get_below_def get_exact_def)

text \<open>The URLs of files and thumbnails reach their handlers without a redirect.\<close>

lemma file_urls_are_routed:
  assumes "endpoint \<in> {''file'', ''thumbnail''}" "ws \<noteq> []" "list_all proper_elem ws"
  shows "route_request ''GET'' (rooted_join ([''api'', endpoint] @ map (url_escape EncPathSegment) ws)) =
    Some (Served (if endpoint = ''file'' then File else Thumbnail))"
proof -
  let ?es = "[''api'', endpoint] @ map (url_escape EncPathSegment) ws"
  let ?p = "rooted_join ?es"
  have bs: "list_all proper_elem [''api'', endpoint]" "map (url_escape EncPathSegment) [''api'', endpoint] = [''api'', endpoint]"
    "map mux_elem [''api'', endpoint] = [''api'', endpoint]"
    using assms(1) by (auto simp: proper_elem_def url_escape_def escape_char_def should_escape_def is_alnum_def mux_elem_def)
  have pe: "list_all proper_elem ?es"
    using bs(1) assms(3) proper_escape_segment by (auto simp: list_all_iff)
  then have ns: "list_all (\<lambda>w. slash \<notin> set w) ?es" by (auto simp: list_all_iff proper_elem_def)
  have valid: "list_all valid_encoded_char ?p"
  proof -
    have "valid_encoded_char c" if "c \<in> set w" "w \<in> set ?es" for c w
    proof -
      have "w = url_escape EncPathSegment w \<or> w \<in> url_escape EncPathSegment ` set ws"
        using that(2) bs(2) by auto
      then show ?thesis using escape_segment_chars that(1) by (metis imageE)
    qed
    then show ?thesis by (rule valid_rooted_join)
  qed
  have un: "url_unescape EncPath ?p = Some (rooted_join ([''api'', endpoint] @ ws))"
    using unescape_rooted_join [of "[''api'', endpoint] @ ws"] bs(2) by simp
  obtain u where u: "set_path (parse_path_url []) ?p = Some u" "escaped_path u = ?p"
    using escaped_path_set_path [OF valid un] by auto
  obtain w vs where w: "ws = w # vs" using assms(2) by (cases ws) auto
  have m: "mux_elems ?p = ''api'' # endpoint # w # vs"
    "mux_elems (?p @ ''/'') = ''api'' # endpoint # w # (vs @ [mux_elem []])"
    using mux_elems_rooted [OF _ ns] bs(3) w by (simp_all add: o_def)
  note mm = mux_match_file [OF assms(1) m(1)] mux_match_file [OF assms(1) m(2)]
  have nosuf: "\<not> suffix ''/'' ?p"
  proof -
    obtain as a where a: "?es = as @ [a]" by (cases ?es rule: rev_cases) auto
    then have "a \<noteq> []" "slash \<notin> set a" using pe ns by (auto simp: proper_elem_def)
    then have "last a \<noteq> slash" using last_in_set by metis
    then have "last ?p \<noteq> slash" unfolding a using \<open>a \<noteq> []\<close> by simp
    then show ?thesis unfolding suffix_def by (metis last_snoc)
  qed
  have cp: "mux_clean_path ?p = ?p"
    using path_clean_rooted_join [OF _ pe] nosuf by (simp add: mux_clean_path_def is_rooted_def)
  have cnt: "count_list (?p @ ''/'') slash = length ws + 3"
    using count_list_rooted_join [OF ns] by simp
  have "\<not> exact_match (mux_match ''GET'' ?p) ?p" "\<not> exact_match (mux_match ''GET'' (?p @ ''/'')) (?p @ ''/'')"
    unfolding mm exact_match_def using nosuf cnt w by (simp_all add: get_below_def)
  then show ?thesis
    unfolding route_request_def u(1) using u(2) cp mm(1) nosuf by (simp add: Let_def get_below_def)
qed

lemma routes_sample_1:
  "route_request ''GET'' ''/ui'' = Some (Redirected ''/ui/'')"
  by code_simp

lemma routes_sample_2:
  "route_request ''GET'' ''/api/../ui/a'' = Some (Redirected ''/ui/a'')"
  by code_simp

lemma routes_sample_3:
  "route_request ''POST'' ''/api/search/refresh-index'' = Some (Served RefreshIndexApi)"
  by code_simp

lemma routes_sample_4:
  "route_request ''POST'' ''/api/dir/'' = Some MethodNotAllowed"
  by code_simp

section \<open>dict in templates\<close>

lemma dict_loop_pairs:
  "dict_loop i (concat (map (\<lambda>(k, v). [TplString k, v]) kvs)) res = Inr (res ++ map_of (rev kvs))"
proof (induction kvs arbitrary: i res)
  case (Cons kv kvs)
  obtain k v where kv: "kv = (k, v)" by (cases kv)
  show ?case by (simp add: kv Cons.IH del: fun_upd_apply)
qed simp

text \<open>A dict of pairs has every key with its last value; odd arguments are refused.\<close>

lemma template_dict_pairs:
  "template_dict (concat (map (\<lambda>(k, v). [TplString k, v]) kvs)) = Inr (map_of (rev kvs))"
proof -
  have "even (length (concat (map (\<lambda>(k, v). [TplString k, v]) kvs)))" by (induction kvs) auto
  then show ?thesis using dict_loop_pairs [of 0 kvs Map.empty] by (simp add: template_dict_def)
qed

section \<open>What the middleware records\<close>

lemma rw_data:
  assumes "rw_header_written rw" "\<forall>op\<in>set ops. \<exists>c d. op = (c, WriteData d)"
  shows "fold rw_step ops rw = rw\<lparr>rw_sent := rw_sent rw @ map snd ops,
    rw_err_msg := rw_err_msg rw @ (if 500 \<le> rw_status_code rw
      then concat (map (\<lambda>op. case snd op of WriteData d \<Rightarrow> d | WriteHeader _ \<Rightarrow> []) ops) else [])\<rparr>"
  using assms
proof (induction ops arbitrary: rw)
  case (Cons op ops)
  obtain c d where op: "op = (c, WriteData d)" using Cons.prems(2) by auto
  have "rw_header_written (rw_step op rw)" using Cons.prems(1) op by (simp add: rw_write_def Let_def)
  then show ?case
    using Cons.IH [of "rw_step op rw"] Cons.prems op by (simp add: rw_write_def Let_def)
qed simp

definition data_of :: "(bool \<times> write_op) list \<Rightarrow> string" where
  "data_of ops = concat (map (\<lambda>op. case snd op of WriteData d \<Rightarrow> d | WriteHeader _ \<Rightarrow> []) ops)"

lemma middleware_record:
  assumes "\<not> not_logged path" "\<forall>op\<in>set ops. \<exists>c d. op = (c, WriteData d)"
  shows "logging_middleware path ((gone, WriteHeader code) # ops) =
      (Some \<lparr>lo_error = (if \<not> gone \<and> 500 \<le> code \<and> data_of ops \<noteq> [] then Some (code, data_of ops) else None),
         lo_status_label = format_nat (if gone then 499 else code), lo_path_label = path_label path\<rparr>,
       WriteHeader code # map snd ops)"
    and "ops \<noteq> [] \<Longrightarrow> logging_middleware path ops =
      (Some \<lparr>lo_error = None, lo_status_label = format_nat (if fst (hd ops) then 499 else 200),
         lo_path_label = path_label path\<rparr>,
       WriteHeader 200 # map snd ops)"
    and "logging_middleware path [] =
      (Some \<lparr>lo_error = None, lo_status_label = ''0'', lo_path_label = path_label path\<rparr>, [])"
proof -
  let ?rw = "\<lambda>c. rw_write_header gone c new_response_writer"
  have z: "format_nat 0 = ''0''" by code_simp
  have h: "rw_header_written (?rw code)" by (simp add: rw_write_header_def)
  show "logging_middleware path ((gone, WriteHeader code) # ops) =
      (Some \<lparr>lo_error = (if \<not> gone \<and> 500 \<le> code \<and> data_of ops \<noteq> [] then Some (code, data_of ops) else None),
         lo_status_label = format_nat (if gone then 499 else code), lo_path_label = path_label path\<rparr>,
       WriteHeader code # map snd ops)"
    using rw_data [OF h assms(2)] assms(1)
    by (simp add: logging_middleware_def rw_write_header_def new_response_writer_def data_of_def Let_def)
  show "logging_middleware path [] =
      (Some \<lparr>lo_error = None, lo_status_label = ''0'', lo_path_label = path_label path\<rparr>, [])"
    using assms(1) z by (simp add: logging_middleware_def new_response_writer_def)
next
  assume "ops \<noteq> []"
  then obtain g d ws where ops: "ops = (g, WriteData d) # ws" using assms(2) by (cases ops) auto
  let ?rw = "\<lparr>rw_status_code = 200, rw_canceled = g, rw_header_written = True, rw_err_msg = [],
      rw_sent = [WriteHeader 200, WriteData d]\<rparr>"
  have r: "rw_step (g, WriteData d) new_response_writer = ?rw"
    by (simp add: rw_write_def rw_write_header_def new_response_writer_def Let_def)
  have "fold rw_step ws ?rw = ?rw\<lparr>rw_sent := rw_sent ?rw @ map snd ws\<rparr>"
    using rw_data [of ?rw ws] assms(2) ops by simp
  then have "fold rw_step ops new_response_writer = ?rw\<lparr>rw_sent := rw_sent ?rw @ map snd ws\<rparr>"
    unfolding ops by (simp only: fold_simps r)
  then show "logging_middleware path ops =
      (Some \<lparr>lo_error = None, lo_status_label = format_nat (if fst (hd ops) then 499 else 200),
         lo_path_label = path_label path\<rparr>,
       WriteHeader 200 # map snd ops)"
    using assms(1) ops by (simp add: logging_middleware_def Let_def)
qed



end
