(* ===== verification/Metrics.thy ===== *)
theory Metrics
  imports Routes Complex_Main
begin

text \<open>
  pkg/metrics/metrics.go and what it uses of the vendored Prometheus client: the collectors,
  how the package registers them when it is loaded, and what the logging middleware does with
  them. A bucket is a rational number; the help texts are all empty. The hash of the client is a
  parameter.
\<close>

section \<open>Collectors\<close>

datatype collector_kind = CounterKind | GaugeKind | HistogramKind "rat list"

text \<open>The labels are None for a plain collector and Some for a vector.\<close>

record collector =
  co_subsystem :: string
  co_name :: string
  co_labels :: "string list option"
  co_kind :: collector_kind

definition metrics_namespace :: string where
  "metrics_namespace = ''rview''"

definition http_response_statuses :: collector where
  "http_response_statuses =
     \<lparr>co_subsystem = ''web'', co_name = ''http_response_statuses_total'', co_labels = Some [''status''],
      co_kind = CounterKind\<rparr>"

definition http_response_time :: collector where
  "http_response_time =
     \<lparr>co_subsystem = ''web'', co_name = ''http_response_time_seconds'', co_labels = Some [''path''],
      co_kind = HistogramKind [1 / 10, 5 / 10, 1, 2, 5, 10, 15, 30]\<rparr>"

definition rclone_get_dir_info_duration :: collector where
  "rclone_get_dir_info_duration =
     \<lparr>co_subsystem = ''rclone'', co_name = ''get_dir_info_duration_seconds'', co_labels = None,
      co_kind = HistogramKind [5 / 100, 1 / 10, 2 / 10, 5 / 10, 1, 2, 5]\<rparr>"

definition rclone_get_file_headers_duration :: collector where
  "rclone_get_file_headers_duration =
     \<lparr>co_subsystem = ''rclone'', co_name = ''get_file_headers_duration_seconds'', co_labels = None,
      co_kind = HistogramKind [5 / 100, 1 / 10, 2 / 10, 5 / 10, 1, 2, 5]\<rparr>"

definition rclone_dirs_served_from_cache :: collector where
  "rclone_dirs_served_from_cache =
     \<lparr>co_subsystem = ''rclone'', co_name = ''dirs_served_from_cache'', co_labels = None,
      co_kind = CounterKind\<rparr>"

definition thumbnails_errors :: collector where
  "thumbnails_errors =
     \<lparr>co_subsystem = ''thumbnails'', co_name = ''errors_total'', co_labels = None,
      co_kind = CounterKind\<rparr>"

definition thumbnails_original_image_used :: collector where
  "thumbnails_original_image_used =
     \<lparr>co_subsystem = ''thumbnails'', co_name = ''original_image_used'', co_labels = None,
      co_kind = CounterKind\<rparr>"

definition thumbnails_original_image_sizes :: collector where
  "thumbnails_original_image_sizes =
     \<lparr>co_subsystem = ''thumbnails'', co_name = ''original_image_size_bytes'', co_labels = None,
      co_kind = HistogramKind [124 * 2 ^ 10, 256 * 2 ^ 10, 512 * 2 ^ 10, 2 ^ 20, 2 * 2 ^ 20, 5 * 2 ^ 20,
        10 * 2 ^ 20, 15 * 2 ^ 20, 20 * 2 ^ 20, 30 * 2 ^ 20]\<rparr>"

definition thumbnails_download_image_duration :: collector where
  "thumbnails_download_image_duration =
     \<lparr>co_subsystem = ''thumbnails'', co_name = ''download_image_duration_seconds'', co_labels = None,
      co_kind = HistogramKind [1 / 10, 2 / 10, 35 / 100, 5 / 10, 1, 2, 35 / 10, 5]\<rparr>"

definition thumbnails_resize_duration :: collector where
  "thumbnails_resize_duration =
     \<lparr>co_subsystem = ''thumbnails'', co_name = ''resize_duration_seconds'', co_labels = None,
      co_kind = HistogramKind [1 / 10, 2 / 10, 35 / 100, 5 / 10, 1, 2, 35 / 10, 5]\<rparr>"

definition thumbnails_process_task_duration :: collector where
  "thumbnails_process_task_duration =
     \<lparr>co_subsystem = ''thumbnails'', co_name = ''process_task_duration_seconds'', co_labels = None,
      co_kind = HistogramKind [2 / 10, 5 / 10, 1, 2, 5, 10, 15, 30, 45, 60, 90, 120]\<rparr>"

definition thumbnails_size_ratio :: collector where
  "thumbnails_size_ratio =
     \<lparr>co_subsystem = ''thumbnails'', co_name = ''size_ratio'', co_labels = Some [''thumbnail_size''],
      co_kind = HistogramKind [7 / 10, 9 / 10, 1, 2, 5, 10, 20, 30, 50, 70, 100, 150]\<rparr>"

definition thumbnails_original_images_used_from_cache :: collector where
  "thumbnails_original_images_used_from_cache =
     \<lparr>co_subsystem = ''thumbnails'', co_name = ''original_images_used_from_cache'', co_labels = None,
      co_kind = CounterKind\<rparr>"

definition search_duration :: collector where
  "search_duration =
     \<lparr>co_subsystem = ''search'', co_name = ''duration_seconds'', co_labels = None,
      co_kind = HistogramKind [1 / 1000, 2 / 1000, 5 / 1000, 1 / 100, 2 / 100]\<rparr>"

definition search_refresh_indexes_errors :: collector where
  "search_refresh_indexes_errors =
     \<lparr>co_subsystem = ''search'', co_name = ''refresh_indexes_errors_total'', co_labels = None,
      co_kind = CounterKind\<rparr>"

definition search_refresh_indexes_duration :: collector where
  "search_refresh_indexes_duration =
     \<lparr>co_subsystem = ''search'', co_name = ''refresh_indexes_duration_seconds'', co_labels = None,
      co_kind = HistogramKind [5 / 10, 1, 2, 5, 10, 20, 30]\<rparr>"

definition cache_hits :: collector where
  "cache_hits =
     \<lparr>co_subsystem = ''cache'', co_name = ''hits_total'', co_labels = None,
      co_kind = CounterKind\<rparr>"

definition cache_misses :: collector where
  "cache_misses =
     \<lparr>co_subsystem = ''cache'', co_name = ''misses_total'', co_labels = None,
      co_kind = CounterKind\<rparr>"

definition cache_errors :: collector where
  "cache_errors =
     \<lparr>co_subsystem = ''cache'', co_name = ''errors_total'', co_labels = None,
      co_kind = CounterKind\<rparr>"

definition cache_size :: collector where
  "cache_size =
     \<lparr>co_subsystem = ''cache'', co_name = ''size_bytes'', co_labels = Some [''name''],
      co_kind = GaugeKind\<rparr>"

definition cache_cleaner_errors :: collector where
  "cache_cleaner_errors =
     \<lparr>co_subsystem = ''cache_cleaner'', co_name = ''errors_total'', co_labels = None,
      co_kind = CounterKind\<rparr>"

text \<open>The variables of the package, in the order of their declarations.\<close>

definition all_collectors :: "collector list" where
  "all_collectors =
     [http_response_statuses, http_response_time,
      rclone_get_dir_info_duration, rclone_get_file_headers_duration, rclone_dirs_served_from_cache,
      thumbnails_errors, thumbnails_original_image_used, thumbnails_original_image_sizes,
      thumbnails_download_image_duration, thumbnails_resize_duration, thumbnails_process_task_duration,
      thumbnails_size_ratio, thumbnails_original_images_used_from_cache,
      search_duration, search_refresh_indexes_errors, search_refresh_indexes_duration,
      cache_hits, cache_misses, cache_errors, cache_size, cache_cleaner_errors]"

section \<open>Registration\<close>

datatype metrics_panic =
    InvalidDesc
  | InconsistentDims
  | AlreadyRegistered
  | DuplicateDesc
  | BucketsNotIncreasing
  | BucketLabelNotAllowed
  | InconsistentCardinality
  | InvalidLabelValue
  | MissingLabel

definition build_fq_name :: "string \<Rightarrow> string \<Rightarrow> string \<Rightarrow> string" where
  "build_fq_name namespace subsystem name =
     (if name = [] then []
      else if namespace \<noteq> [] \<and> subsystem \<noteq> [] then join_with ''_'' [namespace, subsystem, name]
      else if namespace \<noteq> [] then join_with ''_'' [namespace, name]
      else if subsystem \<noteq> [] then join_with ''_'' [subsystem, name]
      else name)"

definition fq_name :: "collector \<Rightarrow> string" where
  "fq_name c = build_fq_name metrics_namespace (co_subsystem c) (co_name c)"

definition is_letter_byte :: "char \<Rightarrow> bool" where
  "is_letter_byte c \<longleftrightarrow> in_range 0x61 0x7A c \<or> in_range 0x41 0x5A c \<or> c = CHR ''_''"

fun valid_metric_name :: "string \<Rightarrow> bool" where
  "valid_metric_name [] = False"
| "valid_metric_name (c # s) =
     ((is_letter_byte c \<or> c = CHR '':'')
      \<and> list_all (\<lambda>c. is_letter_byte c \<or> c = CHR '':'' \<or> is_digit c) s)"

fun valid_label_name :: "string \<Rightarrow> bool" where
  "valid_label_name [] = False"
| "valid_label_name (c # s) =
     (is_letter_byte c \<and> list_all (\<lambda>c. is_letter_byte c \<or> is_digit c) s \<and> \<not> prefix ''__'' (c # s))"

definition label_names :: "collector \<Rightarrow> string list" where
  "label_names c = (case co_labels c of Some ls \<Rightarrow> ls | None \<Rightarrow> [])"

definition desc_ok :: "collector \<Rightarrow> bool" where
  "desc_ok c \<longleftrightarrow> valid_metric_name (fq_name c) \<and> list_all valid_label_name (label_names c) \<and> distinct (label_names c)"

text \<open>The two hashes of a description, over its name and over its help text and labels.\<close>

definition hash_separator :: string where
  "hash_separator = [CHR 0xFF]"

definition desc_id :: "(string \<Rightarrow> 64 word) \<Rightarrow> collector \<Rightarrow> 64 word" where
  "desc_id hash c = hash (fq_name c @ hash_separator)"

definition desc_dims :: "(string \<Rightarrow> 64 word) \<Rightarrow> collector \<Rightarrow> 64 word" where
  "desc_dims hash c =
     hash (hash_separator @ concat (map (\<lambda>l. l @ hash_separator) (sort (map (\<lambda>l. CHR ''$'' # l) (label_names c)))))"

text \<open>What newHistogram checks: the label of buckets, and that the bounds increase.\<close>

definition check_histogram :: "collector \<Rightarrow> metrics_panic option" where
  "check_histogram c =
     (case co_kind c of
        HistogramKind buckets \<Rightarrow>
          if ''le'' \<in> set (label_names c) then Some BucketLabelNotAllowed
          else if sorted_wrt (<) buckets then None
          else Some BucketsNotIncreasing
      | _ \<Rightarrow> None)"

record registry =
  rg_collectors :: "64 word set"
  rg_ids :: "64 word set"
  rg_dims :: "string \<rightharpoonup> 64 word"

text \<open>All collectors here have one description, so that its hash is the one of the collector.\<close>

definition register :: "(string \<Rightarrow> 64 word) \<Rightarrow> collector \<Rightarrow> registry \<Rightarrow> metrics_panic + registry" where
  "register hash c rg =
     (let id = desc_id hash c; name = fq_name c
      in if \<not> desc_ok c then Inl InvalidDesc
         else if rg_dims rg name \<noteq> None \<and> rg_dims rg name \<noteq> Some (desc_dims hash c) then Inl InconsistentDims
         else if id \<in> rg_collectors rg then Inl AlreadyRegistered
         else if id \<in> rg_ids rg then Inl DuplicateDesc
         else Inr \<lparr>rg_collectors = insert id (rg_collectors rg), rg_ids = insert id (rg_ids rg),
                   rg_dims = (rg_dims rg)(name \<mapsto> desc_dims hash c)\<rparr>)"

text \<open>promauto makes a collector and registers it; a plain histogram is checked at once, the
  histograms of a vector when they are made.\<close>

definition promauto_new :: "(string \<Rightarrow> 64 word) \<Rightarrow> collector \<Rightarrow> registry \<Rightarrow> metrics_panic + registry" where
  "promauto_new hash c rg =
     (case (if co_labels c = None then check_histogram c else None) of
        Some p \<Rightarrow> Inl p
      | None \<Rightarrow> register hash c rg)"

fun promauto_all :: "(string \<Rightarrow> 64 word) \<Rightarrow> collector list \<Rightarrow> registry \<Rightarrow> metrics_panic + registry" where
  "promauto_all hash [] rg = Inr rg"
| "promauto_all hash (c # cs) rg =
     (case promauto_new hash c rg of
        Inl p \<Rightarrow> Inl p
      | Inr rg \<Rightarrow> promauto_all hash cs rg)"

section \<open>Series\<close>

text \<open>utf8.ValidString: no byte stands for itself as an error.\<close>

definition valid_utf8 :: "string \<Rightarrow> bool" where
  "valid_utf8 s \<longleftrightarrow> list_all (\<lambda>(r, bs). \<not> (r = rune_error \<and> length bs = 1)) (chunks s)"

text \<open>With of a vector: the values of its labels, in their order, or its panic.\<close>

definition with_labels :: "collector \<Rightarrow> (string \<times> string) list \<Rightarrow> metrics_panic + string list" where
  "with_labels c ls =
     (if length ls \<noteq> length (label_names c) then Inl InconsistentCardinality
      else if \<not> list_all (\<lambda>(_, v). valid_utf8 v) ls then Inl InvalidLabelValue
      else if list_ex (\<lambda>n. map_of ls n = None) (label_names c) then Inl MissingLabel
      else case check_histogram c of
          Some p \<Rightarrow> Inl p
        | None \<Rightarrow> Inr (map (\<lambda>n. the (map_of ls n)) (label_names c)))"

text \<open>The two vectors of the web server: the counts of statuses and of observations by path.\<close>

record web_metrics =
  wm_statuses :: "string list \<rightharpoonup> nat"
  wm_observed :: "string list \<rightharpoonup> nat"

definition add_to :: "nat \<Rightarrow> 'k \<Rightarrow> ('k \<rightharpoonup> nat) \<Rightarrow> ('k \<rightharpoonup> nat)" where
  "add_to n k m = m(k \<mapsto> (case m k of Some x \<Rightarrow> x | None \<Rightarrow> 0) + n)"

fun init_statuses :: "string list \<Rightarrow> web_metrics \<Rightarrow> metrics_panic + web_metrics" where
  "init_statuses [] m = Inr m"
| "init_statuses (status # rest) m =
     (case with_labels http_response_statuses [(''status'', status)] of
        Inl p \<Rightarrow> Inl p
      | Inr vs \<Rightarrow> init_statuses rest (m\<lparr>wm_statuses := add_to 0 vs (wm_statuses m)\<rparr>))"

definition no_web_metrics :: web_metrics where
  "no_web_metrics = \<lparr>wm_statuses = Map.empty, wm_observed = Map.empty\<rparr>"

definition load_metrics :: "(string \<Rightarrow> 64 word) \<Rightarrow> registry \<Rightarrow> metrics_panic + registry \<times> web_metrics" where
  "load_metrics hash rg =
     (case promauto_all hash all_collectors rg of
        Inl p \<Rightarrow> Inl p
      | Inr rg \<Rightarrow> map_sum id (Pair rg) (init_statuses [''200'', ''400'', ''404'', ''500''] no_web_metrics))"

text \<open>The end of loggingMiddleware, after the handler has returned.\<close>

definition record_request :: "request_log \<Rightarrow> web_metrics \<Rightarrow> metrics_panic option \<times> web_metrics" where
  "record_request lo m =
     (case with_labels http_response_statuses [(''status'', lo_status_label lo)] of
        Inl p \<Rightarrow> (Some p, m)
      | Inr vs \<Rightarrow>
          let m = m\<lparr>wm_statuses := add_to 1 vs (wm_statuses m)\<rparr>
          in (case with_labels http_response_time [(''path'', lo_path_label lo)] of
                Inl p \<Rightarrow> (Some p, m)
              | Inr vs \<Rightarrow> (None, m\<lparr>wm_observed := add_to 1 vs (wm_observed m)\<rparr>)))"

definition measured_request :: "string \<Rightarrow> (bool \<times> write_op) list \<Rightarrow> web_metrics \<Rightarrow> metrics_panic option \<times> web_metrics" where
  "measured_request path ops m =
     (case fst (logging_middleware path ops) of
        None \<Rightarrow> (None, m)
      | Some lo \<Rightarrow> record_request lo m)"

section \<open>Loading the package\<close>

lemma valid_utf8_ascii: "is_ascii s \<Longrightarrow> valid_utf8 s"
  by (auto simp: valid_utf8_def chunks_ascii list_all_iff rune_error_def is_ascii_def)

lemma distinct_fq_names: "distinct (map fq_name all_collectors)"
  by code_simp

lemma collectors_ok: "list_all (\<lambda>c. desc_ok c \<and> check_histogram c = None) all_collectors"
  by code_simp

definition fresh_in :: "(string \<Rightarrow> 64 word) \<Rightarrow> registry \<Rightarrow> collector list \<Rightarrow> bool" where
  "fresh_in hash rg cs \<longleftrightarrow>
     list_all (\<lambda>c. desc_id hash c \<notin> rg_collectors rg \<union> rg_ids rg \<and> rg_dims rg (fq_name c) = None) cs"

lemma promauto_all_ok:
  assumes "list_all (\<lambda>c. desc_ok c \<and> check_histogram c = None) cs"
    and "distinct (map fq_name cs)" "distinct (map (desc_id hash) cs)" "fresh_in hash rg cs"
  shows "\<exists>rg'. promauto_all hash cs rg = Inr rg' \<and> rg_ids rg' = desc_id hash ` set cs \<union> rg_ids rg"
  using assms
proof (induction cs arbitrary: rg)
  case (Cons c cs)
  let ?rg = "\<lparr>rg_collectors = insert (desc_id hash c) (rg_collectors rg), rg_ids = insert (desc_id hash c) (rg_ids rg),
    rg_dims = (rg_dims rg)(fq_name c \<mapsto> desc_dims hash c)\<rparr>"
  have "promauto_new hash c rg = Inr ?rg"
    using Cons.prems(1,4) by (simp add: promauto_new_def register_def fresh_in_def Let_def)
  moreover have "fresh_in hash ?rg cs"
    using Cons.prems(2-4) by (simp add: fresh_in_def list_all_iff) (metis image_eqI)
  ultimately show ?case
    using Cons.IH [of ?rg] Cons.prems(1-3) by (auto simp: insert_commute)
qed simp

definition initial_statuses :: web_metrics where
  "initial_statuses =
     no_web_metrics\<lparr>wm_statuses := [[''200''] \<mapsto> 0, [''400''] \<mapsto> 0, [''404''] \<mapsto> 0, [''500''] \<mapsto> 0]\<rparr>"

lemma with_status: "is_ascii s \<Longrightarrow> with_labels http_response_statuses [(''status'', s)] = Inr [s]"
  by (simp add: with_labels_def label_names_def http_response_statuses_def valid_utf8_ascii check_histogram_def)

lemma with_path:
  "with_labels http_response_time [(''path'', p)] = (if valid_utf8 p then Inr [p] else Inl InvalidLabelValue)"
  by (simp add: with_labels_def label_names_def http_response_time_def check_histogram_def)

text \<open>The package can be loaded when no names of its metrics collide in the hash, with each other or with
  what the client registers itself.\<close>

lemma load_metrics_ok:
  assumes "inj_on hash ((\<lambda>c. fq_name c @ hash_separator) ` set all_collectors)" "fresh_in hash rg all_collectors"
  shows "\<exists>rg'. load_metrics hash rg = Inr (rg', initial_statuses)"
proof -
  have "distinct (map (\<lambda>c. fq_name c @ hash_separator) all_collectors)"
    using distinct_fq_names by (simp add: distinct_map inj_on_def)
  then have "distinct (map hash (map (\<lambda>c. fq_name c @ hash_separator) all_collectors))"
    using assms(1) by (subst distinct_map) simp
  then have "distinct (map (desc_id hash) all_collectors)"
    by (simp add: comp_def desc_id_def [abs_def])
  then obtain rg' where "promauto_all hash all_collectors rg = Inr rg'"
    using promauto_all_ok [OF collectors_ok distinct_fq_names _ assms(2)] by blast
  then show ?thesis
    by (simp add: load_metrics_def with_status add_to_def initial_statuses_def no_web_metrics_def)
qed

section \<open>Recording requests\<close>

lemma format_nat_ascii: "is_ascii (format_nat n)"
  using format_nat_digits [of n] by (auto simp: is_ascii_def list_all_iff is_digit_def)

lemma path_label_valid: "valid_utf8 (path_label path) \<longleftrightarrow> path_label path \<noteq> path \<or> valid_utf8 path"
proof (cases "find (\<lambda>p. prefix p path) [''/static/'', ''/ui/'', ''/api/dir/'', ''/api/file/'', ''/api/thumbnail/'']")
  case (Some p)
  then have p: "path_label path = p @ ''*''" and "is_ascii (p @ ''*'')"
    by (auto simp: path_label_def split: if_splits)
  then have "valid_utf8 (path_label path)" by (simp add: valid_utf8_ascii)
  then show ?thesis by auto
qed (simp add: path_label_def)


lemma lo_status_label_ascii:
  "fst (logging_middleware path ops) = Some lo \<Longrightarrow> is_ascii (lo_status_label lo) \<and> lo_path_label lo = path_label path"
  by (auto simp: logging_middleware_def Let_def format_nat_ascii split: if_splits)

lemma path_of_invalid: "map_option u_path (set_path (parse_path_url []) ''/%FF'') = Some [slash, CHR 0xFF]"
  by code_simp

lemma escaped_invalid: "map_option escaped_path (set_path (parse_path_url []) ''/%FF'') = Some ''/%FF''"
  by code_simp

lemma elems_invalid: "mux_elems ''/%FF'' = [[CHR 0xFF]]" "mux_elems ''/%FF/'' = [[CHR 0xFF], []]"
  by code_simp+

lemma clean_invalid: "mux_clean_path ''/%FF'' = ''/%FF''"
  by code_simp

lemma route_of_invalid: "route_request ''GET'' ''/%FF'' = Some (Served Root)"
proof -
  obtain u where u: "set_path (parse_path_url []) ''/%FF'' = Some u" "escaped_path u = ''/%FF''"
    using escaped_invalid by auto
  have m: "mux_match ''GET'' ''/%FF'' = Some (get_below [] Root)" "mux_match ''GET'' ''/%FF/'' = Some (get_below [] Root)"
    by (simp_all add: mux_match_def candidates_def elems_invalid route_patterns_def static_dirs_def
        pattern_matches_def get_below_def get_exact_def)
  show ?thesis
    unfolding route_request_def u(1) by (simp add: u(2) Let_def clean_invalid m exact_match_def get_below_def)
qed

lemma measured_request_eq:
  "measured_request path ops m =
     (case fst (logging_middleware path ops) of
        None \<Rightarrow> (None, m)
      | Some lo \<Rightarrow>
          let counted = m\<lparr>wm_statuses := add_to 1 [lo_status_label lo] (wm_statuses m)\<rparr>
          in if path_label path = path \<and> \<not> valid_utf8 path then (Some InvalidLabelValue, counted)
             else (None, counted\<lparr>wm_observed := add_to 1 [path_label path] (wm_observed m)\<rparr>))"
  using lo_status_label_ascii [of path ops] path_label_valid [of path]
  by (auto simp: measured_request_def record_request_def with_status with_path Let_def split: option.split)

text \<open>
  C39: After its handler, a request that is logged is counted under its status, and its time
  is observed under its path unless the path is neither under one of the known prefixes nor valid
  UTF-8: then the middleware panics, whatever was answered. A GET of /%FF does so.
\<close>

theorem invalid_path_panics:
  "measured_request path ops m =
     (case fst (logging_middleware path ops) of
        None \<Rightarrow> (None, m)
      | Some lo \<Rightarrow>
          let counted = m\<lparr>wm_statuses := add_to 1 [lo_status_label lo] (wm_statuses m)\<rparr>
          in if path_label path = path \<and> \<not> valid_utf8 path then (Some InvalidLabelValue, counted)
             else (None, counted\<lparr>wm_observed := add_to 1 [path_label path] (wm_observed m)\<rparr>))
   \<and> route_request ''GET'' ''/%FF'' = Some (Served Root)
   \<and> map_option u_path (set_path (parse_path_url []) ''/%FF'') = Some [slash, CHR 0xFF]
   \<and> fst (measured_request [slash, CHR 0xFF] ops m) = Some InvalidLabelValue"
proof -
  have bad: "path_label [slash, CHR 0xFF] = [slash, CHR 0xFF]" "\<not> valid_utf8 [slash, CHR 0xFF]"
      "\<not> not_logged [slash, CHR 0xFF]"
    by (simp_all add: path_label_def not_logged_def valid_utf8_def decode_rune_def)
  then show ?thesis
    unfolding measured_request_eq [of path] using route_of_invalid path_of_invalid
    by (simp add: measured_request_eq [of "[slash, CHR 0xFF]"] logging_middleware_def Let_def)
qed

end
