(* ===== verification/StaticFiles.thy ===== *)
theory StaticFiles
  imports Routes
begin

text \<open>
  static/fs.go: which file of the embedded file systems, or of the directory "static" on the disk,
  the name of a static file stands for, and how http.FileServer gets that name from a request.
\<close>

section \<open>The file systems\<close>

text \<open>newFS and the Open methods of dirFS and rootFS: the path that is opened.\<close>

definition static_path :: "bool \<Rightarrow> string \<Rightarrow> string \<Rightarrow> string" where
  "static_path readFromDisk base name =
     (if readFromDisk then path_join [path_join [''static'', base], name] else path_join [base, name])"

text \<open>
  embedIcon reads the icon from this file of the icons; the names of the templates come with and
  without the extension.
\<close>

definition icon_path :: "bool \<Rightarrow> string \<Rightarrow> string \<Rightarrow> string" where
  "icon_path readFromDisk pack name = static_path readFromDisk ''icons'' (icon_file pack name)"

text \<open>
  http.FileServer behind StripPrefix (net/http): the path of the request without the pattern,
  made rooted and cleaned; http.FS takes the first slash away and opens "." for the root.
\<close>

definition served_name :: "string \<Rightarrow> string \<Rightarrow> string" where
  "served_name pattern path =
     (let p = path_clean (slash # trim_prefix path pattern) in if p = ''/'' then ''.'' else tl p)"

section \<open>Static files stay inside\<close>

lemma path_join_relative:
  assumes "list_all proper_elem (r # rs)" "list_all proper_elem ws"
  shows "path_join [join_with ''/'' (r # rs), join_with ''/'' ws] = join_with ''/'' ((r # rs) @ ws)"
    and "path_join [join_with ''/'' (r # rs), ''.''] = join_with ''/'' (r # rs)"
proof -
  have ne: "[] \<notin> set us" if "list_all proper_elem us" for us
    using that by (auto simp: list_all_iff proper_elem_def)
  have clean: "path_clean (join_with ''/'' us) = join_with ''/'' us" if "us \<noteq> []" "list_all proper_elem us" for us
  proof -
    have n: "normal_comps False us"
      unfolding normal_comps_def using that(2) by (intro exI [of _ 0] exI [of _ us]) simp
    have c: "path_comps (join_with ''/'' us) = us" using path_comps_build [OF n] by simp
    have "\<not> is_rooted (join_with ''/'' us)"
      by (rule is_rooted_join) (use ne that normal_comps_no_slash [OF n] in auto)
    then show ?thesis using c that(1) by (simp add: path_clean_comps)
  qed
  have split: "join_with ''/'' (us @ vs) = join_with ''/'' us @ slash # join_with ''/'' vs"
    if "us \<noteq> []" "vs \<noteq> []" for us vs :: "string list"
    using that by (induction "''/''" us rule: join_with.induct) (cases vs; auto)+
  have a: "list_all proper_elem ((r # rs) @ ws)" using assms by simp
  have rne: "join_with ''/'' (r # rs) \<noteq> []" using join_with_eq_Nil [OF ne [OF assms(1)]] by simp
  show "path_join [join_with ''/'' (r # rs), join_with ''/'' ws] = join_with ''/'' ((r # rs) @ ws)"
  proof (cases "ws = []")
    case True
    then show ?thesis using clean [OF _ assms(1)] rne by (simp add: path_join_def)
  next
    case False
    then have "join_with ''/'' ws \<noteq> []" using join_with_eq_Nil [OF ne [OF assms(2)]] by simp
    then show ?thesis
      using clean [OF _ a] rne split [of "r # rs" ws] False by (simp add: path_join_def)
  qed
  have d: "list_all (\<lambda>w. slash \<notin> set w) ((r # rs) @ [''.''])"
    using assms(1) by (auto simp: list_all_iff proper_elem_def)
  have "split_on slash (join_with ''/'' ((r # rs) @ [''.''])) = (r # rs) @ [''.'']"
    by (rule split_join) (use d in auto)
  moreover have "\<not> is_rooted (join_with ''/'' ((r # rs) @ [''.'']))"
    by (rule is_rooted_join) (use d ne [OF assms(1)] in auto)
  moreover have "clean_comps False [] ((r # rs) @ [''.'']) = r # rs"
  proof -
    have "clean_comps False st (us @ [''.'']) = clean_comps False st us" if "list_all proper_elem us" for st us
      using that by (induction us arbitrary: st) (auto simp: proper_elem_def)
    from this [OF assms(1), of "[]"] show ?thesis
      using clean_comps_proper [OF assms(1), of False "[]"] by (simp only: rev.simps append_Nil)
  qed
  ultimately show "path_join [join_with ''/'' (r # rs), ''.''] = join_with ''/'' (r # rs)"
    using rne split [of "r # rs" "[''.'']"] by (simp add: path_join_def path_clean_comps path_comps_def)
qed

text \<open>
  Whatever follows the pattern in a request, dot-dot elements included, the file that is
  opened is the root of the file system followed by proper elements.
\<close>

lemma static_files_stay_inside:
  assumes "proper_elem base"
  shows "\<exists>ws. list_all proper_elem ws
    \<and> static_path False base (served_name pattern path) = join_with ''/'' (base # ws)
    \<and> static_path True base (served_name pattern path) = join_with ''/'' (''static'' # base # ws)"
proof -
  let ?p = "path_clean (slash # trim_prefix path pattern)"
  have r: "is_rooted ?p" by (simp add: is_rooted_path_clean, simp add: is_rooted_def)
  have c: "path_clean ?p = ?p" by (rule path_clean_idem)
  note sh = rooted_clean_comps [OF r c]
  let ?ws = "path_comps ?p"
  have st: "proper_elem ''static''" by (simp add: proper_elem_def)
  have joined: "path_join [''static'', base] = join_with ''/'' [''static'', base]"
    using path_join_relative(1) [of "''static''" "[]" "[base]"] st assms by simp
  show ?thesis
  proof (cases "?ws = []")
    case True
    then have "?p = ''/''" using sh(1) by simp
    then have n: "served_name pattern path = ''.''" by (simp add: served_name_def)
    show ?thesis
      unfolding static_path_def n joined
      using path_join_relative(2) [of base "[]" "[]"] path_join_relative(2) [of "''static''" "[base]" "[]"] st assms
      by (intro exI [of _ "[]"]) simp
  next
    case False
    then have p: "?p = slash # join_with ''/'' ?ws" using sh(1) rooted_join_join by simp
    moreover have "join_with ''/'' ?ws \<noteq> []"
      using False sh(2) by (subst join_with_eq_Nil) (auto simp: list_all_iff proper_elem_def)
    ultimately have n: "served_name pattern path = join_with ''/'' ?ws"
      unfolding served_name_def Let_def by (metis list.sel(3) list.inject)
    show ?thesis
      unfolding static_path_def n joined
      using path_join_relative(1) [of base "[]" ?ws] path_join_relative(1) [of "''static''" "[base]" ?ws] st assms sh(2)
      by (intro exI [of _ ?ws]) simp
  qed
qed

end
