(* ===== verification/Server.thy ===== *)
theory Server
  imports Metrics StaticFiles
begin

text \<open>
  The server of web/web.go as a whole: a request goes through loggingMiddleware to the router and
  the handler it names, and changes the state that the handlers share. What is not code of
  the program answers as the fields of \<open>world\<close> say.
\<close>

section \<open>One request\<close>

text \<open>
  The rclone client with its cache, the search service, and the metrics of the server.
\<close>

record server_state =
  st_rclone :: rclone
  st_search :: search_service
  st_metrics :: web_metrics

record world =
  wl_server :: server
  wl_config :: config
  wl_iter :: "u32 set \<Rightarrow> u32 list"
  wl_sort_hits :: "(hit \<Rightarrow> hit \<Rightarrow> int) \<Rightarrow> hit list \<Rightarrow> hit list"
  wl_render_search :: "string \<Rightarrow> search_response \<Rightarrow> bool"
  wl_open_thumbnail :: "file_id \<Rightarrow> string \<Rightarrow> thumbnail_error + string \<times> string"
  wl_range :: "string option"
  wl_zone :: "int \<Rightarrow> int"
  wl_now :: int
  wl_load :: int
  wl_store :: int
  wl_disk :: disk_outcome
  wl_file_server :: "string \<Rightarrow> web_response"
  wl_debug :: "handler \<Rightarrow> web_response"
  wl_redirect :: "string \<Rightarrow> web_response"
  wl_text :: "web_body \<Rightarrow> string list"
  wl_gone :: bool

text \<open>The file server behind StripPrefix and cacheMiddleware.\<close>

definition handle_static :: "world \<Rightarrow> string \<Rightarrow> web_request \<Rightarrow> web_response" where
  "handle_static w base req =
     (let name = served_name (''/static/'' @ base @ ''/'') (wq_path req);
          resp = wl_file_server w (static_path (cfg_read_static_files_from_disk (wl_config w)) base name)
      in resp\<lparr>wr_headers := static_headers (wl_zone w) (wl_now w) (wl_config w) @ wr_headers resp\<rparr>)"

text \<open>A refresh asks rclone for all files.\<close>

definition refresh_attempt :: "world \<Rightarrow> server_state \<Rightarrow> attempt" where
  "refresh_attempt w st =
     \<lparr>at_files = get_all_files (sr_rclone_env (wl_server w)) (st_rclone st), at_now = wl_now w,
      at_disk = wl_disk w\<rparr>"

definition serve :: "world \<Rightarrow> handler \<Rightarrow> web_request \<Rightarrow> server_state \<Rightarrow>
    (panic + web_response) \<times> server_state" where
  "serve w h req st =
     (let sv = wl_server w; U = sr_ucd sv
      in case h of
           Root \<Rightarrow> (Inr (handle_root req), st)
         | UI \<Rightarrow>
             (case handle_ui sv (st_rclone st) req (wl_load w) (wl_store w) of
                (resp, r) \<Rightarrow> (resp, st\<lparr>st_rclone := r\<rparr>))
         | PageWithSearchResults \<Rightarrow>
             (handle_page_with_search_results sv (wl_iter w) (wl_sort_hits w) (st_search st) req, st)
         | StaticFiles base \<Rightarrow> (Inr (handle_static w base req), st)
         | Dir \<Rightarrow>
             (case handle_dir sv (st_rclone st) req (wl_load w) (wl_store w) of
                (resp, r) \<Rightarrow> (resp, st\<lparr>st_rclone := r\<rparr>))
         | File \<Rightarrow> (Inr (handle_file (re_http (sr_rclone_env sv)) (st_rclone st) req (wl_range w)), st)
         | Thumbnail \<Rightarrow> (Inr (handle_thumbnail (wl_open_thumbnail w) (wl_zone w) (wl_now w) req), st)
         | SearchApi \<Rightarrow>
             (handle_search U (wl_render_search w) (wl_iter w) (wl_sort_hits w) (st_search st) req, st)
         | RefreshIndexApi \<Rightarrow>
             (case handle_refresh_index U (refresh_attempt w st) (st_search st) of
                (resp, s) \<Rightarrow> (Inr resp, st\<lparr>st_search := s\<rparr>))
         | h \<Rightarrow> (Inr (wl_debug w h), st))"

text \<open>
  What a handler writes: net/http writes the status 200 by itself with the first data, but the proxy
  and the file server write every status. \<open>wl_text\<close> are the pieces of a body.
\<close>

definition writes_status :: "route \<Rightarrow> bool" where
  "writes_status rt \<longleftrightarrow> (case rt of Served File \<Rightarrow> True | Served (StaticFiles _) \<Rightarrow> True | _ \<Rightarrow> False)"

definition response_writes :: "world \<Rightarrow> route \<Rightarrow> web_response \<Rightarrow> (bool \<times> write_op) list" where
  "response_writes w rt resp =
     map (Pair (wl_gone w))
       ((if wr_status resp = 200 \<and> \<not> writes_status rt then [] else [WriteHeader (wr_status resp)])
        @ map WriteData (wl_text w (wr_body resp)))"

text \<open>The outcome of a request; after a panic net/http closes the connection.\<close>

datatype server_panic = HandlerPanic panic | MiddlewarePanic metrics_panic

datatype outcome = Rejected | Aborted server_panic | Answered web_response

definition route_response :: "world \<Rightarrow> route \<Rightarrow> web_request \<Rightarrow> server_state \<Rightarrow>
    (panic + web_response) \<times> server_state" where
  "route_response w rt req st =
     (case rt of
        Served h \<Rightarrow> serve w h req st
      | Redirected location \<Rightarrow> (Inr (wl_redirect w location), st)
      | MethodNotAllowed \<Rightarrow> (Inr (respond 405 NoBody), st)
      | NoRoute \<Rightarrow> (Inr (respond 404 NoBody), st))"

text \<open>A target that does not decode is refused by net/http before there is a request.\<close>

definition serve_request :: "world \<Rightarrow> string \<Rightarrow> string \<Rightarrow> server_state \<Rightarrow> outcome \<times> server_state" where
  "serve_request w m target st =
     (case (parse_request_target target, route_request m (takeWhile (\<lambda>c. c \<noteq> CHR ''?'') target)) of
        (Some req, Some rt) \<Rightarrow>
          (case route_response w rt req st of
             (Inl p, st') \<Rightarrow> (Aborted (HandlerPanic p), st')
           | (Inr resp, st') \<Rightarrow>
               (case measured_request (wq_path req) (response_writes w rt resp) (st_metrics st') of
                  (Some p, m') \<Rightarrow> (Aborted (MiddlewarePanic p), st'\<lparr>st_metrics := m'\<rparr>)
                | (None, m') \<Rightarrow> (Answered resp, st'\<lparr>st_metrics := m'\<rparr>)))
      | _ \<Rightarrow> (Rejected, st))"

fun serve_requests :: "(world \<times> string \<times> string) list \<Rightarrow> server_state \<Rightarrow> outcome list \<times> server_state" where
  "serve_requests [] st = ([], st)"
| "serve_requests ((w, m, target) # reqs) st =
     (let (out, st') = serve_request w m target st; (outs, st'') = serve_requests reqs st'
      in (out # outs, st''))"

end
