(* ===== verification/ThumbnailNames.thy ===== *)
theory ThumbnailNames
  imports Thumbnails
begin

text \<open>
  The identifiers of thumbnails: where a thumbnail is, that every queued task can be carried
  out, and which images share a thumbnail.
\<close>

section \<open>Names of thumbnails\<close>

lemma path_ext_last: "slash \<notin> set w \<Longrightarrow> path_ext (p @ slash # w) = path_ext w"
  by (simp add: path_ext_def last_elem_append_slash last_elem_id)

lemma path_ext_suffix: "suffix (path_ext w) w"
proof (cases "path_ext w = []")
  case False
  then show ?thesis by (rule path_ext_shape) (auto simp: suffix_def)
qed simp

lemma path_ext_length: "length (path_ext w) \<le> length w"
  using path_ext_suffix suffix_length_le by blast

lemma thumbnail_path_last:
  assumes "slash \<notin> set w"
  shows "thumbnail_path (p @ slash # w) tsize newExt = p @ slash # thumbnail_path w tsize newExt"
proof -
  have "suffix (path_ext w) (p @ slash # w)"
    using path_ext_suffix [of w] suffix_appendI [of _ "slash # w"] suffix_ConsI by metis
  then show ?thesis
    using assms path_ext_suffix [of w] path_ext_length [of w]
    by (simp add: thumbnail_path_def Let_def path_ext_last trim_suffix_def Suc_diff_le)
qed

text \<open>The stem and the extension of a name that has one.\<close>

lemma thumbnail_path_shape:
  assumes "path_ext w \<noteq> []"
  obtains stem e where "w = stem @ CHR ''.'' # e" "path_ext w = CHR ''.'' # e" "CHR ''.'' \<notin> set e"
    "\<And>tsize. thumbnail_path w tsize [] = stem @ ''.thumbnail-'' @ tsize @ CHR ''.'' # e"
proof -
  obtain q e where q: "w = q @ CHR ''.'' # e" "path_ext w = CHR ''.'' # e" "CHR ''.'' \<notin> set e"
    using path_ext_shape [OF assms] by metis
  then have "trim_suffix w (path_ext w) = q" by (simp only: trim_suffix_append)
  then show ?thesis using q that by (simp add: thumbnail_path_def Let_def)
qed

lemma thumbnail_name_proper:
  assumes "proper_elem w" "slash \<notin> set tsize" "slash \<notin> set newExt"
  shows "proper_elem (thumbnail_path w tsize newExt)"
proof -
  have ns: "slash \<notin> set w" using assms(1) by (simp add: proper_elem_def)
  have ext: "slash \<notin> set (path_ext w)"
    using set_mono_suffix [OF path_ext_suffix [of w]] ns by blast
  have trim: "slash \<notin> set (trim_suffix w x)" for x
    using ns by (auto simp: trim_suffix_def dest: in_set_takeD)
  have "length (thumbnail_path w tsize newExt) \<ge> 11" by (simp add: thumbnail_path_def Let_def)
  then show ?thesis using assms(2,3) ns ext trim
    by (auto simp: proper_elem_def thumbnail_path_def Let_def)
qed

lemma path_base_rooted_join:
  assumes "list_all proper_elem (ws @ [w])"
  shows "path_base (rooted_join (ws @ [w])) = w"
proof -
  have w: "w \<noteq> []" "slash \<notin> set w" using assms by (auto simp: proper_elem_def)
  then obtain u c where u: "w = u @ [c]" "c \<noteq> slash" by (cases w rule: rev_cases) auto
  then have "trim_slashes (rooted_join (ws @ [w])) = rooted_join (ws @ [w])"
    by (simp add: trim_slashes_def)
  moreover have "last_elem (rooted_join (ws @ [w])) = w" using w by (simp add: last_elem_append_slash)
  ultimately show ?thesis using w by (simp add: path_base_def)
qed

text \<open>The elements of the path of an image, and of its thumbnail.\<close>

lemma image_path_shape:
  assumes "wf_file_id fid" "is_rooted (fid_path fid)" "get_image_type U fid \<noteq> UnsupportedImage"
  obtains ws w where "fid_path fid = rooted_join (ws @ [w])" "list_all proper_elem (ws @ [w])"
    "fid_name fid = w" "path_ext w \<noteq> []" "get_ext U fid = to_lower U (path_ext w)"
proof -
  have c: "path_clean (fid_path fid) = fid_path fid" and n: "fid_name fid = path_base (fid_path fid)"
    using assms(1) by (simp_all add: wf_file_id_def)
  note sh = rooted_clean_comps [OF assms(2) c]
  have e: "get_ext U fid \<noteq> []" using assms(3) by (auto simp: get_image_type_def image_type_of_ext_def)
  have ne: "path_comps (fid_path fid) \<noteq> []"
  proof
    assume "path_comps (fid_path fid) = []"
    then have "fid_path fid = ''/''" using sh(1) by simp
    then have "fid_name fid = ''/''" using n by (simp add: path_base_def trim_slashes_def last_elem_def)
    then have "get_ext U fid = []"
      by (simp add: get_ext_def get_file_ext_def path_ext_def last_elem_def to_lower_def string_of_runes_def)
    then show False using e by simp
  qed
  then obtain ws w where ws: "path_comps (fid_path fid) = ws @ [w]" by (metis append_butlast_last_id)
  have p: "fid_path fid = rooted_join (ws @ [w])" using sh(1) ne ws by simp
  have pr: "list_all proper_elem (ws @ [w])" using sh(2) ws by simp
  have w: "fid_name fid = w" using n p path_base_rooted_join [OF pr] by simp
  have "path_ext w \<noteq> []"
    using e w by (auto simp: get_ext_def get_file_ext_def to_lower_def string_of_runes_def)
  then show ?thesis using that [OF p pr w] w by (simp add: get_ext_def get_file_ext_def)
qed

lemma thumbnail_id_shape:
  assumes "wf_file_id fid" "is_rooted (fid_path fid)" "slash \<notin> set tsize"
    and "new_thumbnail_id U fmt fid tsize = Inr tid"
  obtains ws w newExt where "fid_path fid = rooted_join (ws @ [w])" "list_all proper_elem (ws @ [w])"
    "fid_name fid = w" "path_ext w \<noteq> []" "get_ext U fid = to_lower U (path_ext w)"
    "get_thumbnail_ext U fmt fid = Inr newExt" "newExt \<in> {[], ''.jpeg'', ''.avif''}"
    "fid_path tid = rooted_join (ws @ [thumbnail_path w tsize newExt])"
    "fid_name tid = thumbnail_path w tsize newExt"
    "fid_mod_time tid = fid_mod_time fid" "fid_size tid = fid_size fid"
proof -
  obtain newExt where ext: "get_thumbnail_ext U fmt fid = Inr newExt"
    and tid: "tid = new_file_id (thumbnail_path (fid_path fid) tsize newExt) (fid_mod_time fid) (fid_size fid)"
    using assms(4) by (auto simp: new_thumbnail_id_def split: sum.splits)
  have t: "get_image_type U fid \<noteq> UnsupportedImage"
    using ext by (auto simp: get_thumbnail_ext_def split: if_splits)
  have newExt: "newExt \<in> {[], ''.jpeg'', ''.avif''}"
    using ext by (auto simp: get_thumbnail_ext_def split: if_splits image_type.splits)
  then have nse: "slash \<notin> set newExt" by auto
  obtain ws w where p: "fid_path fid = rooted_join (ws @ [w])" and pr: "list_all proper_elem (ws @ [w])"
    and w: "fid_name fid = w" "path_ext w \<noteq> []" "get_ext U fid = to_lower U (path_ext w)"
    using image_path_shape [OF assms(1,2) t] by blast
  let ?t = "thumbnail_path w tsize newExt"
  have "slash \<notin> set w" using pr by (simp add: proper_elem_def)
  then have tp: "thumbnail_path (fid_path fid) tsize newExt = rooted_join (ws @ [?t])"
    using thumbnail_path_last [of w "rooted_join ws"] p by simp
  have pt: "list_all proper_elem (ws @ [?t])"
    using pr thumbnail_name_proper [OF _ assms(3) nse, of w] by simp
  have "path_clean (rooted_join (ws @ [?t])) = rooted_join (ws @ [?t])"
    by (rule path_clean_rooted_join) (use pt in auto)
  then have "fid_path tid = rooted_join (ws @ [?t])" "fid_name tid = ?t"
    using tid tp path_base_rooted_join [OF pt] by simp_all
  then show ?thesis using that [OF p pr w ext newExt] tid by simp
qed

section \<open>What tasks OpenThumbnail makes\<close>

lemma ext_of_name: "get_ext U fid = to_lower U (path_ext (fid_name fid))"
  by (simp add: get_ext_def get_file_ext_def)

lemma to_lower_known_ext: "to_lower U ''.jpeg'' = ''.jpeg''" "to_lower U ''.avif'' = ''.avif''"
  by (simp_all add: to_lower_ascii is_ascii_def lower_char_def)

lemma thumbnail_path_new_ext:
  "path_ext (thumbnail_path w tsize ''.jpeg'') = ''.jpeg''"
  "path_ext (thumbnail_path w tsize ''.avif'') = ''.avif''"
  using path_ext_append [of "''jpeg''" "w @ ''.thumbnail-'' @ tsize"]
    path_ext_append [of "''avif''" "w @ ''.thumbnail-'' @ tsize"]
  by (simp_all add: thumbnail_path_def Let_def)

lemma thumbnail_path_same_ext:
  assumes "path_ext w \<noteq> []" "slash \<notin> set w"
  shows "path_ext (thumbnail_path w tsize []) = path_ext w"
proof -
  obtain stem e where s: "w = stem @ CHR ''.'' # e" "path_ext w = CHR ''.'' # e" "CHR ''.'' \<notin> set e"
    "\<And>tsize. thumbnail_path w tsize [] = stem @ ''.thumbnail-'' @ tsize @ CHR ''.'' # e"
    using thumbnail_path_shape [OF assms(1)] by blast
  have "slash \<notin> set e" using assms(2) s(1) by auto
  then show ?thesis using path_ext_append [of e "stem @ ''.thumbnail-'' @ tsize"] s by simp
qed

text \<open>
  C11: Whatever OpenThumbnail queues can be carried out: for a rooted path, a thumbnail
  format and a size of the program, the task either uses the original, and then its
  thumbnail is filed under the identifier of the image itself, or it has a thumbnail of type
  JPEG, WebP or AVIF for which vipsthumbnail has arguments; the thumbnail keeps
  modification time and size, and is in the directory of the image.
\<close>

theorem queued_tasks_are_valid:
  assumes "wf_file_id fid" "is_rooted (fid_path fid)"
    and "fmt = ''jpeg'' \<or> fmt = ''avif''" "tsize \<in> {[], ''small'', ''medium'', ''large''}"
    and "get_image_type U fid \<noteq> UnsupportedImage" "0 < fid_size fid"
  shows "\<exists>task. make_task U threshold fmt fid tsize = Inr task \<and> tk_file_id task = fid
    \<and> fid_mod_time (tk_thumbnail_id task) = fid_mod_time fid \<and> fid_size (tk_thumbnail_id task) = fid_size fid
    \<and> path_dir (fid_path (tk_thumbnail_id task)) = path_dir (fid_path fid)
    \<and> (if tk_use_original task then tk_thumbnail_id task = fid
       else get_image_type U (tk_thumbnail_id task) \<in> {JpegImage, WebpImage, AvifImage}
         \<and> \<not> isl (vips_args U tmp path (tk_thumbnail_id task) (tk_size task)))"
proof (cases "should_use_original_image U threshold fid")
  case True
  then show ?thesis using assms(5,6) by (simp add: make_task_def)
next
  case False
  obtain ts where ts: "ts = (if tsize = [] then ''medium'' else tsize)" by simp
  have sz: "ts \<in> {''small'', ''medium'', ''large''}" using assms(4) ts by auto
  then have nss: "slash \<notin> set ts" and vs: "vips_size ts \<noteq> None" by (auto simp: vips_size_def)
  have gif: "get_image_type U fid \<noteq> GifImage" using False by (auto simp: should_use_original_image_def)
  obtain newExt where ext: "get_thumbnail_ext U fmt fid = Inr newExt"
    using assms(3,5) by (cases "get_image_type U fid") (auto simp: get_thumbnail_ext_def)
  then obtain tid where tid: "new_thumbnail_id U fmt fid ts = Inr tid"
    by (simp add: new_thumbnail_id_def)
  obtain ws w where sh: "fid_path fid = rooted_join (ws @ [w])" "list_all proper_elem (ws @ [w])"
    "fid_name fid = w" "path_ext w \<noteq> []" "newExt \<in> {[], ''.jpeg'', ''.avif''}"
    "fid_path tid = rooted_join (ws @ [thumbnail_path w ts newExt])"
    "fid_name tid = thumbnail_path w ts newExt"
    "fid_mod_time tid = fid_mod_time fid" "fid_size tid = fid_size fid"
    using thumbnail_id_shape [OF assms(1,2) nss tid] ext by (metis sum.inject(2))
  have nsw: "slash \<notin> set w" using sh(2) by (simp add: proper_elem_def)
  have nst: "slash \<notin> set (thumbnail_path w ts newExt)"
    using thumbnail_name_proper [OF _ nss, of w newExt] sh(2,5) by (auto simp: proper_elem_def)
  have dir: "path_dir (fid_path tid) = path_dir (fid_path fid)"
    using sh(1,6) nsw nst by (simp add: path_dir_def last_elem_append_slash)
  have e: "get_ext U tid = (if newExt = [] then get_ext U fid else newExt)"
    using sh(3,4,5,7) nsw by (auto simp: ext_of_name thumbnail_path_new_ext thumbnail_path_same_ext to_lower_known_ext)
  then have "get_image_type U tid \<in> {JpegImage, WebpImage, AvifImage}"
    using ext gif assms(3,5)
    by (cases "get_image_type U fid")
      (auto simp: get_thumbnail_ext_def get_image_type_def image_type_of_ext_def split: if_splits)
  moreover from this have "\<not> isl (vips_args U tmp path tid ts)"
    using vs by (auto simp: vips_args_def vips_options_def split: option.splits)
  ultimately show ?thesis
    using False assms(5,6) tid dir sh(8,9) by (simp add: make_task_def Let_def ts [symmetric])
qed

lemma queued_tasks_are_valid_witness:
  "\<exists>task. make_task ascii_ucd (200 * 1024) ''avif'' (new_file_id ''/a/b.png'' 1 300000) [] = Inr task
    \<and> get_image_type ascii_ucd (tk_thumbnail_id task) \<in> {JpegImage, WebpImage, AvifImage}"
proof -
  let ?f = "new_file_id ''/a/b.png'' 1 300000"
  have r: "is_rooted (fid_path ?f)" and p: "get_image_type ascii_ucd ?f \<noteq> UnsupportedImage"
    and no: "\<not> should_use_original_image ascii_ucd (200 * 1024) ?f" by code_simp+
  have "\<not> tk_use_original task" if "make_task ascii_ucd (200 * 1024) ''avif'' ?f [] = Inr task" for task
    using that no p by (auto simp: make_task_def Let_def split: sum.splits)
  then show ?thesis
    using queued_tasks_are_valid [OF wf_new_file_id r, of "''avif''" "[]" ascii_ucd "200 * 1024" "[]" "[]"] p
    by fastforce
qed

text \<open>The file that shares its thumbnail with another: the other's name and the new extension.\<close>

definition shadows :: "ucd \<Rightarrow> string \<Rightarrow> file_id \<Rightarrow> file_id \<Rightarrow> bool" where
  "shadows U fmt a b \<longleftrightarrow>
     fid_mod_time a = fid_mod_time b \<and> fid_size a = fid_size b \<and> get_thumbnail_ext U fmt b = Inr []
     \<and> (case get_thumbnail_ext U fmt a of Inr e \<Rightarrow> e \<noteq> [] \<and> fid_path b = fid_path a @ e | Inl _ \<Rightarrow> False)"

lemma get_thumbnail_ext_new: "get_thumbnail_ext U fmt a = Inr e \<Longrightarrow> get_thumbnail_ext U fmt b = Inr e' \<Longrightarrow>
    e \<noteq> [] \<Longrightarrow> e' \<noteq> [] \<Longrightarrow> e = e'"
  by (auto simp: get_thumbnail_ext_def split: if_splits image_type.splits)

text \<open>Where names with a size and an extension agree.\<close>

lemma thumbnail_path_new: "newExt \<noteq> [] \<Longrightarrow> thumbnail_path w tsize newExt = w @ ''.thumbnail-'' @ tsize @ newExt"
  by (simp add: thumbnail_path_def Let_def)

lemma dot_suffix_inject:
  assumes "CHR ''.'' \<notin> set d" "CHR ''.'' \<notin> set e" "x @ CHR ''.'' # d = y @ CHR ''.'' # e"
  shows "x = y \<and> d = e"
proof -
  have "rev d @ CHR ''.'' # rev x = rev e @ CHR ''.'' # rev y"
    using assms(3) by (metis rev_append rev.simps(2) append_assoc append_Cons append_Nil)
  then show ?thesis using append_sep_inject [of "CHR ''.''" "rev d" "rev e" "rev x" "rev y"] assms(1,2) by simp
qed

lemma same_ext_inject:
  assumes "path_ext v \<noteq> []" "path_ext w \<noteq> []" "thumbnail_path v tsize [] = thumbnail_path w tsize []"
  shows "v = w"
proof -
  obtain a d where a: "v = a @ CHR ''.'' # d" "CHR ''.'' \<notin> set d"
    "\<And>tsize. thumbnail_path v tsize [] = a @ ''.thumbnail-'' @ tsize @ CHR ''.'' # d"
    using thumbnail_path_shape [OF assms(1)] by metis
  obtain b e where b: "w = b @ CHR ''.'' # e" "CHR ''.'' \<notin> set e"
    "\<And>tsize. thumbnail_path w tsize [] = b @ ''.thumbnail-'' @ tsize @ CHR ''.'' # e"
    using thumbnail_path_shape [OF assms(2)] by metis
  have "a @ ''.thumbnail-'' @ tsize = b @ ''.thumbnail-'' @ tsize \<and> d = e"
    by (rule dot_suffix_inject [OF a(2) b(2)]) (use assms(3) a(3) b(3) in simp)
  then show ?thesis using a(1) b(1) by simp
qed

lemma mixed_ext:
  assumes "path_ext w \<noteq> []" "newExt \<in> {''.jpeg'', ''.avif''}"
  shows "thumbnail_path v tsize newExt = thumbnail_path w tsize [] \<longleftrightarrow> w = v @ newExt"
proof -
  obtain b e where b: "w = b @ CHR ''.'' # e" "CHR ''.'' \<notin> set e"
    "\<And>tsize. thumbnail_path w tsize [] = b @ ''.thumbnail-'' @ tsize @ CHR ''.'' # e"
    using thumbnail_path_shape [OF assms(1)] by metis
  obtain x where x: "newExt = CHR ''.'' # x" "CHR ''.'' \<notin> set x" using assms(2) by auto
  have t: "thumbnail_path v tsize newExt = v @ ''.thumbnail-'' @ tsize @ CHR ''.'' # x"
    using x(1) by (simp add: thumbnail_path_new)
  show ?thesis
  proof
    assume "thumbnail_path v tsize newExt = thumbnail_path w tsize []"
    then have "v @ ''.thumbnail-'' @ tsize = b @ ''.thumbnail-'' @ tsize \<and> x = e"
      using dot_suffix_inject [OF x(2) b(2), of "v @ ''.thumbnail-'' @ tsize" "b @ ''.thumbnail-'' @ tsize"] t b(3)
      by simp
    then show "w = v @ newExt" using b(1) x(1) by simp
  next
    assume "w = v @ newExt"
    then have "b = v \<and> e = x" using dot_suffix_inject [OF b(2) x(2), of b v] b(1) x(1) by simp
    then show "thumbnail_path v tsize newExt = thumbnail_path w tsize []" using t b(3) by simp
  qed
qed

text \<open>
  C21: Two images have the same thumbnail identifier exactly when they are the same image, or
  agree in modification time and size and one is named as the other with the extension that
  its thumbnail gets (\<open>a.png\<close> and \<open>a.png.jpeg\<close>).
\<close>

theorem thumbnail_ids_collide_iff:
  assumes "wf_file_id a" "is_rooted (fid_path a)" "wf_file_id b" "is_rooted (fid_path b)"
    and "slash \<notin> set tsize"
    and "new_thumbnail_id U fmt a tsize = Inr ta" "new_thumbnail_id U fmt b tsize = Inr tb"
  shows "ta = tb \<longleftrightarrow> a = b \<or> shadows U fmt a b \<or> shadows U fmt b a"
proof -
  obtain ws v x where a: "fid_path a = rooted_join (ws @ [v])" "list_all proper_elem (ws @ [v])"
    "path_ext v \<noteq> []" "get_thumbnail_ext U fmt a = Inr x" "x \<in> {[], ''.jpeg'', ''.avif''}"
    "fid_path ta = rooted_join (ws @ [thumbnail_path v tsize x])"
    "fid_mod_time ta = fid_mod_time a" "fid_size ta = fid_size a"
    using thumbnail_id_shape [OF assms(1,2,5,6)] by metis
  obtain us w y where b: "fid_path b = rooted_join (us @ [w])" "list_all proper_elem (us @ [w])"
    "path_ext w \<noteq> []" "get_thumbnail_ext U fmt b = Inr y" "y \<in> {[], ''.jpeg'', ''.avif''}"
    "fid_path tb = rooted_join (us @ [thumbnail_path w tsize y])"
    "fid_mod_time tb = fid_mod_time b" "fid_size tb = fid_size b"
    using thumbnail_id_shape [OF assms(3,4,5,7)] by metis
  have ns: "list_all (\<lambda>e. slash \<notin> set e) (ws @ [v])" "list_all (\<lambda>e. slash \<notin> set e) (us @ [w])"
    using a(2) b(2) by (auto simp: list_all_iff proper_elem_def)
  have nt: "slash \<notin> set (thumbnail_path v tsize x)" "slash \<notin> set (thumbnail_path w tsize y)"
    using thumbnail_name_proper [OF _ assms(5), of v x] thumbnail_name_proper [OF _ assms(5), of w y] a(2,5) b(2,5)
    by (auto simp: proper_elem_def)
  have wt: "wf_file_id ta" "wf_file_id tb"
    using assms(6,7) by (auto simp: new_thumbnail_id_def split: sum.splits)
  have t: "ta = tb \<longleftrightarrow> ws = us \<and> thumbnail_path v tsize x = thumbnail_path w tsize y
      \<and> fid_mod_time a = fid_mod_time b \<and> fid_size a = fid_size b"
    using wf_file_id_eq [OF wt] a(6-8) b(6-8) ns nt
      rooted_join_last_eq [of ws "thumbnail_path v tsize x" us "thumbnail_path w tsize y"] by auto
  have eq: "a = b \<longleftrightarrow> ws = us \<and> v = w \<and> fid_mod_time a = fid_mod_time b \<and> fid_size a = fid_size b"
    using wf_file_id_eq [OF assms(1,3)] a(1) b(1) rooted_join_last_eq [OF ns] by auto
  have ax: "fid_path a @ x = rooted_join (ws @ [v @ x])" and bx: "fid_path b @ y = rooted_join (us @ [w @ y])"
    using a(1) b(1) by simp_all
  have nx: "list_all (\<lambda>e. slash \<notin> set e) (ws @ [v @ x])" "list_all (\<lambda>e. slash \<notin> set e) (us @ [w @ y])"
    using ns a(5) b(5) by auto
  have app: "fid_path b = fid_path a @ x \<longleftrightarrow> us = ws \<and> w = v @ x"
      "fid_path a = fid_path b @ y \<longleftrightarrow> ws = us \<and> v = w @ y"
    unfolding ax bx using a(1) b(1) rooted_join_last_eq [OF ns(2) nx(1)] rooted_join_last_eq [OF ns(1) nx(2)]
    by (simp_all only:)
  have sh: "shadows U fmt a b \<longleftrightarrow> fid_mod_time a = fid_mod_time b \<and> fid_size a = fid_size b \<and> y = [] \<and> x \<noteq> [] \<and> us = ws \<and> w = v @ x"
    "shadows U fmt b a \<longleftrightarrow> fid_mod_time a = fid_mod_time b \<and> fid_size a = fid_size b \<and> x = [] \<and> y \<noteq> [] \<and> ws = us \<and> v = w @ y"
    using app a(4) b(4) by (auto simp: shadows_def)
  consider "x = []" "y = []" | "x = []" "y \<noteq> []" | "x \<noteq> []" "y = []" | "x \<noteq> []" "y \<noteq> []" by blast
  then show ?thesis
  proof cases
    case 1
    then show ?thesis using t eq sh same_ext_inject [OF a(3) b(3)] by auto
  next
    case 2
    then have "thumbnail_path v tsize x = thumbnail_path w tsize y \<longleftrightarrow> v = w @ y"
      using mixed_ext [OF a(3), of y w tsize] b(5) by auto
    then show ?thesis using t eq sh 2 get_thumbnail_ext_new a(4) b(4) by auto
  next
    case 3
    then have "thumbnail_path v tsize x = thumbnail_path w tsize y \<longleftrightarrow> w = v @ x"
      using mixed_ext [OF b(3), of x v tsize] a(5) by auto
    moreover have "a \<noteq> b" using 3 a(4) b(4) by auto
    ultimately show ?thesis using t eq sh 3 by auto
  next
    case 4
    then have "x = y" using get_thumbnail_ext_new a(4) b(4) by blast
    then show ?thesis using t eq sh 4 by (auto simp: thumbnail_path_new)
  qed
qed

lemma thumbnail_ids_collide_iff_witness:
  "new_thumbnail_id ascii_ucd ''jpeg'' (new_file_id ''/a.png'' 1 2) ''small''
    = new_thumbnail_id ascii_ucd ''jpeg'' (new_file_id ''/a.png.jpeg'' 1 2) ''small''"
proof -
  let ?a = "new_file_id ''/a.png'' 1 2" and ?b = "new_file_id ''/a.png.jpeg'' 1 2"
  have r: "is_rooted (fid_path ?a)" "is_rooted (fid_path ?b)" and s: "shadows ascii_ucd ''jpeg'' ?a ?b"
    and n: "slash \<notin> set ''small''" and ok: "\<not> isl (new_thumbnail_id ascii_ucd ''jpeg'' ?a ''small'')"
      "\<not> isl (new_thumbnail_id ascii_ucd ''jpeg'' ?b ''small'')" by code_simp+
  obtain ta tb where t: "new_thumbnail_id ascii_ucd ''jpeg'' ?a ''small'' = Inr ta"
      "new_thumbnail_id ascii_ucd ''jpeg'' ?b ''small'' = Inr tb"
    using ok by (metis isl_def sum.exhaust)
  have "ta = tb"
    using thumbnail_ids_collide_iff [OF wf_new_file_id r(1) wf_new_file_id r(2) n t] s by simp
  then show ?thesis using t by simp
qed

end
