(* ===== verification/WebProps.thy ===== *)
theory WebProps
  imports Routes ThumbnailNames
begin

text \<open>
  Properties of the web layer: file URLs and their requests, listings, and the answers of a
  search.
\<close>

section \<open>File URLs\<close>

definition plain_char :: "char \<Rightarrow> bool" where
  "plain_char c \<longleftrightarrow> is_alnum c \<or> c = CHR ''-'' \<or> c = CHR ''_''"

lemma escape_plain_char: "plain_char c \<Longrightarrow> escape_char EncQuery c = [c]"
proof -
  assume c: "plain_char c"
  then have "\<not> should_escape EncQuery c" unfolding should_escape_def plain_char_def by auto
  moreover have "\<not> plain_char (CHR '' '')" by (simp add: plain_char_def is_alnum_def)
  then have "c \<noteq> CHR '' ''" using c by blast
  ultimately show ?thesis by (simp add: escape_char_def)
qed

lemma escape_plain: "list_all plain_char s \<Longrightarrow> url_escape EncQuery s = s"
proof (induction s)
  case (Cons c s)
  then show ?case using escape_plain_char by (simp add: url_escape_def)
qed (simp add: url_escape_def)

lemma unescape_plain: "list_all plain_char s \<Longrightarrow> url_unescape EncQuery s = Some s"
  using escape_plain unescape_escape [of EncQuery s] by simp

lemma plain_format_int: "list_all plain_char (format_int i)"
proof -
  have "list_all plain_char (format_nat n)" for n
    using format_nat_digits [of n] by (auto simp: list_all_iff is_digit_def plain_char_def is_alnum_def)
  then show ?thesis by (simp add: format_int_def plain_char_def)
qed

lemma plain_not: "list_all plain_char s \<Longrightarrow> \<not> plain_char c \<Longrightarrow> c \<notin> set s"
  by (auto simp: list_all_iff)

lemma not_plain: "\<not> plain_char (CHR ''='')" "\<not> plain_char (CHR ''&'')" "\<not> plain_char (CHR '';'')" "\<not> plain_char (CHR ''?'')"
  by (simp_all add: plain_char_def is_alnum_def)

lemma cut_after_sep: "d \<notin> set k \<Longrightarrow> cut_after d (k @ d # v) = v"
  by (induction k) auto

lemma takeWhile_sep: "d \<notin> set k \<Longrightarrow> takeWhile (\<lambda>c. c \<noteq> d) (k @ d # v) = k"
  by (induction k) auto

lemma parse_pair_plain:
  assumes "list_all plain_char k" "list_all plain_char v"
  shows "parse_pair (k @ CHR ''='' # v) = Some (k, v)"
proof -
  have "CHR ''='' \<notin> set k" "CHR '';'' \<notin> set k" "CHR '';'' \<notin> set v"
    using plain_not not_plain assms by blast+
  then show ?thesis
    using unescape_plain assms by (simp add: parse_pair_def takeWhile_sep cut_after_sep)
qed

lemma plain_keys: "list_all plain_char ''mod_time''" "list_all plain_char ''size''"
  by (simp_all add: plain_char_def is_alnum_def)

lemma parse_file_query:
  "parse_query (file_query fid) =
     [(''mod_time'', format_int (fid_mod_time fid)), (''size'', format_int (fid_size fid))]"
proof -
  let ?a = "''mod_time'' @ CHR ''='' # format_int (fid_mod_time fid)"
  let ?b = "''size'' @ CHR ''='' # format_int (fid_size fid)"
  have q: "file_query fid = ?a @ CHR ''&'' # ?b"
    by (simp add: file_query_def escape_plain plain_format_int)
  have "CHR ''&'' \<notin> set (format_int i)" for i using plain_not plain_format_int not_plain by blast
  then have n: "CHR ''&'' \<notin> set ?a" "CHR ''&'' \<notin> set ?b" by simp_all
  have "split_on (CHR ''&'') (file_query fid) = [?a, ?b]"
    unfolding q using split_on_append_sep [OF n(1)] split_on_single [OF n(2)] by simp
  then show ?thesis
    unfolding parse_query_def
    using parse_pair_plain [OF plain_keys(1) plain_format_int] parse_pair_plain [OF plain_keys(2) plain_format_int]
    by (simp add: List.map_filter_simps)
qed

text \<open>
  The URL that a listing gives for a file comes back as the same identifier: for every
  file of a rooted path, the request for fileIDToURL decodes to path, modification time and
  size of the file, whatever bytes its names have, and the router gives the request to the
  handler of the endpoint without a redirect.
\<close>

lemma file_url_roundtrip:
  assumes "wf_file_id fid" "is_rooted (fid_path fid)" "fid_path fid \<noteq> ''/''"
    and "in_i64 (fid_mod_time fid)" "in_i64 (fid_size fid)" "endpoint \<in> {''file'', ''thumbnail''}"
  shows "\<exists>req. parse_request_target (file_id_to_url (''/api/'' @ endpoint) fid) = Some req
    \<and> file_id_from_request req (''/api/'' @ endpoint) = Inr fid
    \<and> wq_path req = ''/api/'' @ endpoint @ fid_path fid
    \<and> route_request ''GET'' (takeWhile (\<lambda>c. c \<noteq> CHR ''?'') (file_id_to_url (''/api/'' @ endpoint) fid))
        = Some (Served (if endpoint = ''file'' then File else Thumbnail))"
proof -
  let ?ws = "path_comps (fid_path fid)" and ?bs = "[''api'', endpoint]"
  have c: "path_clean (fid_path fid) = fid_path fid" using assms(1) by (simp add: wf_file_id_def)
  note sh = rooted_clean_comps [OF assms(2) c]
  have ne: "?ws \<noteq> []" using sh(1) assms(3) by auto
  then have path: "fid_path fid = rooted_join ?ws" using sh(1) by simp
  have bs: "?bs \<noteq> []" "list_all proper_elem ?bs" "list_all (list_all is_alnum) ?bs"
    using assms(6) by (auto simp: proper_elem_def is_alnum_def)
  have base: "''/api/'' @ endpoint = rooted_join ?bs" by simp
  let ?u = "join_path (parse_path_url (rooted_join ?bs)) [get_escaped_path fid]"
  have u: "u_path ?u = rooted_join (?bs @ ?ws)"
    "escaped_path ?u = rooted_join (?bs @ map (url_escape EncPathSegment) ?ws)"
    using join_path_segments [OF bs ne sh(2)] unfolding get_escaped_path_rooted [OF assms(1,2)] by simp_all
  have esc: "escaped_path (?u\<lparr>u_raw_query := q\<rparr>) = escaped_path ?u" for q by (simp add: escaped_path_def)
  have qne: "file_query fid \<noteq> []" by (simp add: file_query_def)
  let ?p = "rooted_join (?bs @ map (url_escape EncPathSegment) ?ws)"
  have url: "file_id_to_url (''/api/'' @ endpoint) fid = ?p @ CHR ''?'' # file_query fid"
    unfolding file_id_to_url_def base url_string_def esc using u(2) qne by simp
  have nq: "CHR ''?'' \<notin> set ?p"
  proof -
    have "CHR ''?'' \<notin> set (url_escape EncPathSegment w)" for w using escape_segment_chars by blast
    moreover have "CHR ''?'' \<notin> set endpoint" using assms(6) by auto
    ultimately show ?thesis by (auto simp: rooted_join_def)
  qed
  have "map (url_escape EncPathSegment) ?bs = ?bs"
    using assms(6) by (auto simp: url_escape_def escape_char_def should_escape_def is_alnum_def)
  then have un: "url_unescape EncPath ?p = Some (rooted_join (?bs @ ?ws))"
    using unescape_rooted_join [of "?bs @ ?ws"] by simp
  have req: "parse_request_target (file_id_to_url (''/api/'' @ endpoint) fid) =
      Some \<lparr>wq_path = rooted_join (?bs @ ?ws), wq_form = parse_query (file_query fid)\<rparr>"
    unfolding url parse_request_target_def takeWhile_sep [OF nq] cut_after_sep [OF nq] un by simp
  let ?r = "\<lparr>wq_path = rooted_join (?bs @ ?ws), wq_form = parse_query (file_query fid)\<rparr>"
  have "trim_prefix (rooted_join (?bs @ ?ws)) (''/api/'' @ endpoint) = fid_path fid"
    using path trim_prefix_append [of "rooted_join ?bs" "rooted_join ?ws"] base by (simp del: trim_prefix_append)
  then have t: "trim_prefix (wq_path ?r) (''/api/'' @ endpoint) = fid_path fid" by simp
  have v: "form_value ?r ''mod_time'' = format_int (fid_mod_time fid)" "form_value ?r ''size'' = format_int (fid_size fid)"
    by (simp_all add: form_value_def parse_file_query)
  have pne: "fid_path fid \<noteq> []" using assms(2) by (auto simp: is_rooted_def)
  have "file_id_from_request ?r (''/api/'' @ endpoint) = Inr (new_file_id (fid_path fid) (fid_mod_time fid) (fid_size fid))"
    unfolding file_id_from_request_def Let_def t v using pne assms(4,5) by (simp add: parse_format_int)
  then have "file_id_from_request ?r (''/api/'' @ endpoint) = Inr fid" using wf_file_id_new [OF assms(1)] by simp
  moreover have "route_request ''GET'' (takeWhile (\<lambda>c. c \<noteq> CHR ''?'') (file_id_to_url (''/api/'' @ endpoint) fid))
      = Some (Served (if endpoint = ''file'' then File else Thumbnail))"
    unfolding url takeWhile_sep [OF nq] by (rule file_urls_are_routed [OF assms(6) ne sh(2)])
  moreover have "wq_path ?r = ''/api/'' @ endpoint @ fid_path fid" using path by (simp add: rooted_join_def)
  ultimately show ?thesis using req by blast
qed

lemma file_url_roundtrip_witness:
  "\<exists>req. parse_request_target (file_id_to_url (''/api/'' @ ''file'') (new_file_id ''/a?b/100% & more'' 5 7)) = Some req
    \<and> file_id_from_request req (''/api/'' @ ''file'') = Inr (new_file_id ''/a?b/100% & more'' 5 7)
    \<and> wq_path req = ''/api/'' @ ''file'' @ fid_path (new_file_id ''/a?b/100% & more'' 5 7)
    \<and> route_request ''GET'' (takeWhile (\<lambda>c. c \<noteq> CHR ''?'')
          (file_id_to_url (''/api/'' @ ''file'') (new_file_id ''/a?b/100% & more'' 5 7))) = Some (Served File)"
proof -
  let ?f = "new_file_id ''/a?b/100% & more'' 5 7"
  have r: "is_rooted (fid_path ?f)" "fid_path ?f \<noteq> ''/''" by code_simp+
  have i: "in_i64 (fid_mod_time ?f)" "in_i64 (fid_size ?f)" by (simp_all add: in_i64_def min_int64_def max_int64_def)
  show ?thesis using file_url_roundtrip [OF wf_new_file_id r i, of "''file''"] by simp
qed



section \<open>Listings\<close>

definition shows_entry :: "dir_entry \<Rightarrow> web_entry \<Rightarrow> bool" where
  "shows_entry e w \<longleftrightarrow> we_is_dir w = de_is_dir e \<and> we_size w = de_size e \<and> we_mod_time w = de_mod_time e
     \<and> we_filename w = path_clean (de_leaf e)
     \<and> (we_dir_url w \<noteq> [] \<longrightarrow> de_is_dir e)
     \<and> (we_thumbnail_url w \<noteq> [] \<longrightarrow> we_can_preview w \<and> we_file_type w \<in> {FTImage, FTRawImage})"

lemma convert_shows_entry: "convert_entry U mode can e = Inr w \<Longrightarrow> shows_entry e w"
  by (auto simp: convert_entry_def shows_entry_def Let_def file_preview_def split: if_splits sum.splits)

definition file_sizes :: "dir_entry list \<Rightarrow> int" where
  "file_sizes es = sum_list (map de_size (filter (\<lambda>e. \<not> de_is_dir e) es))"

lemma convert_entries_result:
  assumes "convert_entries U mode can es info = Inr info'" "\<forall>e\<in>set es. 0 \<le> de_size e"
    and "0 \<le> wd_total_file_size info" "wd_total_file_size info + file_sizes es \<le> max_int64"
  shows "\<exists>ws. wd_entries info' = wd_entries info @ ws \<and> list_all2 shows_entry es ws
    \<and> wd_dir_count info' = wd_dir_count info + length (filter de_is_dir es)
    \<and> wd_file_count info' = wd_file_count info + length (filter (\<lambda>e. \<not> de_is_dir e) es)
    \<and> wd_total_file_size info' = wd_total_file_size info + file_sizes es
    \<and> wd_breadcrumbs info' = wd_breadcrumbs info \<and> wd_dir info' = wd_dir info"
  using assms
proof (induction es arbitrary: info)
  case Nil
  then show ?case by (simp add: file_sizes_def)
next
  case (Cons e es)
  obtain w where w: "convert_entry U mode can e = Inr w"
    using Cons.prems(1) by (cases "convert_entry U mode can e") simp_all
  let ?i = "info\<lparr>wd_entries := wd_entries info @ [w]\<rparr>"
  have nn: "0 \<le> file_sizes es" "0 \<le> de_size e"
    using Cons.prems(2) by (auto simp: file_sizes_def intro!: sum_list_nonneg)
  show ?case
  proof (cases "de_is_dir e")
    case True
    have "\<exists>ws. wd_entries info' = wd_entries ?i @ ws \<and> list_all2 shows_entry es ws
      \<and> wd_dir_count info' = wd_dir_count info + 1 + length (filter de_is_dir es)
      \<and> wd_file_count info' = wd_file_count info + length (filter (\<lambda>e. \<not> de_is_dir e) es)
      \<and> wd_total_file_size info' = wd_total_file_size info + file_sizes es
      \<and> wd_breadcrumbs info' = wd_breadcrumbs info \<and> wd_dir info' = wd_dir info"
      using Cons.IH [of "?i\<lparr>wd_dir_count := wd_dir_count info + 1\<rparr>"] Cons.prems w True
      by (simp add: Let_def file_sizes_def)
    then obtain ws where "wd_entries info' = wd_entries info @ w # ws" "list_all2 shows_entry es ws"
      "wd_dir_count info' = wd_dir_count info + 1 + length (filter de_is_dir es)"
      "wd_file_count info' = wd_file_count info + length (filter (\<lambda>e. \<not> de_is_dir e) es)"
      "wd_total_file_size info' = wd_total_file_size info + file_sizes es"
      "wd_breadcrumbs info' = wd_breadcrumbs info" "wd_dir info' = wd_dir info" by auto
    then show ?thesis using True convert_shows_entry [OF w]
      by (intro exI [of _ "w # ws"]) (simp add: file_sizes_def)
  next
    case False
    let ?j = "?i\<lparr>wd_file_count := wd_file_count info + 1, wd_total_file_size := wd_total_file_size info + de_size e\<rparr>"
    have fs: "file_sizes (e # es) = de_size e + file_sizes es" using False by (simp add: file_sizes_def)
    have "i64 (wd_total_file_size info + de_size e) = wd_total_file_size info + de_size e"
      using Cons.prems(3,4) nn fs by (intro i64_in_range) (simp add: in_i64_def min_int64_def)
    then have step: "convert_entries U mode can es ?j = Inr info'"
      using Cons.prems(1) w False by (simp add: Let_def)
    have "\<exists>ws. wd_entries info' = wd_entries ?j @ ws \<and> list_all2 shows_entry es ws
      \<and> wd_dir_count info' = wd_dir_count ?j + length (filter de_is_dir es)
      \<and> wd_file_count info' = wd_file_count ?j + length (filter (\<lambda>e. \<not> de_is_dir e) es)
      \<and> wd_total_file_size info' = wd_total_file_size ?j + file_sizes es
      \<and> wd_breadcrumbs info' = wd_breadcrumbs ?j \<and> wd_dir info' = wd_dir ?j"
      by (rule Cons.IH [OF step]) (use Cons.prems(2-4) nn fs in auto)
    then obtain ws where "wd_entries info' = wd_entries info @ w # ws" "list_all2 shows_entry es ws"
      "wd_dir_count info' = wd_dir_count info + length (filter de_is_dir es)"
      "wd_file_count info' = wd_file_count info + 1 + length (filter (\<lambda>e. \<not> de_is_dir e) es)"
      "wd_total_file_size info' = wd_total_file_size info + de_size e + file_sizes es"
      "wd_breadcrumbs info' = wd_breadcrumbs info" "wd_dir info' = wd_dir info" by auto
    then show ?thesis using False fs convert_shows_entry [OF w]
      by (intro exI [of _ "w # ws"]) simp
  qed
qed

lemma length_breadcrumb_loop [simp]: "length (breadcrumb_loop u txts) = length txts"
  by (induction txts arbitrary: u) auto

lemma breadcrumb_texts:
  "map wb_text (breadcrumb_loop u txts) = map (\<lambda>t. if t = ''/'' then ''Home'' else t) txts"
  by (induction txts arbitrary: u) auto



section \<open>Answers of a search\<close>

lemma compact_subset: "sort_contract sortf \<Longrightarrow> set (compact_search_hits sortf hits) \<subseteq> set hits"
proof -
  assume sc: "sort_contract sortf"
  have "set (compact_loop h hs) \<subseteq> insert h (set hs)" for h hs
    by (induction h hs rule: compact_loop.induct) auto
  moreover have "set (sortf compare_score_path hits) = set hits" by (rule sort_contract.sortf_set [OF sc])
  ultimately show ?thesis
    by (cases "sortf compare_score_path hits") (auto simp: compact_search_hits_def)
qed

lemma runes_of_word:
  assumes "list_all norm_ascii_rune w"
  shows "length (runes (string_of_runes w)) = length w"
  using assms by (subst runes_string_of_runes) (auto simp: list_all_iff valid_rune_def norm_ascii_rune_def is_digit_rune_def)

text \<open>
  After a successful refresh a search over HTTP finds what rclone has listed: for every
  word of at least three letters and digits in an ASCII path of the listing, the JSON answer has
  a hit that is the path or a directory that contains it.
\<close>

lemma refreshed_search_answers:
  assumes "map_iteration iter" "sort_contract sortf" "nfkd_ascii U"
    and "ss_min_prefix_len st = 3 \<and> ss_max_prefix_len st = 10"
    and "at_files a = Inr es" "at_disk a = DiskOk" "wf_listing U 3 es"
    and "refresh_index U a st = (res, st')"
    and "e \<in> set es" "is_ascii (de_url e)" "w \<in> set (split_to_normalized_words U (de_url e) 3)"
    and "form_value req ''search'' = string_of_runes w" "form_value req ''ui'' = []"
    and "parse_int (form_value req ''limit'') = Inr limit" "int (length es) \<le> limit"
  shows "\<exists>resp. handle_search U render iter sortf st' req = Inr (respond 200 (SearchJson resp))
    \<and> sp_search resp = string_of_runes w
    \<and> (\<exists>h\<in>set (sp_hits resp). prefix (ws_path h) (de_url e))"
proof -
  have st: "ss_min_prefix_len st = 3" "ss_max_prefix_len st = 10"
    using assms(4) by simp_all
  have st': "service_index st' = Some (new_prefix_index U es 3 10)" "ss_min_prefix_len st' = 3"
    using assms(8) refresh_index_state [OF assms(5,6), of U st] st
    by (auto simp: service_index_def new_search_index_def)
  have w: "list_all norm_ascii_rune w" "3 \<le> length w"
    using split_words_ascii [OF assms(3,10,11)] split_words_length [OF assms(11)] .
  have s: "extract_search st' req = Inr (string_of_runes w)"
    using w runes_of_word [OF w(1)] by (simp add: extract_search_def Let_def assms(12) get_min_search_length_def st'(2))
  obtain hits total where r: "service_search U iter sortf st' (string_of_runes w) limit = Inr (Inr (hits, total))"
      "\<exists>h\<in>set hits. prefix (hit_path h) (de_url e)" "\<forall>h\<in>set hits. hit_score h \<noteq> \<infinity>"
    using search_finds_own_words [OF assms(1-3,7) _ _ assms(15,9-11), of 10] by (auto simp: service_search_def st'(1))
  let ?resp = "\<lparr>sp_search = string_of_runes w, sp_hits = map (search_hit_of U) hits, sp_total = total\<rparr>"
  have "encode_search_response ?resp = SearchJson ?resp"
    using r(3) by (auto simp: encode_search_response_def search_hit_of_def list_ex_iff)
  then have "handle_search U render iter sortf st' req = Inr (respond 200 (SearchJson ?resp))"
    using s r(1) assms(13,14) by (simp add: handle_search_def)
  moreover have "\<exists>h\<in>set (sp_hits ?resp). prefix (ws_path h) (de_url e)"
    using r(2) by (simp add: search_hit_of_def)
  ultimately show ?thesis by fastforce
qed


lemma refreshed_search_answers_witness:
  "\<exists>res st' resp. refresh_index ascii_ucd \<lparr>at_files = Inr sample_listing, at_now = 1700000000, at_disk = DiskOk\<rparr>
      \<lparr>ss_index = None, ss_min_prefix_len = 3, ss_max_prefix_len = 10, ss_file = NoFile\<rparr> = (res, st')
    \<and> handle_search ascii_ucd (\<lambda>_ _. True) sorted_list_of_set insertion_sort st'
        \<lparr>wq_path = ''/api/search'', wq_form = [(''search'', string_of_runes cat), (''limit'', ''100'')]\<rparr>
      = Inr (respond 200 (SearchJson resp))
    \<and> (\<exists>h\<in>set (sp_hits resp). prefix (ws_path h) ''/cats/cat.txt'')"
proof -
  let ?st = "\<lparr>ss_index = None, ss_min_prefix_len = 3, ss_max_prefix_len = 10, ss_file = NoFile\<rparr>"
  let ?a = "\<lparr>at_files = Inr sample_listing, at_now = 1700000000, at_disk = DiskOk\<rparr>"
  let ?req = "\<lparr>wq_path = ''/api/search'', wq_form = [(''search'', string_of_runes cat), (''limit'', ''100'')]\<rparr>"
  obtain res st' where r: "refresh_index ascii_ucd ?a ?st = (res, st')" by fastforce
  have new: "ss_min_prefix_len ?st = 3 \<and> ss_max_prefix_len ?st = 10" by simp
  have limit: "parse_int (form_value ?req ''limit'') = Inr 100" by code_simp
  have e: "sample_listing ! 1 \<in> set sample_listing" "de_url (sample_listing ! 1) = ''/cats/cat.txt''"
    by (simp_all add: sample_listing_def)
  have "\<exists>resp. handle_search ascii_ucd (\<lambda>_ _. True) sorted_list_of_set insertion_sort st' ?req
      = Inr (respond 200 (SearchJson resp)) \<and> sp_search resp = string_of_runes cat
    \<and> (\<exists>h\<in>set (sp_hits resp). prefix (ws_path h) (de_url (sample_listing ! 1)))"
    by (rule refreshed_search_answers [OF word_order.map_iteration_axioms ins_sort.sort_contract_axioms
          nfkd_ascii_ucd new _ _ sample_listing_wf r e(1) _ _ _ _ limit])
      (simp_all add: e(2) [simplified] form_value_def, simp_all add: sample_listing_def)
  then show ?thesis using r e(2) by auto
qed

lemma search_scores:
  assumes "sort_contract sortf" "index_search U iter sortf idx search limit = Inr (hits, n)"
    and "sr_words (new_search_request U search (min_prefix_len idx)) = []"
  shows "\<forall>h\<in>set hits. hit_score h = \<infinity>"
proof -
  let ?req = "new_search_request U search (min_prefix_len idx)"
  let ?res = "map (hit_of idx) (search_candidates U iter idx ?req)"
  have c: "\<forall>h\<in>set ?res. hit_score h = \<infinity>"
    using assms(3) by (auto simp: search_candidates_def delete_iter_def hit_of_def new_search_hit_def Let_def)
  have s: "set (sortf (compare_hits U) (compact_search_hits sortf ?res)) \<subseteq> set ?res"
    using compact_subset [OF assms(1)] sort_contract.sortf_set [OF assms(1)] by blast
  have "set hits \<subseteq> set ?res"
    using assms(2) s by (auto simp: index_search_def Let_def split: if_splits dest: in_set_takeD)
  then show ?thesis using c by blast
qed

text \<open>
  C35: The JSON API cannot answer a search for phrases only: when the query has no words and
  there is a hit, every hit has the score +Inf, encoding fails, and the response is an
  empty one with status 200.
\<close>

theorem phrase_search_has_no_answer:
  assumes "sort_contract sortf" "extract_search st req = Inr search"
    and "parse_int (form_value req ''limit'') = Inr limit" "form_value req ''ui'' = []"
    and "service_search U iter sortf st search limit = Inr (Inr (hits, n))" "hits \<noteq> []"
    and "sr_words (new_search_request U search (ss_min_prefix_len st)) = []"
    and "pred_option (\<lambda>idx. min_prefix_len idx = ss_min_prefix_len st) (service_index st)"
  shows "handle_search U render iter sortf st req = Inr (respond 200 NoBody)"
proof -
  obtain idx where i: "service_index st = Some idx" "index_search U iter sortf idx search limit = Inr (hits, n)"
    using assms(5) by (auto simp: service_search_def split: option.splits)
  have "\<forall>h\<in>set hits. hit_score h = \<infinity>"
    using search_scores [OF assms(1) i(2)] assms(7,8) i(1) by simp
  moreover obtain h hs where "hits = h # hs" using assms(6) by (cases hits) auto
  ultimately show ?thesis
    using assms(2-5) by (simp add: handle_search_def encode_search_response_def search_hit_of_def)
qed

definition sample_service :: search_service where
  "sample_service =
     \<lparr>ss_index = Some \<lparr>si_index = Some \<lparr>min_prefix_len = 3, max_prefix_len = 10,
          entries = Mapping.update 0 \<lparr>ie_path = ''/a b'', ie_is_dir = False, ie_size = 1, ie_mod_time = 1\<rparr> Mapping.empty,
          prefixes = Mapping.empty, lower_cased_paths = Mapping.update 0 ''/a b'' Mapping.empty\<rparr>,
        si_created_at = 0\<rparr>,
      ss_min_prefix_len = 3, ss_max_prefix_len = 10, ss_file = NoFile\<rparr>"

lemma phrase_search_has_no_answer_witness:
  "\<exists>limit hits n. service_search ascii_ucd (\<lambda>_. [0]) insertion_sort sample_service [CHR 0x22, CHR ''a'', CHR '' '', CHR ''b'', CHR 0x22, CHR '' ''] limit
      = Inr (Inr (hits, n)) \<and> hits \<noteq> []
    \<and> handle_search ascii_ucd (\<lambda>_ _. True) (\<lambda>_. [0]) insertion_sort sample_service
        \<lparr>wq_path = ''/api/search'', wq_form = [(''search'', [CHR 0x22, CHR ''a'', CHR '' '', CHR ''b'', CHR 0x22, CHR '' '']), (''limit'', ''9'')]\<rparr>
      = Inr (respond 200 NoBody)"
proof -
  let ?q = "[CHR 0x22, CHR ''a'', CHR '' '', CHR ''b'', CHR 0x22, CHR '' '']"
  let ?req = "\<lparr>wq_path = ''/api/search'', wq_form = [(''search'', ?q), (''limit'', ''9'')]\<rparr>"
  let ?h = "\<lparr>hit_path = ''/a b'', hit_is_dir = False, hit_size = 1, hit_mod_time = 1, hit_score = \<infinity>\<rparr>"
  have q: "?q = render_query [(KExact, ''a b'')]" by (simp add: render_query_def)
  have r: "new_search_request ascii_ucd ?q 3 = \<lparr>sr_words = [], sr_exact_matches = [''a b''], sr_to_exclude = []\<rparr>"
    unfolding q by (subst parse_render_query)
      (simp_all add: trimmed_def trim_space_def Let_def decode_rune_def is_space_def render_query_def
        to_lower_ascii lower_char_def request_of_def)
  then have w: "sr_words (new_search_request ascii_ucd ?q (ss_min_prefix_len sample_service)) = []"
    by (simp add: sample_service_def)
  have e: "extract_search sample_service ?req = Inr ?q" by code_simp
  have l: "parse_int (form_value ?req ''limit'') = Inr 9" by code_simp
  have s: "service_search ascii_ucd (\<lambda>_. [0]) insertion_sort sample_service ?q 9 = Inr (Inr ([?h], 1))"
    by (simp add: service_search_def service_index_def sample_service_def index_search_def r search_candidates_def
        delete_iter_def misses_exact_def new_search_hit_def lower_cased_path_def hit_of_def entry_at_def
        compact_search_hits_def insertion_sort_def lookup_update sublist_Cons_right Let_def del: One_nat_def)
  have "handle_search ascii_ucd (\<lambda>_ _. True) (\<lambda>_. [0]) insertion_sort sample_service ?req = Inr (respond 200 NoBody)"
    by (rule phrase_search_has_no_answer [OF ins_sort.sort_contract_axioms e l _ s _ w])
      (simp_all add: form_value_def service_index_def sample_service_def)
  then show ?thesis using s by blast
qed

end
