(* ===== verification/ServerProps.thy ===== *)
theory ServerProps
  imports Server WebProps Config
begin

text \<open>
  Properties of the server as a whole: why a request can be aborted, where the link of a listed
  file leads, and what a search finds after a refresh.
\<close>

section \<open>Panics of the server\<close>

lemma file_size_panic: "format_file_size n = Inl p \<Longrightarrow> p = IndexOutOfRange \<and> 2 ^ 60 < n"
proof -
  assume f: "format_file_size n = Inl p"
  then have "0 \<le> n" and p: "p = IndexOutOfRange"
    by (auto simp: format_file_size_def Let_def size_suffixes_def split: if_splits)
  then have "2 ^ 60 < float64_of_nat (nat n)" using f format_file_size_panics_iff by blast
  then have "\<not> nat n \<le> 2 ^ 60" using float64_le_pow [of "nat n"] by auto
  then have "\<not> n \<le> 2 ^ 60" by (simp add: nat_le_iff)
  then show ?thesis using p by simp
qed

lemma convert_entries_panic:
  "convert_entries U mode can es info = Inl p \<Longrightarrow>
   p = IndexOutOfRange \<and> (\<exists>e\<in>set es. \<not> de_is_dir e \<and> 2 ^ 60 < de_size e)"
proof (induction es arbitrary: info)
  case (Cons e es)
  show ?case
  proof (cases "convert_entry U mode can e")
    case (Inl q)
    then have "format_file_size (de_size e) = Inl q" "\<not> de_is_dir e"
      by (auto simp: convert_entry_def Let_def split: if_splits sum.splits)
    then show ?thesis using file_size_panic Cons.prems Inl by auto
  next
    case (Inr we)
    then have "\<exists>info'. convert_entries U mode can es info' = Inl p"
      using Cons.prems by (auto simp: Let_def)
    then show ?thesis using Cons.IH by auto
  qed
qed simp

lemma convert_panic:
  "convert_rclone_info U mode can info = Inl p \<Longrightarrow>
   p = IndexOutOfRange \<and> (\<exists>e\<in>set (di_entries info). \<not> de_is_dir e \<and> 2 ^ 60 < de_size e)"
  unfolding convert_rclone_info_def by (rule convert_entries_panic)

lemma search_panic:
  assumes "index_search U iter sortf idx search limit = Inl p"
  shows "p = SliceOutOfRange \<and> limit < 0"
  using assms by (auto simp: index_search_def Let_def split: if_splits)

lemma search_service_panic:
  assumes "service_search U iter sortf s search limit = Inr (Inl p)"
  shows "p = SliceOutOfRange \<and> limit < 0"
  using assms search_panic by (fastforce simp: service_search_def split: option.splits)

lemma get_dir_info_Inl:
  "get_dir_info U sortf env r path srt order now later = (Inl e, r') \<Longrightarrow>
   get_dir_info_unsorted env r path now later = (Inl e, r')"
  by (auto simp: get_dir_info_def split: prod.splits sum.splits)

lemma unsorted_Inl:
  "get_dir_info_unsorted env r path now later = (Inl e, r') \<Longrightarrow> request_dir env r path = Inl e"
  by (auto simp: get_dir_info_unsorted_def Let_def split: if_splits prod.splits option.splits sum.splits)

text \<open>Only a document that is null makes the client panic.\<close>

lemma request_dir_panic:
  assumes "request_dir env r path = Inl (RclonePanic p)"
  shows "p = NilDereference \<and> (\<exists>resp. re_http env \<lparr>rq_method = ''GET'', rq_url = target_url r path, rq_range = None\<rparr> = Inr resp
    \<and> re_json env (concat (rs_body resp)) = Some JNull)"
proof (cases "make_request (re_http env) ''GET'' (target_url r path)")
  case (Inl e)
  then have "e \<noteq> RclonePanic p"
    by (auto simp: make_request_def new_rclone_error_def split: sum.splits if_splits)
  then show ?thesis using assms Inl by (simp add: request_dir_def)
next
  case (Inr resp)
  then have h: "re_http env \<lparr>rq_method = ''GET'', rq_url = target_url r path, rq_range = None\<rparr> = Inr resp"
    by (auto simp: make_request_def split: sum.splits if_splits)
  have "decode_dir_info (re_json env (concat (rs_body resp))) = Inl (RclonePanic p)"
    using assms Inr by (auto simp: request_dir_def split: sum.splits)
  then show ?thesis using h by (auto simp: decode_dir_info_def split: option.splits json.splits sum.splits)
qed

lemma web_dir_panic:
  assumes "web_get_dir_info sv r dir req now later = (Inl (DirPanic p), r')"
  shows "p = IndexOutOfRange \<and> (\<exists>info e. fst (get_dir_info (sr_ucd sv) (sr_sort sv) (sr_rclone_env sv) r
      (clean_dir dir) (form_value req ''sort'') (form_value req ''order'') now later) = Inr info
    \<and> e \<in> set (di_entries info) \<and> \<not> de_is_dir e \<and> 2 ^ 60 < de_size e)"
proof -
  obtain res r'' where g: "get_dir_info (sr_ucd sv) (sr_sort sv) (sr_rclone_env sv) r (clean_dir dir)
      (form_value req ''sort'') (form_value req ''order'') now later = (res, r'')" by fastforce
  show ?thesis
  proof (cases res)
    case (Inr info)
    then have "convert_rclone_info (sr_ucd sv) (sr_mode sv) (sr_can_generate sv) info = Inl p"
      using assms g by (auto simp: web_get_dir_info_def Let_def split: sum.splits)
    then show ?thesis using convert_panic g Inr by fastforce
  next
    case (Inl e)
    have "convert_rclone_info (sr_ucd sv) (sr_mode sv) (sr_can_generate sv) (missing_dir d) \<noteq> Inl p" for d
      using convert_panic by (fastforce simp: missing_dir_def)
    then show ?thesis
      using assms g Inl by (auto simp: web_get_dir_info_def Let_def split: sum.splits if_splits)
  qed
qed

lemma web_dir_rclone_panic:
  assumes "web_get_dir_info sv r dir req now later = (Inl (DirRclone (RclonePanic p)), r')"
  shows "request_dir (sr_rclone_env sv) r (clean_dir dir) = Inl (RclonePanic p)"
proof -
  obtain res r'' where g: "get_dir_info (sr_ucd sv) (sr_sort sv) (sr_rclone_env sv) r (clean_dir dir)
      (form_value req ''sort'') (form_value req ''order'') now later = (res, r'')" by fastforce
  then have "res = Inl (RclonePanic p)"
    using assms by (auto simp: web_get_dir_info_def Let_def split: sum.splits if_splits)
  then show ?thesis using get_dir_info_Inl unsorted_Inl g by blast
qed

text \<open>The causes of a panic: for a listing, for a search, and in the middleware.\<close>

definition listing_cause :: "world \<Rightarrow> server_state \<Rightarrow> string \<Rightarrow> web_request \<Rightarrow> panic \<Rightarrow> bool" where
  "listing_cause w st dir req p \<longleftrightarrow>
     (let sv = wl_server w; env = sr_rclone_env sv; r = st_rclone st; path = clean_dir dir
      in p = NilDereference \<and> (\<exists>resp. re_http env \<lparr>rq_method = ''GET'', rq_url = target_url r path, rq_range = None\<rparr> = Inr resp
             \<and> re_json env (concat (rs_body resp)) = Some JNull)
       \<or> p = IndexOutOfRange \<and> (\<exists>info e. fst (get_dir_info (sr_ucd sv) (sr_sort sv) env r path
               (form_value req ''sort'') (form_value req ''order'') (wl_load w) (wl_store w)) = Inr info
             \<and> e \<in> set (di_entries info) \<and> \<not> de_is_dir e \<and> 2 ^ 60 < de_size e))"

definition search_results :: "world \<Rightarrow> server_state \<Rightarrow> web_request \<Rightarrow> hit list" where
  "search_results w st req =
     (case service_search (sr_ucd (wl_server w)) (wl_iter w) (wl_sort_hits w) (st_search st)
         (form_value req ''search'') (page_limit (form_value req ''limit'')) of
        Inr (Inr (hits, _)) \<Rightarrow> hits
      | _ \<Rightarrow> [])"

definition abort_cause :: "world \<Rightarrow> route \<Rightarrow> web_request \<Rightarrow> server_state \<Rightarrow> server_panic \<Rightarrow> bool" where
  "abort_cause w rt req st p \<longleftrightarrow>
     (case p of
        MiddlewarePanic q \<Rightarrow>
          q = InvalidLabelValue \<and> \<not> valid_utf8 (wq_path req) \<and> path_label (wq_path req) = wq_path req
          \<and> \<not> not_logged (wq_path req)
      | HandlerPanic q \<Rightarrow>
          (case rt of
             Served UI \<Rightarrow> listing_cause w st (ensure_suffix (trim_prefix (wq_path req) ''/ui'') ''/'') req q
           | Served Dir \<Rightarrow> listing_cause w st (trim_prefix (wq_path req) ''/api/dir/'') req q
           | Served SearchApi \<Rightarrow>
               q = SliceOutOfRange \<and> (\<exists>limit<0. parse_int (form_value req ''limit'') = Inr limit)
           | Served PageWithSearchResults \<Rightarrow>
               q = SliceOutOfRange \<and> page_limit (form_value req ''limit'') < 0
               \<or> q = IndexOutOfRange \<and> (\<exists>h\<in>set (search_results w st req). \<not> hit_is_dir h \<and> 2 ^ 60 < hit_size h)
           | _ \<Rightarrow> False))"

lemma listing_cause_intro:
  assumes "web_get_dir_info (wl_server w) (st_rclone st) dir req (wl_load w) (wl_store w) = (Inl e, r')"
    and "e = DirPanic p \<or> e = DirRclone (RclonePanic p)"
  shows "listing_cause w st dir req p"
  using assms(2)
proof
  assume "e = DirPanic p"
  then show ?thesis using web_dir_panic assms(1) unfolding listing_cause_def Let_def by blast
next
  assume "e = DirRclone (RclonePanic p)"
  then show ?thesis
    using web_dir_rclone_panic request_dir_panic assms(1) unfolding listing_cause_def Let_def by blast
qed

lemma handle_dir_panic:
  assumes "handle_dir (wl_server w) (st_rclone st) req (wl_load w) (wl_store w) = (Inl p, r')"
  shows "listing_cause w st (trim_prefix (wq_path req) ''/api/dir/'') req p"
  using assms listing_cause_intro [of w st "trim_prefix (wq_path req) ''/api/dir/''" req]
  unfolding handle_dir_def Let_def
  by (fastforce split: prod.splits sum.splits dir_error.splits rclone_error.splits)

lemma handle_ui_panic:
  assumes "handle_ui (wl_server w) (st_rclone st) req (wl_load w) (wl_store w) = (Inl p, r')"
  shows "listing_cause w st (ensure_suffix (trim_prefix (wq_path req) ''/ui'') ''/'') req p"
  using assms listing_cause_intro [of w st "ensure_suffix (trim_prefix (wq_path req) ''/ui'') ''/''" req]
  unfolding handle_ui_def Let_def
  by (fastforce split: prod.splits sum.splits dir_error.splits rclone_error.splits)

lemma handle_search_panic:
  assumes "handle_search U render iter sortf s req = Inl p"
  shows "p = SliceOutOfRange \<and> (\<exists>limit<0. parse_int (form_value req ''limit'') = Inr limit)"
  using assms search_service_panic
  by (fastforce simp: handle_search_def Let_def split: sum.splits prod.splits if_splits)

lemma handle_page_panic:
  assumes "handle_page_with_search_results (wl_server w) (wl_iter w) (wl_sort_hits w) (st_search st) req = Inl p"
  shows "p = SliceOutOfRange \<and> page_limit (form_value req ''limit'') < 0
    \<or> p = IndexOutOfRange \<and> (\<exists>h\<in>set (search_results w st req). \<not> hit_is_dir h \<and> 2 ^ 60 < hit_size h)"
proof -
  have q: "extract_search s req = Inr q \<Longrightarrow> q = form_value req ''search''" for s q
    by (auto simp: extract_search_def Let_def split: if_splits)
  let ?res = "service_search (sr_ucd (wl_server w)) (wl_iter w) (wl_sort_hits w) (st_search st)
    (form_value req ''search'') (page_limit (form_value req ''limit''))"
  consider "?res = Inr (Inl p)"
    | hits n where "?res = Inr (Inr (hits, n))"
        "convert_rclone_info (sr_ucd (wl_server w)) (sr_mode (wl_server w)) (sr_can_generate (wl_server w)) (results_dir hits) = Inl p"
    using assms q by (auto simp: handle_page_with_search_results_def Let_def split: sum.splits prod.splits)
  then show ?thesis
  proof cases
    case 1
    then show ?thesis using search_service_panic by blast
  next
    case 2
    then show ?thesis using convert_panic [OF 2(2)] by (auto simp: search_results_def results_dir_def)
  qed
qed

lemma serve_panic: "serve w h req st = (Inl p, st') \<Longrightarrow> abort_cause w (Served h) req st (HandlerPanic p)"
  using handle_dir_panic [of w st req p] handle_ui_panic [of w st req p] handle_page_panic [of w st req p]
    handle_search_panic [of "sr_ucd (wl_server w)" "wl_render_search w" "wl_iter w" "wl_sort_hits w" "st_search st" req p]
  by (cases h) (auto simp: serve_def abort_cause_def split: prod.splits)


section \<open>The link of a listed file\<close>

text \<open>What the server counts for a request that it answers.\<close>

definition counted :: "world \<Rightarrow> route \<Rightarrow> web_request \<Rightarrow> web_response \<Rightarrow> web_metrics \<Rightarrow> web_metrics" where
  "counted w rt req resp m = snd (measured_request (wq_path req) (response_writes w rt resp) m)"

lemma serve_request_answered:
  assumes "parse_request_target target = Some req" "route_request m (takeWhile (\<lambda>c. c \<noteq> CHR ''?'') target) = Some (Served h)"
    and "serve w h req st = (Inr resp, st1)" "path_label (wq_path req) \<noteq> wq_path req \<or> valid_utf8 (wq_path req)"
  shows "serve_request w m target st =
    (Answered resp, st1\<lparr>st_metrics := counted w (Served h) req resp (st_metrics st1)\<rparr>)"
proof -
  let ?ops = "response_writes w (Served h) resp"
  have "fst (measured_request (wq_path req) ?ops (st_metrics st1)) = None"
    using assms(4) by (auto simp: measured_request_eq Let_def split: option.split)
  then obtain m' where "measured_request (wq_path req) ?ops (st_metrics st1) = (None, m')" by (metis prod.collapse)
  then show ?thesis using assms(1-3) by (simp add: serve_request_def route_response_def counted_def)
qed

lemma snoc_ne: "xs @ [x] \<noteq> []"
  by simp

lemma api_label: "path_label (''/api/file'' @ slash # p) \<noteq> ''/api/file'' @ slash # p \<or> valid_utf8 (''/api/file'' @ slash # p)"
proof -
  have "path_label (''/api/file'' @ slash # p) = ''/api/file/*''" by (simp add: path_label_def)
  moreover have "valid_utf8 ''/api/file/*''" by (rule valid_utf8_ascii) simp
  ultimately show ?thesis using path_label_valid [of "''/api/file'' @ slash # p"] by simp
qed

lemma handle_file_proxied:
  assumes "file_id_from_request req ''/api/file'' = Inr fid"
    and "http \<lparr>rq_method = ''GET'', rq_url = proxy_url r fid, rq_range = rng\<rparr> = Inr resp" "rs_status resp = 200"
    and "parse_http_time (rs_header resp ''Last-Modified'') = Some t" "parse_int (rs_header resp ''Content-Length'') = Inr n"
  shows "handle_file http r req rng =
    (if t \<noteq> fid_mod_time fid then respond 500 (Proxied (ProxyError (DifferentModTime t (fid_mod_time fid))))
     else if n \<noteq> fid_size fid then respond 500 (Proxied (ProxyError (DifferentSize n (fid_size fid))))
     else respond 200 (Proxied (ProxyResponse resp)))"
  using assms by (simp add: handle_file_def proxy_file_request_def modify_response_def check_mod_time_def
      check_content_length_def check_size_def Let_def)


section \<open>A search after a refresh\<close>

lemma plain_word: "list_all norm_ascii_rune w \<Longrightarrow> list_all plain_char (string_of_runes w)"
  using string_of_norm_runes [of w]
  by (fastforce simp: list_all_iff norm_ascii_rune_def is_digit_rune_def plain_char_def is_alnum_def)

definition search_target :: "string \<Rightarrow> int \<Rightarrow> string" where
  "search_target query limit = ''/api/search?search='' @ query @ ''&limit='' @ format_int limit"

lemma parse_search_target:
  assumes "list_all plain_char query"
  shows "parse_request_target (search_target query limit) =
      Some \<lparr>wq_path = ''/api/search'', wq_form = [(''search'', query), (''limit'', format_int limit)]\<rparr>"
    and "takeWhile (\<lambda>c. c \<noteq> CHR ''?'') (search_target query limit) = ''/api/search''"
proof -
  let ?a = "''search'' @ CHR ''='' # query" and ?b = "''limit'' @ CHR ''='' # format_int limit"
  have t: "search_target query limit = ''/api/search'' @ CHR ''?'' # (?a @ CHR ''&'' # ?b)"
    by (simp add: search_target_def)
  have n: "CHR ''&'' \<notin> set ?a" "CHR ''&'' \<notin> set ?b"
    using plain_not [OF assms not_plain(2)] plain_not [OF plain_format_int not_plain(2)] by simp_all
  have "split_on (CHR ''&'') (?a @ CHR ''&'' # ?b) = [?a, ?b]"
    using split_on_append_sep [OF n(1)] split_on_single [OF n(2)] by simp
  moreover have "parse_pair ?a = Some (''search'', query)" "parse_pair ?b = Some (''limit'', format_int limit)"
    using parse_pair_plain [OF _ assms, of "''search''"] parse_pair_plain [OF _ plain_format_int, of "''limit''"]
    by (simp_all add: plain_char_def is_alnum_def)
  ultimately have q: "parse_query (?a @ CHR ''&'' # ?b) = [(''search'', query), (''limit'', format_int limit)]"
    by (simp add: parse_query_def List.map_filter_simps)
  have p: "CHR ''?'' \<notin> set ''/api/search''" "url_unescape EncPath ''/api/search'' = Some ''/api/search''" by simp_all
  show "takeWhile (\<lambda>c. c \<noteq> CHR ''?'') (search_target query limit) = ''/api/search''"
    unfolding t by (rule takeWhile_sep [OF p(1)])
  show "parse_request_target (search_target query limit) =
      Some \<lparr>wq_path = ''/api/search'', wq_form = [(''search'', query), (''limit'', format_int limit)]\<rparr>"
    unfolding parse_request_target_def t takeWhile_sep [OF p(1)] cut_after_sep [OF p(1)] q p(2) by simp
qed

lemma route_search: "route_request ''GET'' ''/api/search'' = Some (Served SearchApi)"
proof -
  have esc: "map_option escaped_path (set_path (parse_path_url []) ''/api/search'') = Some ''/api/search''" by code_simp
  then obtain u where u: "set_path (parse_path_url []) ''/api/search'' = Some u" "escaped_path u = ''/api/search''"
    by auto
  have elems: "mux_elems ''/api/search'' = [''api'', ''search'']" by code_simp
  have clean: "mux_clean_path ''/api/search'' = ''/api/search''" by code_simp
  have m: "mux_match ''GET'' ''/api/search'' = Some (get_exact [''api'', ''search''] SearchApi)"
    by (simp add: mux_match_def candidates_def elems route_patterns_def static_dirs_def
        pattern_matches_def get_below_def get_exact_def)
  show ?thesis
    unfolding route_request_def u(1) by (simp add: u(2) Let_def clean m exact_match_def get_exact_def)
qed

lemma parse_refresh_target:
  "parse_request_target ''/api/search/refresh-index'' = Some \<lparr>wq_path = ''/api/search/refresh-index'', wq_form = []\<rparr>"
  by code_simp

lemma refresh_request:
  assumes "get_all_files (sr_rclone_env (wl_server w)) (st_rclone st) = Inr es" "wl_disk w = DiskOk"
  shows "\<exists>s m. refresh_index (sr_ucd (wl_server w)) (refresh_attempt w st) (st_search st) = (None, s)
    \<and> serve_request w ''POST'' ''/api/search/refresh-index'' st =
      (Answered (respond 200 NoBody), st\<lparr>st_search := s, st_metrics := m\<rparr>)"
proof -
  obtain s where s: "refresh_index (sr_ucd (wl_server w)) (refresh_attempt w st) (st_search st) = (None, s)"
    using refresh_index_state [of "refresh_attempt w st" es] assms by (simp add: refresh_attempt_def)
  have t: "takeWhile (\<lambda>c. c \<noteq> CHR ''?'') ''/api/search/refresh-index'' = ''/api/search/refresh-index''" by simp
  let ?req = "\<lparr>wq_path = ''/api/search/refresh-index'', wq_form = []\<rparr>"
  have "serve w RefreshIndexApi ?req st = (Inr (respond 200 NoBody), st\<lparr>st_search := s\<rparr>)"
    using s by (simp add: serve_def handle_refresh_index_def)
  moreover have "path_label (wq_path ?req) \<noteq> wq_path ?req \<or> valid_utf8 (wq_path ?req)"
    by (rule disjI2) (simp add: valid_utf8_ascii)
  ultimately have "serve_request w ''POST'' ''/api/search/refresh-index'' st =
      (Answered (respond 200 NoBody),
       st\<lparr>st_search := s, st_metrics := counted w (Served RefreshIndexApi) ?req (respond 200 NoBody) (st_metrics st)\<rparr>)"
    using serve_request_answered [OF parse_refresh_target, of "''POST''" RefreshIndexApi w st _ "st\<lparr>st_search := s\<rparr>"]
    unfolding t routes_sample_3 by simp
  then show ?thesis using s by blast
qed


section \<open>A sample server\<close>

definition sample_response :: http_response where
  "sample_response =
     \<lparr>rs_status = 200,
      rs_header = (\<lambda>k. if k = ''Last-Modified'' then format_http_time 1700000000 else ''5''),
      rs_body = [''hello'']\<rparr>"

definition sample_files :: json where
  "sample_files =
     JObj [(''list'', JArr
       [JObj [(''Path'', JStr ''cats''), (''IsDir'', JBool True), (''Size'', JInt (-1)), (''ModTime'', JStr ''1970-01-01T00:00:01Z'')],
        JObj [(''Path'', JStr ''cats/cat.txt''), (''IsDir'', JBool False), (''Size'', JInt 5),
              (''ModTime'', JStr ''1970-01-01T00:00:02Z'')]])]"

definition sample_web :: server where
  "sample_web =
     \<lparr>sr_ucd = ascii_ucd, sr_sort = insertion_sort, sr_mode = ''thumbnails'',
      sr_rclone_env = \<lparr>re_http = (\<lambda>_. Inr sample_response), re_json = (\<lambda>_. Some sample_files), re_entities = Map.empty\<rparr>,
      sr_can_generate = (\<lambda>_. False), sr_render = (\<lambda>_ _. True)\<rparr>"

definition sample_world :: world where
  "sample_world =
     \<lparr>wl_server = sample_web, wl_config = default_config \<lparr>bi_short_git_hash = ''abc'', bi_commit_time = []\<rparr> 1,
      wl_iter = sorted_list_of_set, wl_sort_hits = insertion_sort, wl_render_search = (\<lambda>_ _. True),
      wl_open_thumbnail = (\<lambda>_ _. Inl (FromCache CacheMiss)), wl_range = None, wl_zone = (\<lambda>_. 0),
      wl_now = 1700000000, wl_load = 0, wl_store = 0, wl_disk = DiskOk, wl_file_server = (\<lambda>_. respond 404 NoBody),
      wl_debug = (\<lambda>_. respond 200 NoBody), wl_redirect = (\<lambda>_. respond 307 NoBody), wl_text = (\<lambda>_. []),
      wl_gone = False\<rparr>"

definition sample_state :: server_state where
  "sample_state =
     \<lparr>st_rclone = sample_rclone,
      st_search = \<lparr>ss_index = None, ss_min_prefix_len = 3, ss_max_prefix_len = 10, ss_file = NoFile\<rparr>,
      st_metrics = no_web_metrics\<rparr>"




end
