(* ===== verification/RcloneProcess.thy ===== *)
theory RcloneProcess
  imports Config Rclone
begin

text \<open>
  The rclone process of rclone/rclone.go: NewRclone with its command line, Start and Shutdown
  as steps over the state that they share, and redirectRcloneLogs.
\<close>

section \<open>NewRclone\<close>

datatype rclone_setup_error =
    BadRcloneUrl
  | NoRandomBytes
  | NoRcloneBinary
  | NoTemplateFile
  | TemplateFileNotWritten
  | TemplateFileNotClosed

text \<open>
  What NewRclone takes from outside: whether the configured URL parses, the random bytes, whether
  rclone is installed, and what happens to the temporary file of the template.
\<close>

record new_rclone_env =
  ne_url_parses :: bool
  ne_random :: "string option"
  ne_look_path :: bool
  ne_temp_file :: "string option"
  ne_write_ok :: bool
  ne_close_ok :: bool

definition new_random_string :: "nat \<Rightarrow> string option \<Rightarrow> string option" where
  "new_random_string n random = map_option (\<lambda>d. hex_encode (take (n div 2) d)) random"

datatype rclone_url = ExistingUrl string | LocalUrl (lu_host: string) (lu_user: string) (lu_pass: string)

record rclone_instance =
  ri_args :: "string list option"
  ri_url :: rclone_url
  ri_target :: string
  ri_dir_cache :: dir_cache

definition rclone_args :: "string \<Rightarrow> string \<Rightarrow> string \<Rightarrow> string \<Rightarrow> rclone_config \<Rightarrow> string list" where
  "rclone_args user pass host template cfg =
     [''rcd'', ''--rc-user'', user, ''--rc-pass'', pass, ''--rc-serve'', ''--rc-addr'', host,
      ''--rc-template'', template, ''--rc-web-gui-no-open-browser''] @
     (if rcf_request_real_mod_time cfg then [] else [''--use-server-modtime''])"

definition new_rclone :: "new_rclone_env \<Rightarrow> rclone_config \<Rightarrow> rclone_setup_error + rclone_instance" where
  "new_rclone env cfg =
     (let make = (\<lambda>args u. \<lparr>ri_args = args, ri_url = u, ri_target = rcf_target cfg,
                            ri_dir_cache = new_dir_cache (rcf_dir_cache_ttl cfg)\<rparr>)
      in if rcf_url cfg \<noteq> [] then
           if ne_url_parses env then Inr (make None (ExistingUrl (rcf_url cfg))) else Inl BadRcloneUrl
         else
           case new_random_string 10 (ne_random env) of
             None \<Rightarrow> Inl NoRandomBytes
           | Some pass \<Rightarrow>
               if \<not> ne_look_path env then Inl NoRcloneBinary
               else case ne_temp_file env of
                   None \<Rightarrow> Inl NoTemplateFile
                 | Some template \<Rightarrow>
                     if \<not> ne_write_ok env then Inl TemplateFileNotWritten
                     else if \<not> ne_close_ok env then Inl TemplateFileNotClosed
                     else
                       let host = ''localhost:'' @ format_int (rcf_port cfg)
                       in Inr (make (Some (rclone_args ''rview'' pass host template cfg))
                            (LocalUrl host ''rview'' pass)))"

section \<open>Start and Shutdown\<close>

text \<open>
  Start runs in a goroutine of its own, concurrently with Shutdown; both use the channel stoppedCh
  and the flag stoppedByShutdown, and Shutdown cancels the context of the command. A command
  whose context is cancelled cannot be started, and is killed when it runs.
\<close>

datatype start_error = NoPipe | CommandNotStarted | CommandFailed

datatype start_phase =
    NotStarted
  | Starting
  | CommandRuns
  | CommandExited bool
  | StartReturned "start_error option"

datatype stopped_channel = NoChannel | OpenChannel | ClosedChannel

datatype shutdown_phase = NotCalled | Flagged | Cancelled | ShutdownReturned bool

record rclone_process =
  pr_has_command :: bool
  pr_start :: start_phase
  pr_channel :: stopped_channel
  pr_shutdown :: shutdown_phase

definition new_process :: "rclone_instance \<Rightarrow> rclone_process" where
  "new_process r =
     \<lparr>pr_has_command = (ri_args r \<noteq> None), pr_start = NotStarted, pr_channel = NoChannel, pr_shutdown = NotCalled\<rparr>"

definition stopped_by_shutdown :: "rclone_process \<Rightarrow> bool" where
  "stopped_by_shutdown p \<longleftrightarrow> pr_shutdown p \<noteq> NotCalled"

definition context_cancelled :: "rclone_process \<Rightarrow> bool" where
  "context_cancelled p \<longleftrightarrow> pr_shutdown p \<noteq> NotCalled \<and> pr_shutdown p \<noteq> Flagged"

definition start_returns :: "start_error option \<Rightarrow> rclone_process \<Rightarrow> rclone_process" where
  "start_returns e p = p\<lparr>pr_start := StartReturned e, pr_channel := ClosedChannel\<rparr>"

text \<open>\<open>ShutdownReturned ok\<close>: without an error, or with the error of the context.\<close>

inductive process_step :: "rclone_process \<Rightarrow> rclone_process \<Rightarrow> bool" where
  start_begins:
    "pr_start p = NotStarted \<Longrightarrow> process_step p (p\<lparr>pr_start := Starting, pr_channel := OpenChannel\<rparr>)"
| no_command: "pr_start p = Starting \<Longrightarrow> \<not> pr_has_command p \<Longrightarrow> process_step p (start_returns None p)"
| no_pipe: "pr_start p = Starting \<Longrightarrow> pr_has_command p \<Longrightarrow> process_step p (start_returns (Some NoPipe) p)"
| not_started:
    "pr_start p = Starting \<Longrightarrow> pr_has_command p \<Longrightarrow> process_step p (start_returns (Some CommandNotStarted) p)"
| started:
    "pr_start p = Starting \<Longrightarrow> pr_has_command p \<Longrightarrow> \<not> context_cancelled p \<Longrightarrow>
     process_step p (p\<lparr>pr_start := CommandRuns\<rparr>)"
| exits: "pr_start p = CommandRuns \<Longrightarrow> process_step p (p\<lparr>pr_start := CommandExited failed\<rparr>)"
| waited:
    "pr_start p = CommandExited failed \<Longrightarrow>
     process_step p (start_returns (if failed \<and> \<not> stopped_by_shutdown p then Some CommandFailed else None) p)"
| flagged: "pr_shutdown p = NotCalled \<Longrightarrow> process_step p (p\<lparr>pr_shutdown := Flagged\<rparr>)"
| cancelled: "pr_shutdown p = Flagged \<Longrightarrow> process_step p (p\<lparr>pr_shutdown := Cancelled\<rparr>)"
| nothing_to_wait_for:
    "pr_shutdown p = Cancelled \<Longrightarrow> pr_channel p = NoChannel \<Longrightarrow>
     process_step p (p\<lparr>pr_shutdown := ShutdownReturned True\<rparr>)"
| stopped:
    "pr_shutdown p = Cancelled \<Longrightarrow> pr_channel p = ClosedChannel \<Longrightarrow>
     process_step p (p\<lparr>pr_shutdown := ShutdownReturned True\<rparr>)"
| timed_out:
    "pr_shutdown p = Cancelled \<Longrightarrow> pr_channel p \<noteq> NoChannel \<Longrightarrow>
     process_step p (p\<lparr>pr_shutdown := ShutdownReturned False\<rparr>)"

inductive_cases process_stepE: "process_step p q"

section \<open>No process is left behind\<close>

text \<open>The channel tells how far Start is.\<close>

definition process_inv :: "rclone_process \<Rightarrow> bool" where
  "process_inv p \<longleftrightarrow>
     (pr_channel p = NoChannel \<longleftrightarrow> pr_start p = NotStarted)
     \<and> (pr_channel p = ClosedChannel \<longleftrightarrow> (\<exists>e. pr_start p = StartReturned e))
     \<and> (pr_shutdown p = ShutdownReturned True \<longrightarrow>
          pr_start p = NotStarted \<or> pr_start p = Starting \<or> (\<exists>e. pr_start p = StartReturned e))"

lemma process_inv_new: "process_inv (new_process r)"
  by (simp add: process_inv_def new_process_def)

lemma process_inv_step: "process_step p q \<Longrightarrow> process_inv p \<Longrightarrow> process_inv q"
  by (erule process_stepE) (auto simp: process_inv_def start_returns_def context_cancelled_def)

lemma process_inv_reachable: "process_step\<^sup>*\<^sup>* p q \<Longrightarrow> process_inv p \<Longrightarrow> process_inv q"
  by (induction rule: rtranclp_induct) (auto intro: process_inv_step)

text \<open>What Shutdown has done stays done, and it returns once.\<close>

lemma shutdown_returned_stays: "process_step\<^sup>*\<^sup>* p q \<Longrightarrow> pr_shutdown p = ShutdownReturned ok \<Longrightarrow> pr_shutdown q = ShutdownReturned ok"
  by (induction rule: rtranclp_induct) (auto elim!: process_stepE simp: start_returns_def)

definition command_alive :: "rclone_process \<Rightarrow> bool" where
  "command_alive p \<longleftrightarrow> pr_start p = CommandRuns \<or> (\<exists>failed. pr_start p = CommandExited failed)"

text \<open>
  C36: Once Shutdown has returned without an error, rclone does not run and never will, whether
  Start had finished, was under way or had not begun.
\<close>

theorem no_rclone_after_shutdown:
  assumes "process_step\<^sup>*\<^sup>* (new_process r) p" "pr_shutdown p = ShutdownReturned True" "process_step\<^sup>*\<^sup>* p q"
  shows "\<not> command_alive q"
proof -
  have "process_inv q" using assms(1,3) process_inv_new process_inv_reachable by (metis rtranclp_trans)
  moreover have "pr_shutdown q = ShutdownReturned True" using shutdown_returned_stays assms(2,3) by blast
  ultimately show ?thesis by (auto simp: process_inv_def command_alive_def)
qed

text \<open>Start reports no failure of a command that Shutdown has stopped.\<close>

lemma stop_is_quiet:
  assumes "process_step\<^sup>*\<^sup>* p q" "stopped_by_shutdown p" "command_alive p" "pr_start q = StartReturned e"
  shows "e = None"
proof -
  have "stopped_by_shutdown q \<and> (command_alive q \<or> pr_start q = StartReturned None)"
    using assms(1)
  proof (induction rule: rtranclp_induct)
    case base
    then show ?case using assms(2,3) by simp
  next
    case (step q t)
    from step(2,3) show ?case
      by (auto elim!: process_stepE simp: stopped_by_shutdown_def command_alive_def start_returns_def)
  qed
  then show ?thesis using assms(4) by (auto simp: command_alive_def)
qed

lemma no_rclone_after_shutdown_witness:
  "\<exists>p. process_step\<^sup>*\<^sup>*
      (new_process \<lparr>ri_args = Some [], ri_url = ExistingUrl [], ri_target = [], ri_dir_cache = new_dir_cache 0\<rparr>) p
    \<and> pr_start p = StartReturned None \<and> (\<forall>q. process_step\<^sup>*\<^sup>* p q \<longrightarrow> \<not> command_alive q)"
proof -
  let ?r = "\<lparr>ri_args = Some [], ri_url = ExistingUrl [], ri_target = [], ri_dir_cache = new_dir_cache 0\<rparr>"
  let ?p = "\<lambda>st ch sh. \<lparr>pr_has_command = True, pr_start = st, pr_channel = ch, pr_shutdown = sh\<rparr>"
  have 0: "new_process ?r = ?p NotStarted NoChannel NotCalled" by (simp add: new_process_def)
  have 1: "process_step (?p NotStarted NoChannel NotCalled) (?p Starting OpenChannel NotCalled)"
    using start_begins [of "?p NotStarted NoChannel NotCalled"] by simp
  have 2: "process_step (?p Starting OpenChannel NotCalled) (?p CommandRuns OpenChannel NotCalled)"
    using started [of "?p Starting OpenChannel NotCalled"] by (simp add: context_cancelled_def)
  have 3: "process_step (?p CommandRuns OpenChannel NotCalled) (?p CommandRuns OpenChannel Flagged)"
    using flagged [of "?p CommandRuns OpenChannel NotCalled"] by simp
  have 4: "process_step (?p CommandRuns OpenChannel Flagged) (?p CommandRuns OpenChannel Cancelled)"
    using cancelled [of "?p CommandRuns OpenChannel Flagged"] by simp
  have 5: "process_step (?p CommandRuns OpenChannel Cancelled) (?p (CommandExited True) OpenChannel Cancelled)"
    using exits [of "?p CommandRuns OpenChannel Cancelled" True] by simp
  have 6: "process_step (?p (CommandExited True) OpenChannel Cancelled) (?p (StartReturned None) ClosedChannel Cancelled)"
    using waited [of "?p (CommandExited True) OpenChannel Cancelled" True]
    by (simp add: start_returns_def stopped_by_shutdown_def)
  have 7: "process_step (?p (StartReturned None) ClosedChannel Cancelled) (?p (StartReturned None) ClosedChannel (ShutdownReturned True))"
    using stopped [of "?p (StartReturned None) ClosedChannel Cancelled"] by simp
  have "process_step\<^sup>*\<^sup>* (new_process ?r) (?p (StartReturned None) ClosedChannel (ShutdownReturned True))"
    unfolding 0 using 1 2 3 4 5 6 7 by (meson converse_rtranclp_into_rtranclp rtranclp.rtrancl_refl)
  then show ?thesis using no_rclone_after_shutdown [of ?r] by fastforce
qed

text \<open>A Shutdown before the command is started, on the other hand, makes Start fail with an error.\<close>

lemma early_stop_is_an_error:
  assumes "process_step\<^sup>*\<^sup>* p q" "pr_has_command p" "context_cancelled p" "pr_start p = NotStarted \<or> pr_start p = Starting"
    and "pr_start q = StartReturned e"
  shows "e \<noteq> None"
proof -
  have "context_cancelled q \<and> pr_has_command q
      \<and> (pr_start q = NotStarted \<or> pr_start q = Starting \<or> (\<exists>x. pr_start q = StartReturned (Some x)))"
    using assms(1)
  proof (induction rule: rtranclp_induct)
    case base
    then show ?case using assms(2-4) by blast
  next
    case (step q t)
    from step(2,3) show ?case
      by (auto elim!: process_stepE simp: context_cancelled_def start_returns_def)
  qed
  then show ?thesis using assms(5) by auto
qed

text \<open>The client of a local rclone uses the address and the credentials that rclone is started with.\<close>

lemma new_rclone_credentials:
  assumes "new_rclone env cfg = Inr r" "ri_args r = Some args"
  shows "\<exists>template. ne_temp_file env = Some template
    \<and> args = rclone_args (lu_user (ri_url r)) (lu_pass (ri_url r)) (lu_host (ri_url r)) template cfg"
  using assms by (auto simp: new_rclone_def Let_def split: if_splits option.splits)

section \<open>The log of rclone\<close>

definition skipped_line :: "string \<Rightarrow> bool" where
  "skipped_line txt \<longleftrightarrow>
     sublist (''Didn'' @ CHR 0x27 # ''t finish writing GET request'') txt \<or> sublist ''context canceled'' txt"

text \<open>bufio.Scanner: lines without their line end; a line of 64 KiB ends the scan with an error.\<close>

definition drop_cr :: "string \<Rightarrow> string" where
  "drop_cr l = (if l \<noteq> [] \<and> last l = CHR 0x0D then butlast l else l)"

definition scan_lines :: "string \<Rightarrow> string list \<times> bool" where
  "scan_lines s =
     (let ls = split_on (CHR 0x0A) s;
          ls = (if last ls = [] then butlast ls else ls);
          fits = takeWhile (\<lambda>l. length l < 65536) ls
      in (map drop_cr fits, length fits < length ls))"

definition redirect_rclone_logs :: "string \<Rightarrow> string list \<times> bool" where
  "redirect_rclone_logs s =
     (case scan_lines s of (ls, err) \<Rightarrow>
        (map (\<lambda>l. ''[RCLONE]: '' @ l) (filter (\<lambda>l. \<not> skipped_line l) ls), err))"

end
