(* ===== verification/GoFlag.thy ===== *)
theory GoFlag
  imports Misc
begin

text \<open>
  How package flag of Go's standard library reads the values of flags: strconv.ParseInt with base
  0 and strconv.ParseBool, time.ParseDuration with its float64 arithmetic, the levels of log/slog,
  and the arguments of a command line themselves.
\<close>

section \<open>strconv\<close>

text \<open>A digit of a base up to 16, in either case.\<close>

definition digit_of :: "char \<Rightarrow> nat option" where
  "digit_of c =
     (if is_digit c then Some (byte c - 48)
      else let l = byte (lower_char c) in if 97 \<le> l \<and> l \<le> 122 then Some (l - 87) else None)"

text \<open>The base that a prefix gives, and what follows the prefix.\<close>

definition base_prefix :: "string \<Rightarrow> nat \<times> string" where
  "base_prefix s =
     (case s of
        z # c # d # t \<Rightarrow>
          if z \<noteq> CHR ''0'' then (10, s)
          else if lower_char c = CHR ''b'' then (2, d # t)
          else if lower_char c = CHR ''o'' then (8, d # t)
          else if lower_char c = CHR ''x'' then (16, d # t)
          else (8, c # d # t)
      | z # t \<Rightarrow> if z = CHR ''0'' then (8, t) else (10, s)
      | [] \<Rightarrow> (10, []))"

text \<open>Underscores are digits without a value; where they may stand is checked afterwards.\<close>

fun base_value :: "nat \<Rightarrow> nat \<Rightarrow> string \<Rightarrow> nat option" where
  "base_value b n [] = Some n"
| "base_value b n (c # s) =
     (if c = CHR ''_'' then base_value b n s
      else case digit_of c of
          None \<Rightarrow> None
        | Some d \<Rightarrow> if d < b then base_value b (n * b + d) s else None)"

text \<open>underscoreOK: \<open>saw\<close> is '0' after a digit or a prefix, '_' after an underscore, else '!'.\<close>

fun underscores_ok :: "bool \<Rightarrow> char \<Rightarrow> string \<Rightarrow> bool" where
  "underscores_ok hex saw [] \<longleftrightarrow> saw \<noteq> CHR ''_''"
| "underscores_ok hex saw (c # s) \<longleftrightarrow>
     (if is_digit c \<or> hex \<and> 97 \<le> byte (lower_char c) \<and> byte (lower_char c) \<le> 102 then underscores_ok hex (CHR ''0'') s
      else if c = CHR ''_'' then saw = CHR ''0'' \<and> underscores_ok hex (CHR ''_'') s
      else saw \<noteq> CHR ''_'' \<and> underscores_ok hex (CHR ''!'') s)"

definition underscore_ok :: "string \<Rightarrow> bool" where
  "underscore_ok s =
     (case s of
        z # c # t \<Rightarrow>
          if z = CHR ''0'' \<and> lower_char c \<in> {CHR ''b'', CHR ''o'', CHR ''x''}
          then underscores_ok (lower_char c = CHR ''x'') (CHR ''0'') t
          else underscores_ok False (CHR ''!'') s
      | _ \<Rightarrow> underscores_ok False (CHR ''!'') s)"

definition parse_int_any_base :: "string \<Rightarrow> num_error + int" where
  "parse_int_any_base s =
     (let (neg, u) = split_sign s; (b, ds) = base_prefix u
      in if u = [] then Inl ErrSyntax
         else case base_value b 0 ds of
             None \<Rightarrow> Inl ErrSyntax
           | Some n \<Rightarrow>
               let v = int n
               in if CHR ''_'' \<in> set ds \<and> \<not> underscore_ok u then Inl ErrSyntax
                  else if \<not> neg \<and> max_int64 < v then Inl ErrRange
                  else if neg \<and> - min_int64 < v then Inl ErrRange
                  else Inr (if neg then - v else v))"

definition parse_bool :: "string \<Rightarrow> bool option" where
  "parse_bool s =
     (if s \<in> {''1'', ''t'', ''T'', ''TRUE'', ''true'', ''True''} then Some True
      else if s \<in> {''0'', ''f'', ''F'', ''FALSE'', ''false'', ''False''} then Some False
      else None)"

definition format_bool :: "bool \<Rightarrow> string" where
  "format_bool b = (if b then ''true'' else ''false'')"

section \<open>Durations\<close>

definition duration_units :: "(string \<times> nat) list" where
  "duration_units =
     [(''ns'', 1), (''us'', 1000), ([CHR 0xC2, CHR 0xB5, CHR ''s''], 1000), ([CHR 0xCE, CHR 0xBC, CHR ''s''], 1000),
      (''ms'', 1000000), (''s'', 1000000000), (''m'', 60000000000), (''h'', 3600000000000)]"

text \<open>
  float64 arithmetic on positive rationals: the significand has 53 bits, and a quotient is rounded
  to the nearest, ties to even. The values here are far from the ends of the range.
\<close>

function scale_up :: "nat \<Rightarrow> nat \<Rightarrow> nat" where
  "scale_up n d = (if n = 0 \<or> d = 0 \<or> 2 ^ 52 * d \<le> n then 0 else Suc (scale_up (2 * n) d))"
  by pat_completeness auto
termination
proof (relation "measure (\<lambda>(n, d). 2 ^ 52 * d - n)")
  fix n d :: nat
  assume "\<not> (n = 0 \<or> d = 0 \<or> 2 ^ 52 * d \<le> n)"
  then have "0 < n" "n < 2 ^ 52 * d" by auto
  then show "((2 * n, d), (n, d)) \<in> measure (\<lambda>(n, d). 2 ^ 52 * d - n)" using diff_less_mono2 [of n "2 * n"] by simp
qed simp

declare scale_up.simps [simp del]

text \<open>The quotient of two naturals as a float, given as a fraction.\<close>

definition float64_div :: "nat \<Rightarrow> nat \<Rightarrow> nat \<times> nat" where
  "float64_div n d =
     (let e = scale_up n d; q = n * 2 ^ e div d; k = excess_bits 53 q
      in (round_div (n * 2 ^ e) (d * 2 ^ k) * 2 ^ k, 2 ^ e))"

text \<open>\<open>uint64(float64(f) * (float64(unit) / scale))\<close>.\<close>

definition fraction_value :: "nat \<Rightarrow> nat \<Rightarrow> nat \<Rightarrow> nat" where
  "fraction_value f unt scale =
     (let (p, q) = float64_div unt scale; (r, t) = float64_div (float64_of_nat f * p) q
      in r div t)"

fun leading_int :: "nat \<Rightarrow> string \<Rightarrow> (nat \<times> string) option" where
  "leading_int x [] = Some (x, [])"
| "leading_int x (c # s) =
     (if \<not> is_digit c then Some (x, c # s)
      else if 2 ^ 63 div 10 < x then None
      else let y = x * 10 + (byte c - 48) in if 2 ^ 63 < y then None else leading_int y s)"

fun leading_fraction :: "bool \<Rightarrow> nat \<Rightarrow> nat \<Rightarrow> string \<Rightarrow> nat \<times> nat \<times> string" where
  "leading_fraction ovf x scale [] = (x, scale, [])"
| "leading_fraction ovf x scale (c # s) =
     (if \<not> is_digit c then (x, scale, c # s)
      else if ovf \<or> (2 ^ 63 - 1) div 10 < x \<or> 2 ^ 63 < x * 10 + (byte c - 48) then leading_fraction True x scale s
      else leading_fraction False (x * 10 + (byte c - 48)) (scale * 10) s)"

definition is_number_char :: "char \<Rightarrow> bool" where
  "is_number_char c \<longleftrightarrow> c = CHR ''.'' \<or> is_digit c"

text \<open>One number with its unit, and what follows it.\<close>

definition duration_part :: "string \<Rightarrow> (nat \<times> string) option" where
  "duration_part s =
     (if s = [] \<or> \<not> is_number_char (hd s) then None
      else case leading_int 0 s of
          None \<Rightarrow> None
        | Some (v, s1) \<Rightarrow>
            let (f, scale, s2) = (if s1 \<noteq> [] \<and> hd s1 = CHR ''.'' then leading_fraction False 0 1 (tl s1) else (0, 1, s1));
                pre = (s1 \<noteq> s); post = (s1 \<noteq> [] \<and> hd s1 = CHR ''.'' \<and> s2 \<noteq> tl s1)
            in if \<not> pre \<and> \<not> post then None
               else case map_of duration_units (takeWhile (\<lambda>c. \<not> is_number_char c) s2) of
                   None \<Rightarrow> None
                 | Some unt \<Rightarrow>
                     if 2 ^ 63 div unt < v then None
                     else
                       let w = v * unt + (if 0 < f then fraction_value f unt scale else 0)
                       in if 2 ^ 63 < w then None
                          else Some (w, dropWhile (\<lambda>c. \<not> is_number_char c) s2))"

text \<open>Every part is shorter than the text: the fuel is the length of the text.\<close>

fun duration_parts :: "nat \<Rightarrow> nat \<Rightarrow> string \<Rightarrow> nat option" where
  "duration_parts fuel d [] = Some d"
| "duration_parts 0 d (c # s) = None"
| "duration_parts (Suc fuel) d (c # s) =
     (case duration_part (c # s) of
        None \<Rightarrow> None
      | Some (w, t) \<Rightarrow> if 2 ^ 63 < d + w then None else duration_parts fuel (d + w) t)"

definition parse_duration :: "string \<Rightarrow> int option" where
  "parse_duration s =
     (let (neg, u) = split_sign s
      in if u = ''0'' then Some 0
         else if u = [] then None
         else case duration_parts (length u) 0 u of
             None \<Rightarrow> None
           | Some d \<Rightarrow>
               if neg then Some (- int d) else if max_int64 < int d then None else Some (int d))"

section \<open>Levels of log/slog\<close>

definition level_names :: "(string \<times> int) list" where
  "level_names = [(''DEBUG'', -4), (''INFO'', 0), (''WARN'', 4), (''ERROR'', 8)]"

definition upper_char :: "char \<Rightarrow> char" where
  "upper_char c = (if 0x61 \<le> byte c \<and> byte c \<le> 0x7A then char_of (byte c - 32) else c)"

text \<open>
  strings.ToUpper of a name. The letters outside of ASCII whose upper case is in ASCII are U+0131
  and U+017F; others never become part of a name.
\<close>

fun upper_text :: "string \<Rightarrow> string" where
  "upper_text [] = []"
| "upper_text [c] = [upper_char c]"
| "upper_text (c # d # s) =
     (if c = CHR 0xC4 \<and> d = CHR 0xB1 then CHR ''I'' # upper_text s
      else if c = CHR 0xC5 \<and> d = CHR 0xBF then CHR ''S'' # upper_text s
      else upper_char c # upper_text (d # s))"

definition parse_level :: "string \<Rightarrow> int option" where
  "parse_level s =
     (let name = takeWhile (\<lambda>c. c \<noteq> CHR ''+'' \<and> c \<noteq> CHR ''-'') s; rest = drop (length name) s
      in case (if rest = [] then Inr 0 else parse_int rest) of
           Inl _ \<Rightarrow> None
         | Inr offset \<Rightarrow>
             map_option (\<lambda>l. i64 (l + offset)) (map_of level_names (upper_text name)))"

text \<open>Level.String.\<close>

definition signed_text :: "int \<Rightarrow> string" where
  "signed_text n = (if n = 0 then [] else if 0 < n then CHR ''+'' # format_int n else format_int n)"

definition level_text :: "int \<Rightarrow> string" where
  "level_text l =
     (if l < 0 then ''DEBUG'' @ signed_text (l + 4)
      else if l < 4 then ''INFO'' @ signed_text l
      else if l < 8 then ''WARN'' @ signed_text (l - 4)
      else ''ERROR'' @ signed_text (l - 8))"

section \<open>Arguments\<close>

datatype flag_error =
    BadFlagSyntax string
  | FlagNotDefined string
  | FlagNeedsArgument string
  | InvalidFlagValue string string
  | HelpRequested

text \<open>
  A flag: its name, whether it is boolean, which means that it takes no argument of its own, and
  how it stores a value.
\<close>

type_synonym 's flag = "bool \<times> (string \<Rightarrow> 's \<Rightarrow> 's option)"

definition split_flag :: "string \<Rightarrow> string \<times> string option" where
  "split_flag name =
     (let n = hd name # takeWhile (\<lambda>c. c \<noteq> CHR ''='') (tl name)
      in (n, if n = name then None else Some (drop (length n + 1) name)))"

fun parse_flags :: "(string \<times> 's flag) list \<Rightarrow> string list \<Rightarrow> 's \<Rightarrow> flag_error + 's" where
  "parse_flags flags [] st = Inr st"
| "parse_flags flags (a # args) st =
     (if length a < 2 \<or> hd a \<noteq> CHR ''-'' \<or> a = ''--'' then Inr st
      else
        let name = (if a ! 1 = CHR ''-'' then drop 2 a else tl a)
        in if hd name = CHR ''-'' \<or> hd name = CHR ''='' then Inl (BadFlagSyntax a)
           else case split_flag name of (n, v) \<Rightarrow>
             (case map_of flags n of
                None \<Rightarrow> Inl (if n = ''help'' \<or> n = ''h'' then HelpRequested else FlagNotDefined n)
              | Some (is_bool, set_value) \<Rightarrow>
                  (case v of
                     Some x \<Rightarrow>
                       (case set_value x st of
                          None \<Rightarrow> Inl (InvalidFlagValue n x)
                        | Some st' \<Rightarrow> parse_flags flags args st')
                   | None \<Rightarrow>
                       if is_bool then
                         (case set_value ''true'' st of
                            None \<Rightarrow> Inl (InvalidFlagValue n ''true'')
                          | Some st' \<Rightarrow> parse_flags flags args st')
                       else
                         (case args of
                            [] \<Rightarrow> Inl (FlagNeedsArgument n)
                          | x # args \<Rightarrow>
                              (case set_value x st of
                                 None \<Rightarrow> Inl (InvalidFlagValue n x)
                               | Some st' \<Rightarrow> parse_flags flags args st')))))"

section \<open>Reading back what was written\<close>

lemma digit_of_digit_char: "n < 10 \<Longrightarrow> digit_of (digit_char n) = Some n"
  by (simp add: digit_of_def)

lemma digit_char_not [simp]: "n < 10 \<Longrightarrow> digit_char n \<noteq> CHR ''_''"
proof
  assume n: "n < 10" and "digit_char n = CHR ''_''"
  then have "byte (digit_char n) = byte (CHR ''_'')" by simp
  then show False using n by simp
qed

lemma base_value_append: "base_value b n (s @ t) = Option.bind (base_value b n s) (\<lambda>m. base_value b m t)"
  by (induction b n s rule: base_value.induct) (auto split: option.splits)

lemma base_value_format: "base_value 10 0 (format_nat n) = Some n"
proof (induction n rule: format_nat.induct)
  case (1 n)
  then show ?case by (subst format_nat.simps) (simp add: base_value_append digit_of_digit_char)
qed

lemma hd_format_nat: "0 < n \<Longrightarrow> hd (format_nat n) \<noteq> CHR ''0''"
proof (induction n rule: format_nat.induct)
  case (1 n)
  show ?case
  proof (cases "n < 10")
    case True
    then have "byte (digit_char n) \<noteq> byte (CHR ''0'')" using 1(2) by simp
    then have "digit_char n \<noteq> CHR ''0''" by metis
    then show ?thesis using True by (subst format_nat.simps) simp
  next
    case False
    then show ?thesis using 1 by (subst format_nat.simps) simp
  qed
qed

lemma base_prefix_decimal: "s = [] \<or> hd s \<noteq> CHR ''0'' \<Longrightarrow> base_prefix s = (10, s)"
  by (auto simp: base_prefix_def split: list.splits)

lemma parse_any_base_nat:
  assumes "int n \<le> (if neg then - min_int64 else max_int64)" "u = format_nat n"
  shows "(case base_prefix u of (b, ds) \<Rightarrow> base_value b 0 ds = Some n \<and> CHR ''_'' \<notin> set ds)"
proof (cases "n = 0")
  case True
  have "format_nat 0 = ''0''" by code_simp
  then show ?thesis using True assms(2) by (simp add: base_prefix_def)
next
  case False
  have "list_all is_digit u" using format_nat_digits assms(2) by simp
  then have "CHR ''_'' \<notin> set u" by (auto simp: list_all_iff is_digit_def)
  then show ?thesis
    using False assms(2) hd_format_nat [of n] base_prefix_decimal [of u] base_value_format [of n] by simp
qed

lemma parse_any_base_format: "in_i64 i \<Longrightarrow> parse_int_any_base (format_int i) = Inr i"
proof -
  assume i: "in_i64 i"
  let ?n = "nat \<bar>i\<bar>"
  have s: "split_sign (format_int i) = (i < 0, format_nat ?n)"
  proof (cases "i < 0")
    case True
    then show ?thesis by (simp add: format_int_def split_sign_def)
  next
    case False
    then show ?thesis using split_sign_digits [OF format_nat_digits] by (simp add: format_int_def)
  qed
  have "(case base_prefix (format_nat ?n) of (b, ds) \<Rightarrow> base_value b 0 ds = Some ?n \<and> CHR ''_'' \<notin> set ds)"
    by (rule parse_any_base_nat [of _ "i < 0", OF _ refl]) (use i in \<open>auto simp: in_i64_def\<close>)
  then obtain b ds where b: "base_prefix (format_nat ?n) = (b, ds)" "base_value b 0 ds = Some ?n" "CHR ''_'' \<notin> set ds"
    by (cases "base_prefix (format_nat ?n)") auto
  show ?thesis
  proof (cases "i < 0")
    case True
    then show ?thesis using i b s by (simp add: parse_int_any_base_def in_i64_def)
  next
    case False
    then show ?thesis using i b s by (simp add: parse_int_any_base_def in_i64_def)
  qed
qed

lemma parse_format_bool [simp]: "parse_bool (format_bool b) = Some b"
  by (simp add: parse_bool_def format_bool_def)

lemma leading_int_digits:
  assumes "list_all is_digit ds" "s = [] \<or> \<not> is_digit (hd s)"
    and "foldl (\<lambda>a c. a * 10 + (byte c - 48)) x ds \<le> 2 ^ 63"
  shows "leading_int x (ds @ s) = Some (foldl (\<lambda>a c. a * 10 + (byte c - 48)) x ds, s)"
  using assms(1,3)
proof (induction ds arbitrary: x)
  case Nil
  then show ?case using assms(2) by (cases s) auto
next
  case (Cons c ds)
  have mono: "y \<le> foldl (\<lambda>a c. a * 10 + (byte c - 48)) y cs" for y cs
  proof (induction cs arbitrary: y)
    case (Cons c cs)
    have "y \<le> y * 10 + (byte c - 48)" by simp
    also note Cons.IH
    finally show ?case by simp
  qed simp
  have "x * 10 + (byte c - 48) \<le> 2 ^ 63" 
    using order_trans [OF mono [of "x * 10 + (byte c - 48)" ds]] Cons.prems(2) by simp
  moreover from this have "\<not> 2 ^ 63 div 10 < x" by simp
  ultimately show ?case using Cons by simp
qed

lemma parse_duration_ns: "in_i64 i \<Longrightarrow> parse_duration (format_int i @ ''ns'') = Some i"
proof -
  assume i: "in_i64 i"
  let ?n = "nat \<bar>i\<bar>"
  let ?u = "format_nat ?n @ ''ns''"
  have d: "list_all is_digit (format_nat ?n)" by (rule format_nat_digits)
  have s: "split_sign (format_int i @ ''ns'') = (i < 0, ?u)"
  proof (cases "i < 0")
    case True
    then show ?thesis by (simp add: format_int_def split_sign_def)
  next
    case False
    obtain c t where c: "format_nat ?n = c # t" by (cases "format_nat ?n") auto
    then have "is_digit c" using d by simp
    then show ?thesis using False c by (auto simp: format_int_def split_sign_def is_digit_def)
  qed
  have nb: "?n \<le> 2 ^ 63" using i by (auto simp: in_i64_def min_int64_def max_int64_def)
  have li: "leading_int 0 ?u = Some (?n, ''ns'')"
    using leading_int_digits [OF d, of "''ns''" 0] nb digits_value_format [of ?n]
    by (simp add: digits_value_def is_digit_def)
  obtain c t where c: "format_nat ?n = c # t" by (cases "format_nat ?n") auto
  then have "is_number_char (hd ?u)" using d by (simp add: is_number_char_def)
  moreover have "takeWhile (\<lambda>c. \<not> is_number_char c) ''ns'' = ''ns''" "dropWhile (\<lambda>c. \<not> is_number_char c) ''ns'' = []"
    by (simp_all add: is_number_char_def is_digit_def)
  ultimately have p: "duration_part ?u = Some (?n, [])"
    using li nb c by (simp add: duration_part_def duration_units_def)
  have "duration_parts (length ?u) 0 ?u = Some ?n" using p nb c by simp
  moreover have "?u \<noteq> ''0''" by (cases "format_nat ?n") auto
  ultimately show ?thesis
    unfolding parse_duration_def s using i by (auto simp: in_i64_def min_int64_def)
qed

lemma level_names_ok:
  "list_all (\<lambda>(name, b). CHR ''+'' \<notin> set name \<and> CHR ''-'' \<notin> set name
     \<and> map_of level_names (upper_text name) = Some b) level_names"
  by code_simp

lemma parse_level_text: "in_i64 l \<Longrightarrow> parse_level (level_text l) = Some l"
proof -
  assume l: "in_i64 l"
  have sg: "signed_text n = [] \<and> n = 0 \<or>
      signed_text n \<noteq> [] \<and> (hd (signed_text n) = CHR ''+'' \<or> hd (signed_text n) = CHR ''-'') \<and> parse_int (signed_text n) = Inr n"
    if "in_i64 n" for n
  proof (cases "n \<le> 0")
    case True
    then show ?thesis using parse_format_int [OF that] by (auto simp: signed_text_def format_int_def)
  next
    case False
    then have "parse_int (CHR ''+'' # format_int n) = parse_int (format_int n)"
      using split_sign_digits [OF format_nat_digits, of "nat n"]
      by (simp add: parse_int_def parse_int_result_def format_int_def split_sign_def)
    then show ?thesis using False parse_format_int [OF that] by (simp add: signed_text_def)
  qed
  have pl: "parse_level (name @ signed_text n) = Some (b + n)"
    if "(name, b) \<in> set level_names" "in_i64 n" "in_i64 (b + n)" for name b n
  proof -
    have nm: "CHR ''+'' \<notin> set name" "CHR ''-'' \<notin> set name" "map_of level_names (upper_text name) = Some b"
      using that(1) level_names_ok by (auto simp: list_all_iff)
    have n0: "takeWhile (\<lambda>c. c \<noteq> CHR ''+'' \<and> c \<noteq> CHR ''-'') name = name"
    proof -
      have "\<forall>c\<in>set name. c \<noteq> CHR ''+'' \<and> c \<noteq> CHR ''-''" using nm(1,2) by blast
      then show ?thesis by (simp only: takeWhile_eq_all_conv)
    qed
    from sg [OF that(2)] show ?thesis
    proof
      assume z: "signed_text n = [] \<and> n = 0"
      have "n = 0" using z by blast
      have e: "name @ signed_text n = name" using z by (metis append_Nil2)
      show ?thesis unfolding e parse_level_def n0 Let_def using \<open>n = 0\<close> nm(3) that(3) by simp
    next
      assume r: "signed_text n \<noteq> [] \<and> (hd (signed_text n) = CHR ''+'' \<or> hd (signed_text n) = CHR ''-'') \<and> parse_int (signed_text n) = Inr n"
      then obtain c t where c: "signed_text n = c # t" "c = CHR ''+'' \<or> c = CHR ''-''" by (cases "signed_text n") auto
      have tw: "takeWhile (\<lambda>c. c \<noteq> CHR ''+'' \<and> c \<noteq> CHR ''-'') (name @ signed_text n) = name"
        using n0 c by (simp add: takeWhile_append)
      show ?thesis using r nm(3) that(3) by (simp add: parse_level_def tw)
    qed
  qed
  have b: "in_i64 (l + 4) \<or> \<not> l < 0" "in_i64 (l - 4) \<or> l < 4" "in_i64 (l - 8) \<or> l < 8"
    using l by (auto simp: in_i64_def min_int64_def max_int64_def)
  show ?thesis
    using l b pl [of "''DEBUG''" "-4" "l + 4"] pl [of "''INFO''" 0 l] pl [of "''WARN''" 4 "l - 4"] pl [of "''ERROR''" 8 "l - 8"]
    by (auto simp: level_text_def level_names_def)
qed

text \<open>One argument of the form \<open>--name=value\<close>.\<close>

lemma parse_flags_assign:
  assumes "map_of flags n = Some (b, set_value)" "n \<noteq> []" "CHR ''='' \<notin> set n" "hd n \<noteq> CHR ''-''"
  shows "parse_flags flags ((''--'' @ n @ CHR ''='' # v) # args) st =
    (case set_value v st of None \<Rightarrow> Inl (InvalidFlagValue n v) | Some st' \<Rightarrow> parse_flags flags args st')"
proof -
  have tw: "takeWhile (\<lambda>c. c \<noteq> CHR ''='') (tl n @ CHR ''='' # v) = tl n"
    using assms(3) by (cases n) (auto simp: takeWhile_tail)
  have "split_flag (n @ CHR ''='' # v) = (n, Some v)"
    using assms(2) tw by (cases n) (simp_all add: split_flag_def)
  moreover have "hd n \<noteq> CHR ''=''" using assms(2,3) by (cases n) auto
  ultimately show ?thesis using assms by (simp split: option.splits)
qed

text \<open>The fuel of the durations is enough: each part is not empty.\<close>

lemma leading_int_length: "leading_int x s = Some (v, t) \<Longrightarrow> length t \<le> length s"
  by (induction x s rule: leading_int.induct) (auto simp: Let_def split: if_splits)

lemma leading_fraction_length: "leading_fraction ovf x k s = (f, sc, t) \<Longrightarrow> length t \<le> length s"
  by (induction ovf x k s rule: leading_fraction.induct) (auto split: if_splits)

lemma duration_part_length: "duration_part s = Some (w, t) \<Longrightarrow> length t < length s"
proof -
  assume p: "duration_part s = Some (w, t)"
  obtain v s1 where li: "leading_int 0 s = Some (v, s1)"
    using p by (auto simp: duration_part_def split: if_splits option.splits)
  obtain f sc s2 where lf: "(if s1 \<noteq> [] \<and> hd s1 = CHR ''.'' then leading_fraction False 0 1 (tl s1) else (0, 1, s1)) = (f, sc, s2)"
    by (metis prod_cases3)
  have l: "length s2 \<le> length s"
    using lf leading_int_length [OF li] leading_fraction_length [of False 0 1 "tl s1" f sc s2] by (auto split: if_splits)
  let ?u = "takeWhile (\<lambda>c. \<not> is_number_char c) s2"
  have "map_of duration_units ?u \<noteq> None \<and> t = dropWhile (\<lambda>c. \<not> is_number_char c) s2"
  proof (cases "map_of duration_units ?u")
    case None
    then show ?thesis using p unfolding duration_part_def li option.case prod.case lf Let_def by (simp split: if_splits)
  next
    case (Some unt)
    then show ?thesis using p unfolding duration_part_def li option.case prod.case lf Let_def by (simp split: if_splits)
  qed
  then have "?u \<noteq> [] \<and> t = dropWhile (\<lambda>c. \<not> is_number_char c) s2" by (auto simp: duration_units_def)
  moreover have "length ?u + length (dropWhile (\<lambda>c. \<not> is_number_char c) s2) = length s2"
    by (simp only: length_append [symmetric] takeWhile_dropWhile_id)
  ultimately have "length t < length s2" using length_greater_0_conv [of ?u] by (metis less_add_same_cancel2)
  then show ?thesis using l by simp
qed

lemma duration_fuel: "length s \<le> m \<Longrightarrow> length s \<le> n \<Longrightarrow> duration_parts m d s = duration_parts n d s"
proof (induction m arbitrary: n d s)
  case 0
  then show ?case by simp
next
  case (Suc m)
  show ?case
  proof (cases s)
    case Nil
    then show ?thesis by simp
  next
    case (Cons c u)
    then obtain k where n: "n = Suc k" using Suc.prems(2) by (cases n) auto
    have t: "length t \<le> m \<and> length t \<le> k" if "duration_part (c # u) = Some (w, t)" for w t
      using duration_part_length [OF that] Suc.prems Cons n by simp
    show ?thesis
      unfolding Cons n using Suc.IH t by (auto split: option.splits)
  qed
qed

end
