(* ===== verification/Flags.thy ===== *)
theory Flags
  imports Config GoFlag
begin

text \<open>
  The flags of rview/config.go and ParseConfig as a whole: how each argument of the command line
  changes the configuration, and when the program ends instead.
\<close>

section \<open>The flags\<close>

text \<open>Beside the configuration there is the variable printVersion.\<close>

type_synonym flag_state = "config \<times> bool"

definition config_flag :: "(string \<Rightarrow> 'a option) \<Rightarrow> (('a \<Rightarrow> 'a) \<Rightarrow> config \<Rightarrow> config) \<Rightarrow> string \<Rightarrow> flag_state \<Rightarrow> flag_state option" where
  "config_flag parse upd v st = map_option (\<lambda>x. (upd (\<lambda>_. x) (fst st), snd st)) (parse v)"

definition int_value :: "string \<Rightarrow> int option" where
  "int_value v = (case parse_int_any_base v of Inl _ \<Rightarrow> None | Inr n \<Rightarrow> Some n)"

definition mib_value :: "string \<Rightarrow> int option" where
  "mib_value v = (case unmarshal_mib v of Inl _ \<Rightarrow> None | Inr n \<Rightarrow> Some n)"

definition enum_value :: "(string \<Rightarrow> string \<times> config_error option) \<Rightarrow> string \<Rightarrow> string option" where
  "enum_value unmarshal v = (case unmarshal v of (x, None) \<Rightarrow> Some x | (_, Some _) \<Rightarrow> None)"

definition rclone_upd :: "(('a \<Rightarrow> 'a) \<Rightarrow> rclone_config \<Rightarrow> rclone_config) \<Rightarrow> ('a \<Rightarrow> 'a) \<Rightarrow> config \<Rightarrow> config" where
  "rclone_upd upd f = cfg_rclone_update (upd f)"

definition config_flags :: "(string \<times> flag_state flag) list" where
  "config_flags =
     [(''version'', True, \<lambda>v st. map_option (\<lambda>b. (fst st, b)) (parse_bool v)),
      (''port'', False, config_flag int_value cfg_server_port_update),
      (''dir'', False, config_flag Some cfg_dir_update),
      (''rclone-url'', False, config_flag Some (rclone_upd rcf_url_update)),
      (''rclone-target'', False, config_flag Some (rclone_upd rcf_target_update)),
      (''rclone-dir-cache-ttl'', False, config_flag parse_duration (rclone_upd rcf_dir_cache_ttl_update)),
      (''rclone-request-real-modtime'', True, config_flag parse_bool (rclone_upd rcf_request_real_mod_time_update)),
      (''image-preview-mode'', False, config_flag (enum_value unmarshal_preview_mode) cfg_image_preview_mode_update),
      (''thumbnails-format'', False, config_flag (enum_value unmarshal_thumbnails_format) cfg_thumbnails_format_update),
      (''thumbnails-process-raw-files'', True, config_flag parse_bool cfg_thumbnails_process_raw_files_update),
      (''thumbnails-cache-size'', False, config_flag mib_value cfg_thumbnails_cache_size_update),
      (''thumbnails-original-image-cache-size'', False, config_flag mib_value cfg_original_image_cache_size_update),
      (''thumbnails-workers-count'', False, config_flag int_value cfg_thumbnails_workers_count_update),
      (''log-level'', False, config_flag parse_level cfg_log_level_update),
      (''read-static-files-from-disk'', True, config_flag parse_bool cfg_read_static_files_from_disk_update)]"

section \<open>ParseConfig\<close>

text \<open>
  Package flag exits with 0 when help is asked for and with 2 for a bad argument; a version that is
  asked for is printed before the configuration is looked at.
\<close>

datatype parse_outcome = ExitsWith nat | Rejected config_error | Accepted config

definition parse_config :: "build_info \<Rightarrow> int \<Rightarrow> string option \<Rightarrow> string list \<Rightarrow> parse_outcome" where
  "parse_config info numCPU wd args =
     (case parse_flags config_flags args (default_config info numCPU, False) of
        Inl HelpRequested \<Rightarrow> ExitsWith 0
      | Inl _ \<Rightarrow> ExitsWith 2
      | Inr (cfg, printVersion) \<Rightarrow>
          if printVersion then ExitsWith 0
          else case check_config wd cfg of Inl e \<Rightarrow> Rejected e | Inr cfg \<Rightarrow> Accepted cfg)"

section \<open>Every configuration has a command line\<close>

definition config_values :: "config \<Rightarrow> (string \<times> string) list" where
  "config_values cfg =
     [(''port'', format_int (cfg_server_port cfg)),
      (''dir'', cfg_dir cfg),
      (''rclone-url'', rcf_url (cfg_rclone cfg)),
      (''rclone-target'', rcf_target (cfg_rclone cfg)),
      (''rclone-dir-cache-ttl'', format_int (rcf_dir_cache_ttl (cfg_rclone cfg)) @ ''ns''),
      (''rclone-request-real-modtime'', format_bool (rcf_request_real_mod_time (cfg_rclone cfg))),
      (''image-preview-mode'', cfg_image_preview_mode cfg),
      (''thumbnails-format'', cfg_thumbnails_format cfg),
      (''thumbnails-process-raw-files'', format_bool (cfg_thumbnails_process_raw_files cfg)),
      (''thumbnails-cache-size'', mib_string (cfg_thumbnails_cache_size cfg)),
      (''thumbnails-original-image-cache-size'', mib_string (cfg_original_image_cache_size cfg)),
      (''thumbnails-workers-count'', format_int (cfg_thumbnails_workers_count cfg)),
      (''log-level'', level_text (cfg_log_level cfg)),
      (''read-static-files-from-disk'', format_bool (cfg_read_static_files_from_disk cfg))]"

definition config_args :: "config \<Rightarrow> string list" where
  "config_args cfg = map (\<lambda>(n, v). ''--'' @ n @ CHR ''='' # v) (config_values cfg)"

text \<open>The values that the types and enumerations of the code allow.\<close>

definition wf_config :: "config \<Rightarrow> bool" where
  "wf_config cfg \<longleftrightarrow> in_i64 (cfg_server_port cfg) \<and> in_i64 (rcf_dir_cache_ttl (cfg_rclone cfg))
     \<and> cfg_image_preview_mode cfg \<in> {''none'', ''original'', ''thumbnails''}
     \<and> cfg_thumbnails_format cfg \<in> {''jpeg'', ''avif''}
     \<and> in_i64 (cfg_thumbnails_cache_size cfg) \<and> in_i64 (cfg_original_image_cache_size cfg)
     \<and> in_i64 (cfg_thumbnails_workers_count cfg) \<and> in_i64 (cfg_log_level cfg)"

lemma config_flags_names: "map_of config_flags n = Some x \<Longrightarrow> n \<noteq> [] \<and> CHR ''='' \<notin> set n \<and> hd n \<noteq> CHR ''-''"
proof -
  have "\<forall>m\<in>set (map fst config_flags). m \<noteq> [] \<and> CHR ''='' \<notin> set m \<and> hd m \<noteq> CHR ''-''"
    by (simp add: config_flags_def)
  moreover assume "map_of config_flags n = Some x"
  then have "n \<in> set (map fst config_flags)" by (force dest: map_of_SomeD)
  ultimately show ?thesis by blast
qed

lemma lookup_flags:
  "map_of config_flags ''port'' = Some (False, config_flag int_value cfg_server_port_update)"
  "map_of config_flags ''dir'' = Some (False, config_flag Some cfg_dir_update)"
  "map_of config_flags ''rclone-url'' = Some (False, config_flag Some (rclone_upd rcf_url_update))"
  "map_of config_flags ''rclone-target'' = Some (False, config_flag Some (rclone_upd rcf_target_update))"
  "map_of config_flags ''rclone-dir-cache-ttl'' = Some (False, config_flag parse_duration (rclone_upd rcf_dir_cache_ttl_update))"
  "map_of config_flags ''rclone-request-real-modtime'' =
     Some (True, config_flag parse_bool (rclone_upd rcf_request_real_mod_time_update))"
  "map_of config_flags ''image-preview-mode'' =
     Some (False, config_flag (enum_value unmarshal_preview_mode) cfg_image_preview_mode_update)"
  "map_of config_flags ''thumbnails-format'' =
     Some (False, config_flag (enum_value unmarshal_thumbnails_format) cfg_thumbnails_format_update)"
  "map_of config_flags ''thumbnails-process-raw-files'' =
     Some (True, config_flag parse_bool cfg_thumbnails_process_raw_files_update)"
  "map_of config_flags ''thumbnails-cache-size'' = Some (False, config_flag mib_value cfg_thumbnails_cache_size_update)"
  "map_of config_flags ''thumbnails-original-image-cache-size'' =
     Some (False, config_flag mib_value cfg_original_image_cache_size_update)"
  "map_of config_flags ''thumbnails-workers-count'' =
     Some (False, config_flag int_value cfg_thumbnails_workers_count_update)"
  "map_of config_flags ''log-level'' = Some (False, config_flag parse_level cfg_log_level_update)"
  "map_of config_flags ''read-static-files-from-disk'' =
     Some (True, config_flag parse_bool cfg_read_static_files_from_disk_update)"
  by (simp_all add: config_flags_def)

lemma int_value_format [simp]: "in_i64 i \<Longrightarrow> int_value (format_int i) = Some i"
  by (simp add: int_value_def parse_any_base_format)

lemma mib_value_string [simp]: "in_i64 i \<Longrightarrow> mib_value (mib_string i) = Some i"
  using mib_roundtrip [of i] by (simp add: mib_value_def)

lemma enum_values [simp]:
  "m \<in> {''none'', ''original'', ''thumbnails''} \<Longrightarrow> enum_value unmarshal_preview_mode m = Some m"
  "f \<in> {''jpeg'', ''avif''} \<Longrightarrow> enum_value unmarshal_thumbnails_format f = Some f"
  by (simp_all only: enum_value_def unmarshal_preview_mode_def unmarshal_thumbnails_format_def check_enum_def
      list.set if_True option.case prod.case)

lemma config_flag_step:
  assumes "map_of config_flags n = Some (b, config_flag parse upd)" "parse v = Some x"
  shows "parse_flags config_flags ((''--'' @ n @ CHR ''='' # v) # args) (c, ver) =
    parse_flags config_flags args (upd (\<lambda>_. x) c, ver)"
  using parse_flags_assign [OF assms(1)] config_flags_names [OF assms(1)] assms(2) by (simp add: config_flag_def)

lemma parse_config_args:
  fixes c cfg :: config
  assumes "wf_config cfg" "cfg_build_info c = cfg_build_info cfg" "rcf_port (cfg_rclone c) = rcf_port (cfg_rclone cfg)"
  shows "parse_flags config_flags (config_args cfg) (c, False) = Inr (cfg, False)"
proof -
  note w = assms(1) [unfolded wf_config_def]
  let ?c1 = "cfg_server_port_update (\<lambda>_. cfg_server_port cfg) c"
  let ?c2 = "cfg_dir_update (\<lambda>_. cfg_dir cfg) ?c1"
  let ?c3 = "rclone_upd rcf_url_update (\<lambda>_. rcf_url (cfg_rclone cfg)) ?c2"
  let ?c4 = "rclone_upd rcf_target_update (\<lambda>_. rcf_target (cfg_rclone cfg)) ?c3"
  let ?c5 = "rclone_upd rcf_dir_cache_ttl_update (\<lambda>_. rcf_dir_cache_ttl (cfg_rclone cfg)) ?c4"
  let ?c6 = "rclone_upd rcf_request_real_mod_time_update (\<lambda>_. rcf_request_real_mod_time (cfg_rclone cfg)) ?c5"
  let ?c7 = "cfg_image_preview_mode_update (\<lambda>_. cfg_image_preview_mode cfg) ?c6"
  let ?c8 = "cfg_thumbnails_format_update (\<lambda>_. cfg_thumbnails_format cfg) ?c7"
  let ?c9 = "cfg_thumbnails_process_raw_files_update (\<lambda>_. cfg_thumbnails_process_raw_files cfg) ?c8"
  let ?c10 = "cfg_thumbnails_cache_size_update (\<lambda>_. cfg_thumbnails_cache_size cfg) ?c9"
  let ?c11 = "cfg_original_image_cache_size_update (\<lambda>_. cfg_original_image_cache_size cfg) ?c10"
  let ?c12 = "cfg_thumbnails_workers_count_update (\<lambda>_. cfg_thumbnails_workers_count cfg) ?c11"
  let ?c13 = "cfg_log_level_update (\<lambda>_. cfg_log_level cfg) ?c12"
  let ?c14 = "cfg_read_static_files_from_disk_update (\<lambda>_. cfg_read_static_files_from_disk cfg) ?c13"
  have v: "int_value (format_int (cfg_server_port cfg)) = Some (cfg_server_port cfg)"
    "Some (cfg_dir cfg) = Some (cfg_dir cfg)"
    "Some (rcf_url (cfg_rclone cfg)) = Some (rcf_url (cfg_rclone cfg))"
    "Some (rcf_target (cfg_rclone cfg)) = Some (rcf_target (cfg_rclone cfg))"
    "parse_duration (format_int (rcf_dir_cache_ttl (cfg_rclone cfg)) @ ''ns'') = Some (rcf_dir_cache_ttl (cfg_rclone cfg))"
    "parse_bool (format_bool (rcf_request_real_mod_time (cfg_rclone cfg))) = Some (rcf_request_real_mod_time (cfg_rclone cfg))"
    "enum_value unmarshal_preview_mode (cfg_image_preview_mode cfg) = Some (cfg_image_preview_mode cfg)"
    "enum_value unmarshal_thumbnails_format (cfg_thumbnails_format cfg) = Some (cfg_thumbnails_format cfg)"
    "parse_bool (format_bool (cfg_thumbnails_process_raw_files cfg)) = Some (cfg_thumbnails_process_raw_files cfg)"
    "mib_value (mib_string (cfg_thumbnails_cache_size cfg)) = Some (cfg_thumbnails_cache_size cfg)"
    "mib_value (mib_string (cfg_original_image_cache_size cfg)) = Some (cfg_original_image_cache_size cfg)"
    "int_value (format_int (cfg_thumbnails_workers_count cfg)) = Some (cfg_thumbnails_workers_count cfg)"
    "parse_level (level_text (cfg_log_level cfg)) = Some (cfg_log_level cfg)"
    "parse_bool (format_bool (cfg_read_static_files_from_disk cfg)) = Some (cfg_read_static_files_from_disk cfg)"
    using w by (simp_all add: parse_duration_ns parse_level_text)
  have "parse_flags config_flags (config_args cfg) (c, False) = parse_flags config_flags [] (?c14, False)"
    unfolding config_args_def config_values_def list.map prod.case
    by (rule config_flag_step [OF lookup_flags(1) v(1), THEN trans],
      rule config_flag_step [OF lookup_flags(2) v(2), THEN trans],
      rule config_flag_step [OF lookup_flags(3) v(3), THEN trans],
      rule config_flag_step [OF lookup_flags(4) v(4), THEN trans],
      rule config_flag_step [OF lookup_flags(5) v(5), THEN trans],
      rule config_flag_step [OF lookup_flags(6) v(6), THEN trans],
      rule config_flag_step [OF lookup_flags(7) v(7), THEN trans],
      rule config_flag_step [OF lookup_flags(8) v(8), THEN trans],
      rule config_flag_step [OF lookup_flags(9) v(9), THEN trans],
      rule config_flag_step [OF lookup_flags(10) v(10), THEN trans],
      rule config_flag_step [OF lookup_flags(11) v(11), THEN trans],
      rule config_flag_step [OF lookup_flags(12) v(12), THEN trans],
      rule config_flag_step [OF lookup_flags(13) v(13), THEN trans],
      rule config_flag_step [OF lookup_flags(14) v(14)])
  moreover have "?c14 = cfg"
    using assms(2,3) by (cases c; cases cfg; cases "cfg_rclone c"; cases "cfg_rclone cfg") (simp add: rclone_upd_def)
  ultimately show ?thesis by simp
qed

text \<open>
  C40: Every configuration can be given on the command line: from the arguments that name each flag
  with its value, ParseConfig makes the configuration again, whatever the number of processors,
  and accepts it exactly when its checks do.
\<close>

theorem config_args_roundtrip:
  assumes "wf_config cfg" "rcf_port (cfg_rclone cfg) = 8181"
  shows "parse_config (cfg_build_info cfg) numCPU wd (config_args cfg) =
    (case check_config wd cfg of Inl e \<Rightarrow> Rejected e | Inr cfg' \<Rightarrow> Accepted cfg')"
  using parse_config_args [OF assms(1), of "default_config (cfg_build_info cfg) numCPU"] assms(2)
  by (simp add: parse_config_def default_config_def)

lemma config_args_roundtrip_witness:
  "\<exists>cfg'. parse_config (read_build_info None) 4 (Some ''/srv'') (config_args
      ((default_config (read_build_info None) 0)\<lparr>cfg_thumbnails_cache_size := 2048, cfg_log_level := 5,
         cfg_rclone := \<lparr>rcf_url = [], rcf_target = ''remote:'', rcf_port = 8181, rcf_dir_cache_ttl = -7,
           rcf_request_real_mod_time = True\<rparr>\<rparr>)) = Accepted cfg'
    \<and> cfg_log_level cfg' = 5 \<and> rcf_dir_cache_ttl (cfg_rclone cfg') = -7"
proof -
  let ?cfg = "(default_config (read_build_info None) 0)\<lparr>cfg_thumbnails_cache_size := 2048, cfg_log_level := 5,
         cfg_rclone := \<lparr>rcf_url = [], rcf_target = ''remote:'', rcf_port = 8181, rcf_dir_cache_ttl = -7,
           rcf_request_real_mod_time = True\<rparr>\<rparr>"
  have w: "wf_config ?cfg" "rcf_port (cfg_rclone ?cfg) = 8181" "cfg_build_info ?cfg = read_build_info None"
    by (simp_all add: wf_config_def default_config_def in_i64_def min_int64_def max_int64_def level_info_def)
  obtain cfg' where "check_config (Some ''/srv'') ?cfg = Inr cfg'" "cfg_log_level cfg' = 5"
    "rcf_dir_cache_ttl (cfg_rclone cfg') = -7"
    by (simp add: check_config_def default_config_def abs_path_def is_abs_def)
  then show ?thesis using config_args_roundtrip [OF w(1,2), of 4 "Some ''/srv''"] w(3) by simp
qed

section \<open>Command lines\<close>

lemma sample_ints:
  "int_value ''x'' = None" "int_value ''0x'' = None" "int_value ''-0x1_f'' = Some (-31)" "int_value ''1__0'' = None"
  by code_simp+

lemma sample_command_lines:
  "parse_config info n wd [''--help''] = ExitsWith 0"
  "parse_config info n wd [''-port''] = ExitsWith 2"
  "parse_config info n wd [''--port=0x'', ''x''] = ExitsWith 2"
  "parse_config info n wd [''-version'', ''-port'', ''x''] = ExitsWith 2"
  "parse_config info n wd [''-version'', ''rest'', ''--nothing''] = ExitsWith 0"
  by (simp_all add: parse_config_def config_flags_def split_flag_def sample_ints parse_bool_def config_flag_def)

end
