(* ===== verification/Lifecycle.thy ===== *)
theory Lifecycle
  imports RcloneProcess StaticFiles Flags
begin

text \<open>
  cmd/rview.go and main.go: Prepare creates the components one after the other, Shutdown stops
  the ones that exist, and main turns what happened into an exit code.
\<close>

section \<open>The components\<close>

datatype component =
    WebServer
  | ThumbnailService
  | ThumbnailCache
  | OriginalImageCache
  | SearchService
  | RcloneInstance

datatype thumbnail_service = Generating int string bool | Noop

text \<open>
  NewServer keeps the address it listens on; its routes do not depend on the configuration.
\<close>

record http_server =
  hs_addr :: string

record rview =
  rv_cfg :: config
  rv_rclone :: "rclone_instance option"
  rv_thumbnail_cache :: "disk_cache option"
  rv_original_cache :: "disk_cache option"
  rv_thumbnail_service :: "thumbnail_service option"
  rv_search :: "search_service option"
  rv_server :: "http_server option"

definition new_rview :: "config \<Rightarrow> rview" where
  "new_rview cfg =
     \<lparr>rv_cfg = cfg, rv_rclone = None, rv_thumbnail_cache = None, rv_original_cache = None,
      rv_thumbnail_service = None, rv_search = None, rv_server = None\<rparr>"

definition new_server :: "config \<Rightarrow> http_server" where
  "new_server cfg = \<lparr>hs_addr = CHR '':'' # format_int (cfg_server_port cfg)\<rparr>"

text \<open>
  What the server asks of the service: the real one can generate thumbnails of images, \<open>openThumb\<close> is
  its OpenThumbnail; the other one (thumbnails/noop.go) refuses everything.
\<close>

fun service_can_generate :: "ucd \<Rightarrow> thumbnail_service \<Rightarrow> file_id \<Rightarrow> bool" where
  "service_can_generate U (Generating workers fmt raw) fid = can_generate_thumbnail U raw fid"
| "service_can_generate U Noop fid = False"

fun service_open :: "(file_id \<Rightarrow> string \<Rightarrow> thumbnail_error + string \<times> string) \<Rightarrow> thumbnail_service \<Rightarrow>
    file_id \<Rightarrow> string \<Rightarrow> thumbnail_error + string \<times> string" where
  "service_open openThumb (Generating workers fmt raw) fid tsize = openThumb fid tsize"
| "service_open openThumb Noop fid tsize = Inl NoopService"

section \<open>Prepare\<close>

datatype missing_dep = NoVips | NoExiftool

definition check_deps :: "bool \<Rightarrow> bool \<Rightarrow> missing_dep option" where
  "check_deps vips exiftool =
     (if \<not> vips then Some NoVips else if \<not> exiftool then Some NoExiftool else None)"

datatype prepare_error =
    NoDataDir
  | NoDataRoot
  | NoRclone rclone_setup_error
  | NoDeps missing_dep
  | NoThumbnailCache new_cache_error
  | NoOriginalImageCache new_cache_error
  | NoSearchService new_service_error

record prepare_env =
  pe_mkdir_ok :: bool
  pe_root_opens :: bool
  pe_rclone :: new_rclone_env
  pe_vips :: bool
  pe_exiftool :: bool
  pe_search_mkdir :: mkdir_result
  pe_search_root_opens :: bool
  pe_index_file :: index_file

definition makes_thumbnails :: "config \<Rightarrow> bool" where
  "makes_thumbnails cfg \<longleftrightarrow> cfg_image_preview_mode cfg = ''thumbnails''"

definition prepare_thumbnails :: "prepare_env \<Rightarrow> rview \<Rightarrow> prepare_error option \<times> rview" where
  "prepare_thumbnails env r =
     (let cfg = rv_cfg r
      in if \<not> makes_thumbnails cfg then (None, r\<lparr>rv_thumbnail_service := Some Noop\<rparr>)
         else case check_deps (pe_vips env) (pe_exiftool env) of
             Some e \<Rightarrow> (Some (NoDeps e), r)
           | None \<Rightarrow>
               (case new_disk_cache ''thumbnails'' (path_join [cfg_dir cfg, ''thumbnails'']) False
                  (mib_bytes (cfg_thumbnails_cache_size cfg)) of
                  Inl e \<Rightarrow> (Some (NoThumbnailCache e), r)
                | Inr c \<Rightarrow>
                    let r = r\<lparr>rv_thumbnail_cache := Some c\<rparr>
                    in (case new_disk_cache ''original-images'' (path_join [cfg_dir cfg, ''original-images'']) False
                          (mib_bytes (cfg_original_image_cache_size cfg)) of
                          Inl e \<Rightarrow> (Some (NoOriginalImageCache e), r)
                        | Inr c \<Rightarrow>
                            (None, r\<lparr>rv_original_cache := Some c,
                               rv_thumbnail_service := Some (Generating (cfg_thumbnails_workers_count cfg)
                                 (cfg_thumbnails_format cfg) (cfg_thumbnails_process_raw_files cfg))\<rparr>))))"

definition prepare_rview :: "prepare_env \<Rightarrow> rview \<Rightarrow> prepare_error option \<times> rview" where
  "prepare_rview env r =
     (if \<not> pe_mkdir_ok env then (Some NoDataDir, r)
      else if \<not> pe_root_opens env then (Some NoDataRoot, r)
      else case new_rclone (pe_rclone env) (cfg_rclone (rv_cfg r)) of
          Inl e \<Rightarrow> (Some (NoRclone e), r)
        | Inr i \<Rightarrow>
            (case prepare_thumbnails env (r\<lparr>rv_rclone := Some i\<rparr>) of
               (Some e, r) \<Rightarrow> (Some e, r)
             | (None, r) \<Rightarrow>
                 (case new_search_service (pe_search_mkdir env) (pe_search_root_opens env) (pe_index_file env) of
                    Inl e \<Rightarrow> (Some (NoSearchService e), r)
                  | Inr s \<Rightarrow>
                      (None, r\<lparr>rv_search := Some s, rv_server := Some (new_server (rv_cfg r))\<rparr>))))"

section \<open>Shutdown\<close>

fun initialized :: "rview \<Rightarrow> component \<Rightarrow> bool" where
  "initialized r WebServer \<longleftrightarrow> rv_server r \<noteq> None"
| "initialized r ThumbnailService \<longleftrightarrow> rv_thumbnail_service r \<noteq> None"
| "initialized r ThumbnailCache \<longleftrightarrow> rv_thumbnail_cache r \<noteq> None"
| "initialized r OriginalImageCache \<longleftrightarrow> rv_original_cache r \<noteq> None"
| "initialized r SearchService \<longleftrightarrow> rv_search r \<noteq> None"
| "initialized r RcloneInstance \<longleftrightarrow> rv_rclone r \<noteq> None"

text \<open>
  \<open>fails\<close> says which Shutdown methods return an error. The result of a call is None when the
  method is not called, else whether it failed; an error is logged, and the counter of failures
  keeps the value it starts with.
\<close>

definition safe_shutdown :: "(component \<Rightarrow> bool) \<Rightarrow> rview \<Rightarrow> component \<Rightarrow> bool option" where
  "safe_shutdown fails r c = (if initialized r c then Some (fails c) else None)"

record shutdown_log =
  sl_called :: "component list"
  sl_errors :: "component list"
  sl_failed :: nat

fun shutdown_all :: "(component \<Rightarrow> bool) \<Rightarrow> rview \<Rightarrow> component list \<Rightarrow> shutdown_log \<Rightarrow> shutdown_log" where
  "shutdown_all fails r [] l = l"
| "shutdown_all fails r (c # cs) l =
     shutdown_all fails r cs
       (case safe_shutdown fails r c of
          None \<Rightarrow> l
        | Some failed \<Rightarrow>
            l\<lparr>sl_called := sl_called l @ [c], sl_errors := sl_errors l @ (if failed then [c] else [])\<rparr>)"

definition shutdown_order :: "component list" where
  "shutdown_order =
     [WebServer, ThumbnailService, ThumbnailCache, OriginalImageCache, SearchService, RcloneInstance]"

text \<open>Whether Shutdown returns an error, and what it has done.\<close>

definition shutdown_rview :: "(component \<Rightarrow> bool) \<Rightarrow> rview \<Rightarrow> bool \<times> shutdown_log" where
  "shutdown_rview fails r =
     (let l = shutdown_all fails r shutdown_order \<lparr>sl_called = [], sl_errors = [], sl_failed = 0\<rparr>
      in (0 < sl_failed l, l))"

section \<open>main\<close>

text \<open>
  What happens to a started program: whether a signal arrives, and which of the three Start
  methods return an error at some time.
\<close>

record run_env =
  re_signal :: bool
  re_start_fails :: "component \<Rightarrow> bool"
  re_shutdown_fails :: "component \<Rightarrow> bool"

definition started_components :: "component list" where
  "started_components = [RcloneInstance, SearchService, WebServer]"

datatype run_result = StillRuns | Exits nat "component list"

definition run_main :: "parse_outcome \<Rightarrow> prepare_env \<Rightarrow> run_env \<Rightarrow> run_result" where
  "run_main parsed env run =
     (case parsed of
        ExitsWith code \<Rightarrow> Exits code []
      | Rejected _ \<Rightarrow> Exits 1 []
      | Accepted cfg \<Rightarrow>
          (case prepare_rview env (new_rview cfg) of
             (Some e, r) \<Rightarrow> Exits 1 (sl_called (snd (shutdown_rview (re_shutdown_fails run) r)))
           | (None, r) \<Rightarrow>
               let failed = list_ex (re_start_fails run) started_components
               in if \<not> re_signal run \<and> \<not> failed then StillRuns
                  else Exits (if failed then 1 else 0) (sl_called (snd (shutdown_rview (re_shutdown_fails run) r)))))"

section \<open>What is created is stopped\<close>

lemma shutdown_all_log:
  "shutdown_all fails r cs l = l\<lparr>sl_called := sl_called l @ filter (initialized r) cs,
     sl_errors := sl_errors l @ filter (\<lambda>c. initialized r c \<and> fails c) cs\<rparr>"
  by (induction cs arbitrary: l) (auto simp: safe_shutdown_def)

definition components_of :: "rview \<Rightarrow> component list" where
  "components_of r = filter (initialized r) shutdown_order"

lemma components_of_eq:
  "components_of r =
     (if rv_server r \<noteq> None then [WebServer] else []) @
     (if rv_thumbnail_service r \<noteq> None then [ThumbnailService] else []) @
     (if rv_thumbnail_cache r \<noteq> None then [ThumbnailCache] else []) @
     (if rv_original_cache r \<noteq> None then [OriginalImageCache] else []) @
     (if rv_search r \<noteq> None then [SearchService] else []) @
     (if rv_rclone r \<noteq> None then [RcloneInstance] else [])"
  by (simp only: components_of_def shutdown_order_def filter.simps initialized.simps append.simps if_distrib)
    simp

lemma shutdown_rview_log:
  "shutdown_rview fails r = (False, \<lparr>sl_called = components_of r, sl_errors = filter fails (components_of r), sl_failed = 0\<rparr>)"
  by (simp add: shutdown_rview_def shutdown_all_log components_of_def conj_commute)

text \<open>How far Prepare has got tells which components exist.\<close>

fun created_by :: "bool \<Rightarrow> prepare_error option \<Rightarrow> component list" where
  "created_by thumbs None =
     [WebServer, ThumbnailService] @ (if thumbs then [ThumbnailCache, OriginalImageCache] else []) @
     [SearchService, RcloneInstance]"
| "created_by thumbs (Some NoDataDir) = []"
| "created_by thumbs (Some NoDataRoot) = []"
| "created_by thumbs (Some (NoRclone e)) = []"
| "created_by thumbs (Some (NoDeps e)) = [RcloneInstance]"
| "created_by thumbs (Some (NoThumbnailCache e)) = [RcloneInstance]"
| "created_by thumbs (Some (NoOriginalImageCache e)) = [ThumbnailCache, RcloneInstance]"
| "created_by thumbs (Some (NoSearchService e)) =
     [ThumbnailService] @ (if thumbs then [ThumbnailCache, OriginalImageCache] else []) @ [RcloneInstance]"

text \<open>The part of Prepare for thumbnails, from a state in which only rclone exists.\<close>

definition only_rclone :: "config \<Rightarrow> rview \<Rightarrow> bool" where
  "only_rclone cfg r \<longleftrightarrow> rv_cfg r = cfg \<and> rv_rclone r \<noteq> None \<and> rv_server r = None \<and> rv_search r = None
     \<and> rv_thumbnail_service r = None \<and> rv_thumbnail_cache r = None \<and> rv_original_cache r = None"

definition thumbnails_ready :: "config \<Rightarrow> rview \<Rightarrow> bool" where
  "thumbnails_ready cfg r \<longleftrightarrow> rv_cfg r = cfg \<and> rv_rclone r \<noteq> None \<and> rv_server r = None \<and> rv_search r = None
     \<and> rv_thumbnail_service r \<noteq> None
     \<and> (rv_thumbnail_cache r \<noteq> None \<longleftrightarrow> makes_thumbnails cfg) \<and> (rv_original_cache r \<noteq> None \<longleftrightarrow> makes_thumbnails cfg)"

lemma prepare_thumbnails_cases:
  assumes "only_rclone cfg r"
  obtains r' where "prepare_thumbnails env r = (None, r')" "thumbnails_ready cfg r'"
    | x where "prepare_thumbnails env r = (Some (NoDeps x), r)"
    | x where "prepare_thumbnails env r = (Some (NoThumbnailCache x), r)"
    | x c where "prepare_thumbnails env r = (Some (NoOriginalImageCache x), r\<lparr>rv_thumbnail_cache := Some c\<rparr>)"
proof (cases "makes_thumbnails cfg")
  case False
  then show ?thesis using assms that(1) [of "r\<lparr>rv_thumbnail_service := Some Noop\<rparr>"]
    by (simp add: prepare_thumbnails_def only_rclone_def thumbnails_ready_def)
next
  case True
  have cfg: "rv_cfg r = cfg" using assms by (simp add: only_rclone_def)
  let ?a = "new_disk_cache ''thumbnails'' (path_join [cfg_dir cfg, ''thumbnails'']) False
      (mib_bytes (cfg_thumbnails_cache_size cfg))"
  let ?b = "new_disk_cache ''original-images'' (path_join [cfg_dir cfg, ''original-images'']) False
      (mib_bytes (cfg_original_image_cache_size cfg))"
  show ?thesis
  proof (cases "check_deps (pe_vips env) (pe_exiftool env)")
    case (Some e)
    then show ?thesis using that(2) [of e] True cfg by (simp add: prepare_thumbnails_def)
  next
    case deps: None
    show ?thesis
    proof (cases ?a)
      case (Inl e)
      then show ?thesis using that(3) [of e] True deps cfg by (simp add: prepare_thumbnails_def)
    next
      case a: (Inr c)
      show ?thesis
      proof (cases ?b)
        case (Inl e)
        then show ?thesis using that(4) [of e c] True deps cfg a by (simp add: prepare_thumbnails_def)
      next
        case (Inr d)
        let ?r = "r\<lparr>rv_thumbnail_cache := Some c, rv_original_cache := Some d,
            rv_thumbnail_service := Some (Generating (cfg_thumbnails_workers_count cfg)
              (cfg_thumbnails_format cfg) (cfg_thumbnails_process_raw_files cfg))\<rparr>"
        have "prepare_thumbnails env r = (None, ?r)" using Inr True deps cfg a by (simp add: prepare_thumbnails_def)
        moreover have "thumbnails_ready cfg ?r" using assms True by (simp add: only_rclone_def thumbnails_ready_def)
        ultimately show ?thesis by (rule that(1))
      qed
    qed
  qed
qed

lemma prepared_components:
  assumes "prepare_rview env (new_rview cfg) = (e, r)"
  shows "components_of r = created_by (makes_thumbnails cfg) e"
proof (cases "pe_mkdir_ok env \<and> pe_root_opens env")
  case False
  then show ?thesis using assms by (auto simp: prepare_rview_def new_rview_def components_of_eq split: if_splits)
next
  case dir: True
  show ?thesis
  proof (cases "new_rclone (pe_rclone env) (cfg_rclone cfg)")
    case (Inl x)
    then show ?thesis using assms dir by (auto simp: prepare_rview_def new_rview_def components_of_eq)
  next
    case rc: (Inr i)
    let ?r = "(new_rview cfg)\<lparr>rv_rclone := Some i\<rparr>"
    have o: "only_rclone cfg ?r" by (simp add: only_rclone_def new_rview_def)
    have cfg: "rv_cfg (new_rview cfg) = cfg" by (simp add: new_rview_def)
    note p = assms [unfolded prepare_rview_def cfg rc]
    show ?thesis
    proof (cases rule: prepare_thumbnails_cases [OF o, of env])
      case (1 r')
      show ?thesis
      proof (cases "new_search_service (pe_search_mkdir env) (pe_search_root_opens env) (pe_index_file env)")
        case (Inl x)
        then have "e = Some (NoSearchService x)" "r = r'" using p dir 1(1) by simp_all
        then show ?thesis using 1(2) by (simp add: components_of_eq thumbnails_ready_def)
      next
        case (Inr s)
        then have "e = None" "r = r'\<lparr>rv_search := Some s, rv_server := Some (new_server (rv_cfg r'))\<rparr>"
          using p dir 1(1) by simp_all
        then show ?thesis using 1(2) by (simp add: components_of_eq thumbnails_ready_def)
      qed
    next
      case (2 x)
      then have "e = Some (NoDeps x)" "r = ?r" using p dir by simp_all
      then show ?thesis using o by (simp add: components_of_eq only_rclone_def)
    next
      case (3 x)
      then have "e = Some (NoThumbnailCache x)" "r = ?r" using p dir by simp_all
      then show ?thesis using o by (simp add: components_of_eq only_rclone_def)
    next
      case (4 x c)
      then have "e = Some (NoOriginalImageCache x)" "r = ?r\<lparr>rv_thumbnail_cache := Some c\<rparr>" using p dir by simp_all
      then show ?thesis using o by (simp add: components_of_eq only_rclone_def)
    qed
  qed
qed

text \<open>
  C37: Shutdown stops exactly the components that Prepare has created, however far it got, each
  once and in the order that nothing is used after it is stopped: the server first, then
  the thumbnail service, its caches, the search and rclone. It never returns an error,
  whatever the components return, for nothing counts the failures.
\<close>

theorem shutdown_stops_what_was_created:
  "case prepare_rview env (new_rview cfg) of (e, r) \<Rightarrow>
     shutdown_rview fails r =
       (False, \<lparr>sl_called = created_by (makes_thumbnails cfg) e,
          sl_errors = filter fails (created_by (makes_thumbnails cfg) e), sl_failed = 0\<rparr>)"
  using prepared_components by (auto simp: shutdown_rview_log split: prod.splits)

text \<open>Without the thumbnail service no listing links to a thumbnail, and no request for one succeeds.\<close>

lemma noop_requests_fail:
  "wr_status (handle_thumbnail (service_open openThumb Noop) off now req) = 400"
  by (simp add: handle_thumbnail_def respond_def split: sum.splits)

lemma noop_previews:
  assumes "mode = ''thumbnails''"
  shows "snd (file_preview U mode (service_can_generate U Noop) fid) = []"
  using assms by (simp add: file_preview_def Let_def)

text \<open>
  An accepted configuration has an absolute directory, so that neither disk cache can be the
  reason why Prepare fails.
\<close>

lemma accepted_config_has_caches:
  assumes "check_config wd cfg0 = Inr cfg" "pred_option is_rooted wd"
  shows "fst (prepare_rview env (new_rview cfg)) \<noteq> Some (NoThumbnailCache x)"
    and "fst (prepare_rview env (new_rview cfg)) \<noteq> Some (NoOriginalImageCache x)"
proof -
  have ok: "new_disk_cache name (path_join [cfg_dir cfg, sub]) False maxSize \<noteq> Inl y" for name sub maxSize y
    using accepted_config [OF assms, of name sub maxSize] by auto
  have "fst (prepare_thumbnails env r) \<noteq> Some (NoThumbnailCache x)
      \<and> fst (prepare_thumbnails env r) \<noteq> Some (NoOriginalImageCache x)" if "rv_cfg r = cfg" for r
    using that ok
    by (simp add: prepare_thumbnails_def Let_def split: sum.splits option.splits)
  then have t: "\<exists>e r'. prepare_thumbnails env ((new_rview cfg)\<lparr>rv_rclone := Some i\<rparr>) = (e, r')
      \<and> e \<noteq> Some (NoThumbnailCache x) \<and> e \<noteq> Some (NoOriginalImageCache x)" for i
    by (metis new_rview_def prod.collapse rview.select_convs(1) rview.surjective rview.update_convs(2))
  have "fst (prepare_rview env (new_rview cfg)) \<noteq> Some (NoThumbnailCache x)
      \<and> fst (prepare_rview env (new_rview cfg)) \<noteq> Some (NoOriginalImageCache x)"
  proof (cases "new_rclone (pe_rclone env) (cfg_rclone cfg)")
    case (Inl y)
    then show ?thesis by (simp add: prepare_rview_def new_rview_def)
  next
    case (Inr i)
    obtain e r' where "prepare_thumbnails env ((new_rview cfg)\<lparr>rv_rclone := Some i\<rparr>) = (e, r')"
      "e \<noteq> Some (NoThumbnailCache x)" "e \<noteq> Some (NoOriginalImageCache x)" using t by blast
    then show ?thesis using Inr
      by (cases e) (auto simp: prepare_rview_def new_rview_def split: sum.splits)
  qed
  then show "fst (prepare_rview env (new_rview cfg)) \<noteq> Some (NoThumbnailCache x)"
    "fst (prepare_rview env (new_rview cfg)) \<noteq> Some (NoOriginalImageCache x)" by simp_all
qed

text \<open>
  The exit code of main: the arguments may end the program by themselves; a rejected
  configuration and a failed Prepare give 1 after what was created is stopped. A started
  program runs until a signal arrives or a component fails; then all components are stopped
  and the code is 0 exactly when none has failed, whatever their Shutdown methods return.
\<close>

lemma exit_code:
  "run_main parsed env run =
    (case parsed of
       ExitsWith code \<Rightarrow> Exits code []
     | Rejected _ \<Rightarrow> Exits 1 []
     | Accepted cfg \<Rightarrow>
         let thumbs = makes_thumbnails cfg;
             e = fst (prepare_rview env (new_rview cfg));
             failed = (re_start_fails run RcloneInstance \<or> re_start_fails run SearchService \<or> re_start_fails run WebServer)
         in if e = None then
              if failed then Exits 1 (created_by thumbs e)
              else if re_signal run then Exits 0 (created_by thumbs e)
              else StillRuns
            else Exits 1 (created_by thumbs e))"
proof (cases parsed)
  case (Accepted cfg)
  obtain e r where p: "prepare_rview env (new_rview cfg) = (e, r)" by fastforce
  then show ?thesis
    using prepared_components [OF p] Accepted
    by (cases e) (auto simp: run_main_def shutdown_rview_log started_components_def Let_def)
qed (simp_all add: run_main_def)

end
