(* ===== verification/Spec2Isabelle.thy ===== *)
theory Spec2Isabelle
  imports Icons SearchSteps CleanerProcess ThumbnailService ServerProps Lifecycle
begin

text \<open>
  A model of rview, a web application that lists, previews and searches the files of an
  rclone remote, and the theorems that make it correct.

  The program. A request of the browser reaches the router and the logging middleware of web/,
  whose handlers use three services: the rclone client (rclone/), which asks an rclone process
  for listings and files and caches listings; the thumbnail service (thumbnails/), whose
  workers fetch originals from rclone, shrink them with an external program and keep both in
  disk caches (pkg/cache/) that cleaners hold below their limits; and the search service
  (search/), which builds a prefix index of all files, saves it, and answers queries.
  cmd/ and main.go create these parts from the configuration (rview/config.go) and stop them.

  Theories and sources.
  \<^item> Prelude: result types, int64 arithmetic, comparisons, the contract of slices.SortFunc as the
    locale sort_contract, with insertion sort as its interpretation.
  \<^item> GoText, GoPath, GoUrl, GoTime, GoHtml, GoFlag, Json, Md5: what the program uses of Go's
    standard library, on byte strings: UTF-8 and strings, path and strconv, net/url, time, html,
    flag, encoding/json on trees, crypto/md5 and encoding/hex.
  \<^item> FileId, FileTypes, Misc, Icons, StaticFiles: rview/file_id.go, rview/file_types.go,
    pkg/misc/misc.go, static/static.go, static/fs.go.
  \<^item> NaturalOrder, DirCache, Rclone, RcloneProcess: rclone/rclone.go, rclone/dir_cache.go and the
    template rclone.gotmpl: the orders of a listing, its cache, requests with the checks of their
    answers, listings, and the rclone process.
  \<^item> SearchWords, SearchQuery, PrefixIndex, PrefixSearch, Search, SearchSpec: search/prefix_index.go:
    words and prefixes, the query language, the index, and Search; SearchSpec states what a
    search returns over the listed entries, without the index.
  \<^item> IndexJson, SearchService, SearchSteps: search/service.go: the saved index, loading, refreshing,
    the start with its retries, and the running service as a step relation.
  \<^item> Cleaner, CleanerProcess, DiskCache: pkg/cache/: the files a cleanup removes, the goroutine that
    cleans and its Shutdown, the cache on disk and the one in memory, both interpretations of
    the locale file_cache.
  \<^item> Thumbnails, ThumbnailNames, ThumbnailTasks, ThumbnailQueue, ThumbnailService: thumbnails/service.go:
    image types, identifiers, originals, RAW previews, one task at a time, the queue with its
    workers and Shutdown as a step relation, and the same with tasks that write real files.
  \<^item> Server, ServerProps: the server as a whole, one step per request: router, handler, middleware and
    metrics over the state that the handlers share, and what holds of requests end to end.
  \<^item> Config, Flags, Web, Routes, WebProps, Metrics, Lifecycle: rview/config.go and pkg/rlog, web/web.go
    and web/models.go, web/middlewares.go and the routes, pkg/metrics/metrics.go with the checks
    of the vendored Prometheus client, cmd/rview.go, main.go and thumbnails/noop.go.

  How the model corresponds to the code. Structs are records, enumerations datatypes, a Go
  map is a mapping or a list of pairs, bytes are characters, and a string is a list of bytes.
  An int64 is an int with the wrap-around i64 where a sum can overflow, an identifier of the
  index a 32-bit word. An error is Inl of a datatype, a panic a value of its own; handlers
  return the response, or a panic, and the new state of what they use. Goroutines are the
  steps of an inductive relation, one per action that others can see. Iteration over a Go
  map and sorting are arguments with contracts (map_iteration, sort_contract), since the
  language fixes neither.

  What the lemmas show.
  \<^item> Search: the index is exact (index_is_exact), a search on it returns what the specification
    says (search_meets_spec), every word of a path finds it, over HTTP too, parsing inverts the
    query syntax, compaction is a filter.
  \<^item> The running search service never dereferences nil and always has a checked index, Start returns
    after at most six attempts, and a restart loads the index that was saved last; two
    refreshes that interleave can leave file and memory different.
  \<^item> Caches: nothing partial is ever opened, files of different identifiers are separate up to
    MD5, a cleanup leaves the size below the limit and removes no more than it must, and none
    starts after Shutdown has returned without an error.
  \<^item> Thumbnails: every queued task is valid, no thumbnail is queued or generated twice at a time,
    the queue refines a single-flight system, the service with its files refines the queue, and
    with a worker every waiting call returns; and
    what Shutdown breaks: a send on the closed channel, tasks that are never served.
  \<^item> Rclone: listings survive the template, the decoding and the cache; a stored listing is served
    until it expires and errors are not stored; OpenFile accepts exactly the expected file;
    no rclone runs after Shutdown has returned without an error.
  \<^item> Web: the link of a listed file leads to exactly that file of rclone, no request leaves the
    remote, a page shows the listing of rclone, recorded statuses are the ones sent; the
    metrics can be registered. A refresh and a search over HTTP find what rclone lists, and
    the causes for which a request is aborted by a panic are listed completely.
  \<^item> Configuration and lifecycle: every configuration can be given on the command line; Shutdown
    stops exactly what Prepare has created; the exit code for every outcome.

  Bounds and termination. All functions are total; loops of the code are recursions on their
  data. The one loop with a counter, the retries of Start, ends after six attempts by its own
  bound. The liveness of the queue is shown with an explicit number of steps. Sums of sizes
  are exact under the hypothesis that they fit an int64; an index has at most 2^32 entries.

  Not modelled. Observations of metrics other than those of requests; log lines, apart from those
  of rclone that are passed on or skipped; HTML templates and scripts, so that a page is its template's name and
  its data, and whether the execution of the template succeeds is an argument; the programs
  vips, exiftool and rclone, the disk and HTTP transport, whose answers are arguments;
  bodies that net/http writes itself; scheme, host and credentials of URLs beyond what
  RcloneProcess says of them. Timeouts are steps that may happen at any time.
\<close>

end
